(* ===== verification/Prelude.thy ===== *)
theory Prelude
  imports Main "HOL-Library.Word" "HOL-Library.Signed_Division" "HOL-Library.Monad_Syntax"
begin

text \<open>
  What the components share: the scalar types of the C code, the little-endian encoding of its
  64-bit fields, byte buffers, and the collections of facts that carry the component proofs.
\<close>

unbundle bit_operations_syntax

named_theorems ideal_simps \<open>system calls and wrappers in an environment without faults\<close>
named_theorems os_simps \<open>reading the operating system's state after an update\<close>

type_synonym byte = "8 word"
type_synonym w64 = "64 word"

subsection \<open>C scalars\<close>

text \<open>
  A C integer outside a file is an \<open>int\<close>; where the code converts it, the conversion is written
  out. \<open>s32\<close> is the conversion to \<open>int\<close>, \<open>s64\<close> to \<open>off_t\<close> and \<open>ssize_t\<close>, \<open>u32\<close> and \<open>u64\<close> to
  the unsigned types of those widths.
\<close>

definition s32 :: "int \<Rightarrow> int" where
  "s32 x = signed_take_bit 31 x"

definition s64 :: "int \<Rightarrow> int" where
  "s64 x = signed_take_bit 63 x"

definition u32 :: "int \<Rightarrow> int" where
  "u32 x = take_bit 32 x"

definition u64 :: "int \<Rightarrow> int" where
  "u64 x = take_bit 64 x"

lemma s32_id [simp]: "- 2147483648 \<le> x \<Longrightarrow> x < 2147483648 \<Longrightarrow> s32 x = x"
  by (simp add: s32_def signed_take_bit_int_eq_self)

lemma s64_id [simp]: "- 9223372036854775808 \<le> x \<Longrightarrow> x < 9223372036854775808 \<Longrightarrow> s64 x = x"
  by (simp add: s64_def signed_take_bit_int_eq_self)

lemma u32_id [simp]: "0 \<le> x \<Longrightarrow> x < 4294967296 \<Longrightarrow> u32 x = x"
  by (simp add: u32_def take_bit_int_eq_self)

lemma u64_id [simp]: "0 \<le> x \<Longrightarrow> x < 18446744073709551616 \<Longrightarrow> u64 x = x"
  by (simp add: u64_def take_bit_int_eq_self)

lemma u64_nonneg [simp]: "0 \<le> u64 x"
  by (simp add: u64_def)

text \<open>C's division and remainder truncate; on the offsets the kernel passes they are \<open>div\<close>, \<open>mod\<close>.\<close>

lemma sdiv_nonneg: "0 \<le> (a::int) \<Longrightarrow> 0 < b \<Longrightarrow> a sdiv b = a div b"
  by (cases "a = 0") (simp_all add: signed_divide_int_def sgn_if)

lemma smod_nonneg: "0 \<le> (a::int) \<Longrightarrow> 0 < b \<Longrightarrow> a smod b = a mod b"
  by (cases "a = 0") (simp_all add: signed_modulo_int_def sdiv_nonneg minus_div_mult_eq_mod sgn_if)

subsection \<open>Little-endian fields\<close>

text \<open>
  The code writes its 64-bit fields from memory, so a file holds them as the machine does: eight
  bytes, least significant first. The same bytes serve \<open>off_t\<close> and \<open>size_t\<close>; a field is a
  64-bit word.
\<close>

fun enc_le :: "nat \<Rightarrow> w64 \<Rightarrow> byte list" where
  "enc_le 0 w = []"
| "enc_le (Suc k) w = ucast w # enc_le k (drop_bit 8 w)"

fun dec_le :: "byte list \<Rightarrow> w64" where
  "dec_le [] = 0"
| "dec_le (b # bs) = ucast b OR push_bit 8 (dec_le bs)"

definition enc64 :: "w64 \<Rightarrow> byte list" where
  "enc64 w = enc_le 8 w"

definition dec64 :: "byte list \<Rightarrow> w64" where
  "dec64 bs = dec_le bs"

lemma length_enc_le [simp]: "length (enc_le k w) = k"
  by (induction k arbitrary: w) auto

lemma ucast_or_push: "ucast (ucast (w :: w64) :: byte) OR push_bit 8 (take_bit k (drop_bit 8 w))
    = take_bit (8 + k) w"
  by (rule bit_word_eqI) (auto simp: bit_simps)

lemma dec_enc_le: "dec_le (enc_le k w) = take_bit (8 * k) w"
  by (induction k arbitrary: w) (simp_all add: ucast_or_push)

lemma length_enc64 [simp]: "length (enc64 w) = 8"
  by (simp add: enc64_def)

lemma dec_enc64 [simp]: "dec64 (enc64 w) = w"
  by (rule bit_word_eqI) (simp add: enc64_def dec64_def dec_enc_le bit_simps)

lemma enc64_inject [simp]: "enc64 v = enc64 w \<longleftrightarrow> v = w"
  by (metis dec_enc64)

lemma enc64_not_Nil [simp]: "enc64 w \<noteq> []"
  using length_enc64 [of w] by (metis list.size(3) zero_neq_numeral)

subsection \<open>Byte sequences\<close>

text \<open>
  \<open>write_at c p bs\<close> is a file's content after \<open>bs\<close> is written at offset \<open>p\<close>: a gap is filled
  with zeros, and writing nothing changes nothing. \<open>overlay\<close> is a local array after a call has
  stored some bytes at its start. \<open>mem_store\<close> is \<open>memcpy\<close> into an array, which has no defined
  result outside of it.
\<close>

definition write_at :: "byte list \<Rightarrow> nat \<Rightarrow> byte list \<Rightarrow> byte list" where
  "write_at c p bs = (if bs = [] then c
     else take p (c @ replicate (p - length c) 0) @ bs @ drop (p + length bs) c)"

definition overlay :: "byte list \<Rightarrow> byte list \<Rightarrow> byte list" where
  "overlay buf bs = bs @ drop (length bs) buf"

lemma overlay_Nil [simp]: "overlay buf [] = buf"
  by (simp add: overlay_def)

definition mem_store :: "byte list \<Rightarrow> int \<Rightarrow> byte list \<Rightarrow> byte list option" where
  "mem_store buf at bs =
     (if bs = [] then Some buf
      else if 0 \<le> at \<and> at + int (length bs) \<le> int (length buf)
      then Some (take (nat at) buf @ bs @ drop (nat at + length bs) buf)
      else None)"

text \<open>
  \<open>mem_copy\<close> and \<open>mem_fill\<close> are \<open>memcpy\<close> and \<open>memset\<close> with zero; a negative count becomes a huge
  \<open>size_t\<close>.
\<close>

definition mem_copy :: "byte list \<Rightarrow> int \<Rightarrow> byte list \<Rightarrow> int \<Rightarrow> int \<Rightarrow> byte list option" where
  "mem_copy buf at src pos n =
     (if n = 0 then Some buf
      else if 0 < n \<and> 0 \<le> pos \<and> pos + n \<le> int (length src)
      then mem_store buf at (take (nat n) (drop (nat pos) src))
      else None)"

definition mem_fill :: "byte list \<Rightarrow> int \<Rightarrow> int \<Rightarrow> byte list option" where
  "mem_fill buf at n = (if n < 0 then None else mem_store buf at (replicate (nat n) 0))"

lemma write_at_Nil [simp]: "write_at c p [] = c"
  by (simp add: write_at_def)

lemma write_at_end [simp]: "length c = p \<Longrightarrow> write_at c p bs = c @ bs"
  by (auto simp: write_at_def)

lemma write_at_empty [simp]: "write_at [] 0 bs = bs"
  by (simp add: write_at_def)

lemma write_at_inside: "p + length bs \<le> length c \<Longrightarrow> write_at c p bs = take p c @ bs @ drop (p + length bs) c"
  by (simp add: write_at_def)

lemma write_at_same: "p + length bs \<le> length c \<Longrightarrow> take (length bs) (drop p c) = bs \<Longrightarrow> write_at c p bs = c"
  by (simp add: write_at_inside) (metis append_take_drop_id drop_drop add.commute)

lemma write_at_split: "write_at c p (xs @ ys) = write_at (write_at c p xs) (p + length xs) ys"
  by (cases "p \<le> length c") (auto simp: write_at_def ac_simps)

lemma length_write_at: "length (write_at c p bs) = (if bs = [] then length c else max (length c) (p + length bs))"
  by (auto simp: write_at_def)

lemma take_drop_write_at [simp]: "take (length bs) (drop p (write_at c p bs)) = bs"
  by (simp add: write_at_def)

lemma write_at_middle: "length pre = p \<Longrightarrow> write_at (pre @ xs @ rest) p ys = pre @ ys @ rest"
  if "length xs = length ys"
  using that by (auto simp: write_at_def)

lemma overlay_full [simp]: "length bs = length buf \<Longrightarrow> overlay buf bs = bs"
  by (simp add: overlay_def)

lemma length_overlay [simp]: "length bs \<le> length buf \<Longrightarrow> length (overlay buf bs) = length buf"
  by (simp add: overlay_def)

lemma overlay_split:
  assumes "length bs \<le> m"
  shows "overlay xs bs = overlay (take m xs) bs @ drop m xs"
proof (cases "length xs < m")
  case False
  then have "drop (length bs) (take m xs @ drop m xs) = drop (length bs) (take m xs) @ drop m xs"
    using assms by (simp del: append_take_drop_id)
  then show ?thesis by (simp add: overlay_def)
qed (simp add: overlay_def)

lemma mem_store_length: "mem_store buf at bs = Some buf' \<Longrightarrow> length buf' = length buf"
  by (auto simp: mem_store_def split: if_splits)

lemma mem_store_Nil [simp]: "mem_store buf at [] = Some buf"
  by (simp add: mem_store_def)

lemma take_eq_appendI: "length xs = n \<Longrightarrow> take n (xs @ ys) = xs"
  by simp

end
