(* ===== verification/Posix.thy ===== *)
theory Posix
  imports Prelude
begin

text \<open>
  The part of the POSIX interface the code uses: inodes named by paths, a table of open file
  descriptions, \<open>errno\<close>, and the calls as functions on that state. A path is a key: resolving
  links, \<open>.\<close> and \<open>..\<close> is the kernel's. A call may deviate from plain success where the standard
  lets it: \<open>sched\<close> lists, for each kind of call, what happens to the next ones of that kind (fail
  with an \<open>errno\<close>, transfer fewer bytes); past the end of the list calls go through. So every
  finite pattern of interruptions, short transfers and errors is some \<open>sched\<close>.
\<close>

type_synonym path = string

datatype call = C_open | C_close | C_read | C_write | C_lseek | C_fcntl | C_access | C_unlink
  | C_mkdir | C_stat | C_malloc | C_log

text \<open>\<open>Short m\<close> lets a transfer move at most \<open>m + 1\<close> bytes; \<open>Fail e\<close> makes the call fail.\<close>

datatype outcome = Okay | Fail int | Short nat

datatype lock_type = F_RDLCK | F_WRLCK | F_UNLCK

datatype whence = SEEK_SET | SEEK_CUR | SEEK_END

datatype node = Reg "byte list" | Dir

record ofile =
  of_ino :: nat
  of_pos :: nat
  of_rd :: bool
  of_wr :: bool
  of_lock :: lock_type

record oflags =
  o_rd :: bool
  o_wr :: bool
  o_creat :: bool
  o_excl :: bool

text \<open>
  \<open>fdtab\<close> has one entry per descriptor the process may have. \<open>junk\<close> is what uninitialised memory
  holds, by the name of the variable. \<open>sext\<close> says how an \<open>int\<close> argument fills the 64-bit
  register of a parameter the callee reads as \<open>off_t\<close>: sign-extended or zero-extended. \<open>refs_valid\<close> says whether
  the value that \<open>load_block\<close> takes for its fifth argument, when it is called with four, happens to point to eight bytes
  that nothing else uses.
\<close>

record os =
  names :: "path \<Rightarrow> nat option"
  inodes :: "nat \<Rightarrow> node option"
  next_ino :: nat
  fdtab :: "ofile option list"
  errno :: int
  sched :: "call \<Rightarrow> outcome list"
  junk :: "string \<Rightarrow> nat \<Rightarrow> byte"
  sext :: bool
  refs_valid :: bool

abbreviation (input) EPERM :: int where "EPERM \<equiv> 1"
abbreviation (input) ENOENT :: int where "ENOENT \<equiv> 2"
abbreviation (input) EINTR :: int where "EINTR \<equiv> 4"
abbreviation (input) EBADF :: int where "EBADF \<equiv> 9"
abbreviation (input) ENOMEM :: int where "ENOMEM \<equiv> 12"
abbreviation (input) EEXIST :: int where "EEXIST \<equiv> 17"
abbreviation (input) EISDIR :: int where "EISDIR \<equiv> 21"
abbreviation (input) EINVAL :: int where "EINVAL \<equiv> 22"
abbreviation (input) EMFILE :: int where "EMFILE \<equiv> 24"

abbreviation O_RDONLY :: oflags where
  "O_RDONLY \<equiv> \<lparr>o_rd = True, o_wr = False, o_creat = False, o_excl = False\<rparr>"
abbreviation O_RDWR :: oflags where
  "O_RDWR \<equiv> \<lparr>o_rd = True, o_wr = True, o_creat = False, o_excl = False\<rparr>"
abbreviation O_RDWR_CREAT :: oflags where
  "O_RDWR_CREAT \<equiv> \<lparr>o_rd = True, o_wr = True, o_creat = True, o_excl = False\<rparr>"
abbreviation O_CREAT_EXCL_WRONLY :: oflags where
  "O_CREAT_EXCL_WRONLY \<equiv> \<lparr>o_rd = False, o_wr = True, o_creat = True, o_excl = True\<rparr>"

definition uninit :: "string \<Rightarrow> nat \<Rightarrow> os \<Rightarrow> byte list" where
  "uninit var n s = map (junk s var) [0..<n]"

text \<open>An uninitialised character array read as a string.\<close>

definition uninit_str :: "string \<Rightarrow> nat \<Rightarrow> os \<Rightarrow> string" where
  "uninit_str var n s = map (\<lambda>b. char_of (unat b)) (takeWhile (\<lambda>b. b \<noteq> 0) (uninit var n s))"

lemma length_uninit [simp]: "length (uninit v n s) = n"
  by (simp add: uninit_def)

subsection \<open>The calls\<close>

definition draw :: "call \<Rightarrow> os \<Rightarrow> outcome \<times> os" where
  "draw c s = (case sched s c of [] \<Rightarrow> (Okay, s) | o1 # rest \<Rightarrow> (o1, s\<lparr>sched := (sched s)(c := rest)\<rparr>))"

definition fail :: "int \<Rightarrow> os \<Rightarrow> int \<times> os" where
  "fail e s = (-1, s\<lparr>errno := e\<rparr>)"

definition get_fd :: "os \<Rightarrow> int \<Rightarrow> ofile option" where
  "get_fd s fd = (if 0 \<le> fd \<and> nat fd < length (fdtab s) then fdtab s ! nat fd else None)"

definition set_fd :: "os \<Rightarrow> int \<Rightarrow> ofile option \<Rightarrow> os" where
  "set_fd s fd f = s\<lparr>fdtab := (fdtab s)[nat fd := f]\<rparr>"

text \<open>The lowest descriptor that is not open.\<close>

fun free_slot :: "'a option list \<Rightarrow> nat option" where
  "free_slot [] = None"
| "free_slot (None # xs) = Some 0"
| "free_slot (Some x # xs) = map_option Suc (free_slot xs)"

text \<open>The directory a path is in.\<close>

definition parent_of :: "path \<Rightarrow> path" where
  "parent_of p = (if CHR ''/'' \<in> set p
     then let d = rev (tl (dropWhile (\<lambda>c. c \<noteq> CHR ''/'') (rev p))) in if d = [] then ''/'' else d
     else ''.'')"

definition is_dir :: "os \<Rightarrow> path \<Rightarrow> bool" where
  "is_dir s p = (case names s p of Some n \<Rightarrow> inodes s n = Some Dir | None \<Rightarrow> False)"

definition install :: "nat \<Rightarrow> oflags \<Rightarrow> os \<Rightarrow> int \<times> os" where
  "install n fl s = (case free_slot (fdtab s) of
       None \<Rightarrow> fail EMFILE s
     | Some i \<Rightarrow> (int i, set_fd s (int i)
         (Some \<lparr>of_ino = n, of_pos = 0, of_rd = o_rd fl, of_wr = o_wr fl, of_lock = F_UNLCK\<rparr>)))"

definition new_node :: "path \<Rightarrow> node \<Rightarrow> os \<Rightarrow> os" where
  "new_node p nd s = s\<lparr>names := (names s)(p \<mapsto> next_ino s),
     inodes := (inodes s)(next_ino s \<mapsto> nd), next_ino := Suc (next_ino s)\<rparr>"

definition sys_open :: "path \<Rightarrow> oflags \<Rightarrow> os \<Rightarrow> int \<times> os" where
  "sys_open p fl s = (case draw C_open s of
       (Fail e, s1) \<Rightarrow> fail e s1
     | (_, s1) \<Rightarrow>
        (case names s1 p of
           Some n \<Rightarrow>
             if o_creat fl \<and> o_excl fl then fail EEXIST s1
             else if inodes s1 n = Some Dir \<and> o_wr fl then fail EISDIR s1
             else install n fl s1
         | None \<Rightarrow>
             if \<not> o_creat fl \<or> \<not> is_dir s1 (parent_of p) then fail ENOENT s1
             else if free_slot (fdtab s1) = None then fail EMFILE s1
             else install (next_ino s1) fl (new_node p (Reg []) s1)))"

definition sys_close :: "int \<Rightarrow> os \<Rightarrow> int \<times> os" where
  "sys_close fd s = (case get_fd s fd of
       None \<Rightarrow> fail EBADF s
     | Some f \<Rightarrow> (case draw C_close s of
          (Fail e, s1) \<Rightarrow> fail e (set_fd s1 fd None)
        | (_, s1) \<Rightarrow> (0, set_fd s1 fd None)))"

definition limit :: "outcome \<Rightarrow> nat \<Rightarrow> nat" where
  "limit o1 n = (case o1 of Short m \<Rightarrow> min n (Suc m) | _ \<Rightarrow> n)"

text \<open>\<open>read\<close> also yields the bytes it stores in the caller's buffer.\<close>

definition sys_read :: "int \<Rightarrow> nat \<Rightarrow> os \<Rightarrow> (int \<times> byte list) \<times> os" where
  "sys_read fd n s = (case draw C_read s of
       (Fail e, s1) \<Rightarrow> ((-1, []), s1\<lparr>errno := e\<rparr>)
     | (o1, s1) \<Rightarrow> (case get_fd s1 fd of
          None \<Rightarrow> ((-1, []), s1\<lparr>errno := EBADF\<rparr>)
        | Some f \<Rightarrow>
            if \<not> of_rd f then ((-1, []), s1\<lparr>errno := EBADF\<rparr>)
            else (case inodes s1 (of_ino f) of
                Some (Reg c) \<Rightarrow>
                  (let bs = take (limit o1 n) (drop (of_pos f) c) in
                   ((int (length bs), bs), set_fd s1 fd (Some (f\<lparr>of_pos := of_pos f + length bs\<rparr>))))
              | _ \<Rightarrow> ((-1, []), s1\<lparr>errno := EISDIR\<rparr>))))"

definition sys_write :: "int \<Rightarrow> byte list \<Rightarrow> os \<Rightarrow> int \<times> os" where
  "sys_write fd bs s = (case draw C_write s of
       (Fail e, s1) \<Rightarrow> fail e s1
     | (o1, s1) \<Rightarrow> (case get_fd s1 fd of
          None \<Rightarrow> fail EBADF s1
        | Some f \<Rightarrow>
            if \<not> of_wr f then fail EBADF s1
            else (case inodes s1 (of_ino f) of
                Some (Reg c) \<Rightarrow>
                  (let out = take (limit o1 (length bs)) bs in
                   (int (length out),
                    set_fd (s1\<lparr>inodes := (inodes s1)(of_ino f \<mapsto> Reg (write_at c (of_pos f) out))\<rparr>) fd
                      (Some (f\<lparr>of_pos := of_pos f + length out\<rparr>))))
              | _ \<Rightarrow> fail EBADF s1)))"

definition sys_lseek :: "int \<Rightarrow> int \<Rightarrow> whence \<Rightarrow> os \<Rightarrow> int \<times> os" where
  "sys_lseek fd off wh s = (case draw C_lseek s of
       (Fail e, s1) \<Rightarrow> fail e s1
     | (_, s1) \<Rightarrow> (case get_fd s1 fd of
          None \<Rightarrow> fail EBADF s1
        | Some f \<Rightarrow>
            (let base = (case wh of SEEK_SET \<Rightarrow> 0 | SEEK_CUR \<Rightarrow> int (of_pos f)
               | SEEK_END \<Rightarrow> (case inodes s1 (of_ino f) of Some (Reg c) \<Rightarrow> int (length c) | _ \<Rightarrow> 0));
                 p = base + off
             in if p < 0 then fail EINVAL s1
                else (p, set_fd s1 fd (Some (f\<lparr>of_pos := nat p\<rparr>))))))"

text \<open>A lock request on an open file description (\<open>F_OFD_SETLKW\<close>): granted, or failed by the schedule.\<close>

definition sys_fcntl_lock :: "int \<Rightarrow> lock_type \<Rightarrow> os \<Rightarrow> int \<times> os" where
  "sys_fcntl_lock fd lt s = (case draw C_fcntl s of
       (Fail e, s1) \<Rightarrow> fail e s1
     | (_, s1) \<Rightarrow> (case get_fd s1 fd of
          None \<Rightarrow> fail EBADF s1
        | Some f \<Rightarrow>
            if (lt = F_RDLCK \<and> \<not> of_rd f) \<or> (lt = F_WRLCK \<and> \<not> of_wr f) then fail EBADF s1
            else (0, set_fd s1 fd (Some (f\<lparr>of_lock := lt\<rparr>)))))"

definition sys_access :: "path \<Rightarrow> os \<Rightarrow> int \<times> os" where
  "sys_access p s = (case draw C_access s of
       (Fail e, s1) \<Rightarrow> fail e s1
     | (_, s1) \<Rightarrow> if names s1 p = None then fail ENOENT s1 else (0, s1))"

definition sys_unlink :: "path \<Rightarrow> os \<Rightarrow> int \<times> os" where
  "sys_unlink p s = (case draw C_unlink s of
       (Fail e, s1) \<Rightarrow> fail e s1
     | (_, s1) \<Rightarrow> (case names s1 p of
          None \<Rightarrow> fail ENOENT s1
        | Some n \<Rightarrow> if inodes s1 n = Some Dir then fail EISDIR s1
                    else (0, s1\<lparr>names := (names s1)(p := None)\<rparr>)))"

definition sys_mkdir :: "path \<Rightarrow> os \<Rightarrow> int \<times> os" where
  "sys_mkdir p s = (case draw C_mkdir s of
       (Fail e, s1) \<Rightarrow> fail e s1
     | (_, s1) \<Rightarrow>
         if names s1 p \<noteq> None then fail EEXIST s1
         else if \<not> is_dir s1 (parent_of p) then fail ENOENT s1
         else (0, new_node p Dir s1))"

text \<open>Whether an allocation succeeds.\<close>

definition malloc_ok :: "os \<Rightarrow> bool \<times> os" where
  "malloc_ok s = (case draw C_malloc s of (Fail e, s1) \<Rightarrow> (False, s1\<lparr>errno := e\<rparr>) | (_, s1) \<Rightarrow> (True, s1))"

definition sys_stat :: "path \<Rightarrow> os \<Rightarrow> int \<times> os" where
  "sys_stat p s = (case draw C_stat s of
       (Fail e, s1) \<Rightarrow> fail e s1
     | (_, s1) \<Rightarrow> if names s1 p = None then fail ENOENT s1 else (0, s1))"


subsection \<open>An environment without faults\<close>

definition ideal :: "os \<Rightarrow> bool" where
  "ideal s \<longleftrightarrow> (\<forall>c. sched s c = [])"

lemma draw_ideal [ideal_simps]: "ideal s \<Longrightarrow> draw c s = (Okay, s)"
  by (simp add: draw_def ideal_def)

lemma limit_Okay [ideal_simps]: "limit Okay n = n"
  by (simp add: limit_def)

lemma ideal_update [simp]:
  "ideal (s\<lparr>errno := e\<rparr>) = ideal s"
  "ideal (s\<lparr>names := ns\<rparr>) = ideal s"
  "ideal (s\<lparr>inodes := is\<rparr>) = ideal s"
  "ideal (s\<lparr>next_ino := n\<rparr>) = ideal s"
  "ideal (s\<lparr>fdtab := t\<rparr>) = ideal s"
  "ideal (set_fd s fd f) = ideal s"
  "ideal (new_node p nd s) = ideal s"
  by (simp_all add: ideal_def set_fd_def new_node_def)

subsection \<open>The descriptor table\<close>

definition fd_range :: "os \<Rightarrow> int \<Rightarrow> bool" where
  "fd_range s fd \<longleftrightarrow> 0 \<le> fd \<and> nat fd < length (fdtab s)"

lemma get_fd_range: "get_fd s fd = Some f \<Longrightarrow> fd_range s fd"
  by (simp add: get_fd_def fd_range_def split: if_splits)

lemma get_set_fd [simp]: "fd_range s fd \<Longrightarrow> get_fd (set_fd s fd f) fd = f"
  by (simp add: get_fd_def set_fd_def fd_range_def)

lemma get_set_fd_other [simp]: "0 \<le> fd \<Longrightarrow> fd \<noteq> fd' \<Longrightarrow> get_fd (set_fd s fd f) fd' = get_fd s fd'"
  by (simp add: get_fd_def set_fd_def nth_list_update nat_eq_iff)

lemma set_set_fd [simp]: "set_fd (set_fd s fd f) fd g = set_fd s fd g"
  by (simp add: set_fd_def)

lemma set_fd_id: "get_fd s fd = f \<Longrightarrow> fd_range s fd \<Longrightarrow> set_fd s fd f = s"
  by (cases s) (auto simp: get_fd_def set_fd_def fd_range_def)

lemma set_fd_frame [simp]:
  "names (set_fd s fd f) = names s"
  "inodes (set_fd s fd f) = inodes s"
  "next_ino (set_fd s fd f) = next_ino s"
  "errno (set_fd s fd f) = errno s"
  "junk (set_fd s fd f) = junk s"
  "sext (set_fd s fd f) = sext s"
  "refs_valid (set_fd s fd f) = refs_valid s"
  "sched (set_fd s fd f) = sched s"
  "length (fdtab (set_fd s fd f)) = length (fdtab s)"
  by (simp_all add: set_fd_def)

lemma get_fd_frame [simp]:
  "get_fd (s\<lparr>errno := e\<rparr>) fd = get_fd s fd"
  "get_fd (s\<lparr>names := ns\<rparr>) fd = get_fd s fd"
  "get_fd (s\<lparr>inodes := is\<rparr>) fd = get_fd s fd"
  "get_fd (s\<lparr>next_ino := n\<rparr>) fd = get_fd s fd"
  "get_fd (s\<lparr>sched := sc\<rparr>) fd = get_fd s fd"
  "get_fd (new_node p nd s) fd = get_fd s fd"
  by (simp_all add: get_fd_def new_node_def)

lemma fd_range_frame [simp]:
  "fd_range (s\<lparr>errno := e\<rparr>) fd = fd_range s fd"
  "fd_range (s\<lparr>names := ns\<rparr>) fd = fd_range s fd"
  "fd_range (s\<lparr>inodes := is\<rparr>) fd = fd_range s fd"
  "fd_range (s\<lparr>next_ino := n\<rparr>) fd = fd_range s fd"
  "fd_range (s\<lparr>sched := sc\<rparr>) fd = fd_range s fd"
  "fd_range (new_node p nd s) fd = fd_range s fd"
  "fd_range (set_fd s fd' f) fd = fd_range s fd"
  by (simp_all add: fd_range_def new_node_def)

lemma set_fd_push [simp]:
  "set_fd (s\<lparr>errno := e\<rparr>) fd f = (set_fd s fd f)\<lparr>errno := e\<rparr>"
  "set_fd (s\<lparr>names := ns\<rparr>) fd f = (set_fd s fd f)\<lparr>names := ns\<rparr>"
  "set_fd (s\<lparr>inodes := is\<rparr>) fd f = (set_fd s fd f)\<lparr>inodes := is\<rparr>"
  "set_fd (s\<lparr>next_ino := n\<rparr>) fd f = (set_fd s fd f)\<lparr>next_ino := n\<rparr>"
  "set_fd (s\<lparr>sched := sc\<rparr>) fd f = (set_fd s fd f)\<lparr>sched := sc\<rparr>"
  by (simp_all add: set_fd_def)

lemma free_slot_Some: "free_slot xs = Some i \<Longrightarrow> i < length xs \<and> xs ! i = None \<and> (\<forall>j<i. xs ! j \<noteq> None)"
  by (induction xs arbitrary: i rule: free_slot.induct) (auto simp: less_Suc_eq_0_disj)

lemma free_slot_None: "free_slot xs = None \<longleftrightarrow> None \<notin> set xs"
  by (induction xs rule: free_slot.induct) auto

definition first_free :: "os \<Rightarrow> int option" where
  "first_free s = map_option int (free_slot (fdtab s))"

lemma first_free_Some:
  assumes "first_free s = Some i"
  shows "fd_range s i" "get_fd s i = None" "0 \<le> i"
  using assms free_slot_Some [of "fdtab s"] by (auto simp: first_free_def fd_range_def get_fd_def)

lemma first_free_frame [simp]:
  "first_free (s\<lparr>errno := e\<rparr>) = first_free s"
  "first_free (s\<lparr>names := ns\<rparr>) = first_free s"
  "first_free (s\<lparr>inodes := is\<rparr>) = first_free s"
  "first_free (s\<lparr>next_ino := n\<rparr>) = first_free s"
  "first_free (new_node p nd s) = first_free s"
  by (simp_all add: first_free_def new_node_def)

subsection \<open>One open file\<close>

text \<open>
  \<open>live s fd f c\<close>: descriptor \<open>fd\<close> is open with description \<open>f\<close> on a regular file of content \<open>c\<close>.
  \<open>upd_file s fd f c\<close> is \<open>s\<close> with that description and content, the form every read, write and
  seek on \<open>fd\<close> leaves the state in.
\<close>

definition live :: "os \<Rightarrow> int \<Rightarrow> ofile \<Rightarrow> byte list \<Rightarrow> bool" where
  "live s fd f c \<longleftrightarrow> get_fd s fd = Some f \<and> inodes s (of_ino f) = Some (Reg c)"

definition upd_file :: "os \<Rightarrow> int \<Rightarrow> ofile \<Rightarrow> byte list \<Rightarrow> os" where
  "upd_file s fd f c = set_fd (s\<lparr>inodes := (inodes s)(of_ino f \<mapsto> Reg c)\<rparr>) fd (Some f)"

lemma live_upd_id: "live s fd f c \<Longrightarrow> upd_file s fd f c = s"
  by (simp add: upd_file_def live_def fun_upd_idem set_fd_id get_fd_range)

lemma live_range: "live s fd f c \<Longrightarrow> fd_range s fd"
  by (auto simp: live_def dest: get_fd_range)

lemma live_upd [simp]: "fd_range s fd \<Longrightarrow> live (upd_file s fd f c) fd f c"
  by (simp add: live_def upd_file_def del: set_fd_push)

lemma upd_upd_file [simp]:
  "of_ino g = of_ino f \<Longrightarrow> upd_file (upd_file s fd f c) fd g d = upd_file s fd g d"
  by (simp add: upd_file_def)

lemma upd_file_frame [simp]:
  "names (upd_file s fd f c) = names s"
  "next_ino (upd_file s fd f c) = next_ino s"
  "errno (upd_file s fd f c) = errno s"
  "junk (upd_file s fd f c) = junk s"
  "sext (upd_file s fd f c) = sext s"
  "refs_valid (upd_file s fd f c) = refs_valid s"
  "ideal (upd_file s fd f c) = ideal s"
  "fd_range (upd_file s fd f c) fd' = fd_range s fd'"
  "inodes (upd_file s fd f c) = (inodes s)(of_ino f \<mapsto> Reg c)"
  by (simp_all add: upd_file_def)

lemma get_fd_upd_file_other [simp]:
  "0 \<le> fd \<Longrightarrow> fd \<noteq> fd' \<Longrightarrow> get_fd (upd_file s fd f c) fd' = get_fd s fd'"
  by (simp add: upd_file_def del: set_fd_push)

lemma live_update_other [simp]:
  "live (s\<lparr>errno := e\<rparr>) fd f c = live s fd f c"
  "live (s\<lparr>names := ns\<rparr>) fd f c = live s fd f c"
  "live (s\<lparr>next_ino := n\<rparr>) fd f c = live s fd f c"
  by (simp_all add: live_def)

lemma upd_file_errno: "upd_file (s\<lparr>errno := e\<rparr>) fd f c = (upd_file s fd f c)\<lparr>errno := e\<rparr>"
  by (simp add: upd_file_def)

lemma sys_read_live [ideal_simps]:
  "ideal s \<Longrightarrow> live s fd f c \<Longrightarrow> of_rd f \<Longrightarrow>
   sys_read fd n s = (let bs = take n (drop (of_pos f) c) in
     ((int (length bs), bs), upd_file s fd (f\<lparr>of_pos := of_pos f + length bs\<rparr>) c))"
  by (simp add: sys_read_def live_def ideal_simps upd_file_def Let_def fun_upd_idem)

lemma sys_write_live [ideal_simps]:
  "ideal s \<Longrightarrow> live s fd f c \<Longrightarrow> of_wr f \<Longrightarrow>
   sys_write fd bs s = (int (length bs),
     upd_file s fd (f\<lparr>of_pos := of_pos f + length bs\<rparr>) (write_at c (of_pos f) bs))"
  by (simp add: sys_write_def live_def ideal_simps upd_file_def Let_def)

definition seek_base :: "whence \<Rightarrow> ofile \<Rightarrow> byte list \<Rightarrow> nat" where
  "seek_base wh f c = (case wh of SEEK_SET \<Rightarrow> 0 | SEEK_CUR \<Rightarrow> of_pos f | SEEK_END \<Rightarrow> length c)"

lemma seek_base_simps [simp]:
  "seek_base SEEK_SET f c = 0" "seek_base SEEK_CUR f c = of_pos f" "seek_base SEEK_END f c = length c"
  by (simp_all add: seek_base_def)

lemma sys_lseek_live [ideal_simps]:
  "ideal s \<Longrightarrow> live s fd f c \<Longrightarrow> 0 \<le> int (seek_base wh f c) + off \<Longrightarrow>
   sys_lseek fd off wh s = (int (seek_base wh f c) + off,
     upd_file s fd (f\<lparr>of_pos := nat (int (seek_base wh f c) + off)\<rparr>) c)"
  by (cases wh) (simp_all add: sys_lseek_def live_def ideal_simps upd_file_def Let_def fun_upd_idem)

lemma sys_fcntl_lock_live [ideal_simps]:
  "ideal s \<Longrightarrow> live s fd f c \<Longrightarrow> (lt = F_RDLCK \<longrightarrow> of_rd f) \<Longrightarrow> (lt = F_WRLCK \<longrightarrow> of_wr f) \<Longrightarrow>
   sys_fcntl_lock fd lt s = (0, upd_file s fd (f\<lparr>of_lock := lt\<rparr>) c)"
  by (auto simp: sys_fcntl_lock_def live_def ideal_simps upd_file_def Let_def fun_upd_idem)

lemma sys_close_live [ideal_simps]:
  "ideal s \<Longrightarrow> live s fd f c \<Longrightarrow> sys_close fd s = (0, set_fd s fd None)"
  by (simp add: sys_close_def live_def ideal_simps)

lemma sys_access_ideal [ideal_simps]:
  "ideal s \<Longrightarrow> sys_access p s = (if names s p = None then (-1, s\<lparr>errno := ENOENT\<rparr>) else (0, s))"
  by (simp add: sys_access_def ideal_simps fail_def)

lemma sys_open_existing [ideal_simps]:
  "ideal s \<Longrightarrow> names s p = Some n \<Longrightarrow> inodes s n = Some (Reg c) \<Longrightarrow> \<not> o_excl fl \<Longrightarrow> first_free s = Some fd \<Longrightarrow>
   sys_open p fl s = (fd, upd_file s fd
     \<lparr>of_ino = n, of_pos = 0, of_rd = o_rd fl, of_wr = o_wr fl, of_lock = F_UNLCK\<rparr> c)"
  by (auto simp: sys_open_def ideal_simps install_def first_free_def upd_file_def fun_upd_idem)

lemma sys_open_create [ideal_simps]:
  "ideal s \<Longrightarrow> names s p = None \<Longrightarrow> o_creat fl \<Longrightarrow> is_dir s (parent_of p) \<Longrightarrow> first_free s = Some fd \<Longrightarrow>
   sys_open p fl s = (fd, upd_file (new_node p (Reg []) s) fd
     \<lparr>of_ino = next_ino s, of_pos = 0, of_rd = o_rd fl, of_wr = o_wr fl, of_lock = F_UNLCK\<rparr> [])"
  by (auto simp: sys_open_def ideal_simps install_def first_free_def upd_file_def new_node_def fun_upd_idem)

subsection \<open>Environments that only delay\<close>

text \<open>
  \<open>retryable c s\<close>: the calls of kind \<open>c\<close> to come may be interrupted or cut short, any number of
  times, but meet no other error. \<open>view\<close> forgets \<open>errno\<close> and the schedule, what remains is what
  a program can find in the files; \<open>only_draws c s s'\<close> says that the schedules of the other calls
  are untouched.
\<close>

definition view :: "os \<Rightarrow> os" where
  "view s = s\<lparr>errno := 0, sched := (\<lambda>_. [])\<rparr>"

lemma view_simps [simp]:
  "live (view s) fd f c = live s fd f c"
  "fd_range (view s) fd = fd_range s fd"
  "view (s\<lparr>errno := e\<rparr>) = view s"
  "view (s\<lparr>sched := sc\<rparr>) = view s"
  "view (view s) = view s"
  "ideal (view s)"
  by (auto simp: view_def live_def ideal_def get_fd_def fd_range_def)

lemma view_upd_file [simp]: "view (upd_file s fd f c) = upd_file (view s) fd f c"
  by (simp add: view_def upd_file_def set_fd_def)

lemma view_live: "view s = view s' \<Longrightarrow> live s fd f c = live s' fd f c"
  by (metis view_simps(1))

fun mild :: "outcome \<Rightarrow> bool" where
  "mild (Fail e) \<longleftrightarrow> e = EINTR"
| "mild _ \<longleftrightarrow> True"

definition retryable :: "call \<Rightarrow> os \<Rightarrow> bool" where
  "retryable c s \<longleftrightarrow> list_all mild (sched s c)"

definition only_draws :: "call \<Rightarrow> os \<Rightarrow> os \<Rightarrow> bool" where
  "only_draws c s s' \<longleftrightarrow> (\<exists>k. sched s' = (sched s)(c := drop k (sched s c)))"

lemma only_draws_refl [simp]: "only_draws c s s"
  by (auto simp: only_draws_def intro: exI [of _ 0])

lemma only_draws_trans: "only_draws c s s1 \<Longrightarrow> only_draws c s1 s2 \<Longrightarrow> only_draws c s s2"
  by (fastforce simp: only_draws_def)

lemma only_draws_retryable: "only_draws c s s' \<Longrightarrow> retryable c s \<Longrightarrow> retryable c s'"
  unfolding only_draws_def retryable_def list_all_iff by (metis fun_upd_same in_set_dropD)

lemma only_draws_sched: "only_draws c s s' \<Longrightarrow> x \<in> set (sched s' c) \<Longrightarrow> x \<in> set (sched s c)"
  unfolding only_draws_def by (metis fun_upd_same in_set_dropD)

lemma draw_cases:
  assumes "draw c s = (o1, s1)"
  shows "view s1 = view s" "only_draws c s s1" "retryable c s \<Longrightarrow> mild o1" "errno s1 = errno s"
    and "get_fd s1 fd = get_fd s fd" "inodes s1 = inodes s"
proof -
  have *: "only_draws c s (s\<lparr>sched := (sched s)(c := rest)\<rparr>)" if "sched s c = x # rest" for x rest
    using that by (auto simp: only_draws_def intro!: exI [of _ 1])
  show "view s1 = view s" "only_draws c s s1" "retryable c s \<Longrightarrow> mild o1" "errno s1 = errno s"
      "get_fd s1 fd = get_fd s fd" "inodes s1 = inodes s"
    using assms * by (auto simp: draw_def view_def retryable_def split: list.splits)
qed

subsection \<open>An initial system\<close>

text \<open>A root directory, \<open>k\<close> free descriptors, no fault to come.\<close>

definition boot :: "nat \<Rightarrow> os" where
  "boot k = \<lparr>names = [''/'' \<mapsto> 0], inodes = [0 \<mapsto> Dir], next_ino = 1, fdtab = replicate k None,
     errno = 0, sched = (\<lambda>_. []), junk = (\<lambda>_ _. 0), sext = True, refs_valid = True\<rparr>"

end
