(* ===== verification/Io.thy ===== *)
theory Io
  imports Posix
begin

text \<open>
  \<open>io.c\<close>: the wrappers that retry interrupted calls and continue short transfers.
\<close>

definition file_exists :: "path \<Rightarrow> os \<Rightarrow> bool \<times> os" where
  "file_exists p s = (let (r, s1) = sys_access p s in (r \<noteq> -1, s1))"

partial_function (option) s_lseek :: "int \<Rightarrow> int \<Rightarrow> whence \<Rightarrow> os \<Rightarrow> (int \<times> os) option" where
  "s_lseek fd off wh s =
     (let (r, s1) = sys_lseek fd off wh s; ret = s32 r in
      if ret = -1 \<and> errno s1 = EINTR then s_lseek fd off wh s1 else Some (ret, s1))"

declare s_lseek.simps [code]

definition s_lseek_decl :: "int \<Rightarrow> int \<Rightarrow> whence \<Rightarrow> os \<Rightarrow> (int \<times> os) option" where
  "s_lseek_decl fd off wh s = s_lseek fd (if sext s then off else u32 off) wh s"

lemma draw_length: "draw c s = (o1, s1) \<Longrightarrow> o1 \<noteq> Okay \<Longrightarrow> length (sched s1 c) < length (sched s c)"
  by (auto simp: draw_def split: list.splits)

lemma sys_read_interrupted:
  "sys_read fd n s = ((-1, bs), s1) \<Longrightarrow> errno s1 = EINTR \<Longrightarrow> length (sched s1 C_read) < length (sched s C_read)"
  by (auto simp: sys_read_def Let_def split: prod.splits outcome.splits option.splits if_splits node.splits
      dest: draw_length)

lemma sys_write_interrupted:
  "sys_write fd bs s = (-1, s1) \<Longrightarrow> errno s1 = EINTR \<Longrightarrow> length (sched s1 C_write) < length (sched s C_write)"
  by (auto simp: sys_write_def fail_def Let_def split: prod.splits outcome.splits option.splits if_splits node.splits
      dest: draw_length)

lemma sys_write_progress:
  "sys_write fd bs s = (r, s1) \<Longrightarrow> r \<noteq> -1 \<Longrightarrow> bs \<noteq> [] \<Longrightarrow> 0 < r"
  by (auto simp: sys_write_def fail_def limit_def Let_def split: prod.splits outcome.splits option.splits if_splits node.splits)

lemma sys_read_count: "sys_read fd n s = ((r, bs), s1) \<Longrightarrow> r \<noteq> -1 \<Longrightarrow> r = int (length bs) \<and> length bs \<le> n"
  by (auto simp: sys_read_def limit_def Let_def split: prod.splits outcome.splits option.splits if_splits node.splits)

function s_read_loop :: "int \<Rightarrow> nat \<Rightarrow> os \<Rightarrow> (nat option \<times> byte list) \<times> os" where
  "s_read_loop fd left s =
     (case sys_read fd left s of ((r, bs), s1) \<Rightarrow>
      if r = -1 then
        (if errno s1 = EINTR then
           (if 0 < left then s_read_loop fd left s1 else ((Some left, []), s1))
         else ((None, []), s1))
      else
        (let left' = left - nat r in
         if 0 < left' \<and> r \<noteq> 0
         then (case s_read_loop fd left' s1 of ((res, bs2), s2) \<Rightarrow> ((res, bs @ bs2), s2))
         else ((Some left', bs), s1)))"
  by pat_completeness auto
termination
  by (relation "measures [\<lambda>(fd, left, s). left, \<lambda>(fd, left, s). length (sched s C_read)]")
    (auto dest: sys_read_interrupted [OF sym] sys_read_count [OF sym])

definition s_read :: "int \<Rightarrow> nat \<Rightarrow> os \<Rightarrow> (int \<times> byte list) \<times> os" where
  "s_read fd count s =
     (let ((res, bs), s1) = s_read_loop fd count s in
      ((case res of None \<Rightarrow> -1 | Some left \<Rightarrow> int count - int left, bs), s1))"

function s_write :: "int \<Rightarrow> byte list \<Rightarrow> os \<Rightarrow> int \<times> os" where
  "s_write fd bs s =
     (case sys_write fd bs s of (r, s1) \<Rightarrow>
      if r = -1 then
        (if errno s1 = EINTR then (if bs \<noteq> [] then s_write fd bs s1 else (-1, s1)) else (-1, s1))
      else
        (let rest = drop (nat r) bs in
         if rest \<noteq> [] then s_write fd rest s1 else (r, s1)))"
  by pat_completeness auto
termination
  by (relation "measures [\<lambda>(fd, bs, s). length bs, \<lambda>(fd, bs, s). length (sched s C_write)]")
    (auto dest: sys_write_interrupted [OF sym] sys_write_progress [OF sym])

declare s_read_loop.simps [simp del] s_write.simps [simp del]

subsection \<open>Without faults\<close>

lemma s_read_loop_eof:
  "ideal s \<Longrightarrow> live s fd f c \<Longrightarrow> of_rd f \<Longrightarrow> length c \<le> of_pos f \<Longrightarrow>
   s_read_loop fd n s = ((Some n, []), s)"
  by (simp add: s_read_loop.simps [of fd n s] ideal_simps live_upd_id)

lemma s_read_live [ideal_simps]:
  "ideal s \<Longrightarrow> live s fd f c \<Longrightarrow> of_rd f \<Longrightarrow>
   s_read fd n s = (let bs = take n (drop (of_pos f) c) in
     ((int (length bs), bs), upd_file s fd (f\<lparr>of_pos := of_pos f + length bs\<rparr>) c))"
  by (frule live_range)
    (simp add: s_read_def s_read_loop.simps [of fd n s] s_read_loop_eof [OF _ live_upd] ideal_simps Let_def min_def)

lemma s_write_live [ideal_simps]:
  "ideal s \<Longrightarrow> live s fd f c \<Longrightarrow> of_wr f \<Longrightarrow>
   s_write fd bs s = (int (length bs),
     upd_file s fd (f\<lparr>of_pos := of_pos f + length bs\<rparr>) (write_at c (of_pos f) bs))"
  by (simp add: s_write.simps [of fd bs s] ideal_simps)

lemma s_lseek_live [ideal_simps]:
  assumes "ideal s" "live s fd f c" "0 \<le> int (seek_base wh f c) + off" "int (seek_base wh f c) + off < 2147483648"
  shows "s_lseek fd off wh s = Some (int (seek_base wh f c) + off,
     upd_file s fd (f\<lparr>of_pos := nat (int (seek_base wh f c) + off)\<rparr>) c)"
  using assms by (subst s_lseek.simps) (simp add: ideal_simps Let_def)

lemma s_lseek_decl_live [ideal_simps]:
  assumes "ideal s" "live s fd f c" "0 \<le> off" "off < 2147483648"
    "int (seek_base wh f c) + off < 2147483648"
  shows "s_lseek_decl fd off wh s = Some (int (seek_base wh f c) + off,
     upd_file s fd (f\<lparr>of_pos := seek_base wh f c + nat off\<rparr>) c)"
  using assms by (simp add: s_lseek_decl_def s_lseek_live nat_add_distrib)

text \<open>The same on a state that a call on \<open>fd\<close> has left.\<close>

lemmas io_upd [ideal_simps] =
  s_read_live [OF _ live_upd, simplified upd_file_frame] s_write_live [OF _ live_upd, simplified upd_file_frame]
  s_lseek_decl_live [OF _ live_upd, simplified upd_file_frame]
  sys_fcntl_lock_live [OF _ live_upd, simplified upd_file_frame]
  sys_close_live [OF _ live_upd, simplified upd_file_frame]

lemma file_exists_ideal [ideal_simps]:
  "ideal s \<Longrightarrow> file_exists p s =
     (if names s p = None then (False, s\<lparr>errno := ENOENT\<rparr>) else (True, s))"
  by (simp add: file_exists_def ideal_simps)

subsection \<open>Interrupted and short calls\<close>

lemma sys_read_step:
  assumes "live s fd f c" "of_rd f" "retryable C_read s" "sys_read fd n s = ((r, bs), s1)"
  shows "(r = -1 \<and> bs = [] \<and> errno s1 = EINTR \<and> view s1 = view s \<or>
      r = int (length bs) \<and> (\<exists>k. (0 < n \<longrightarrow> 0 < k) \<and> k \<le> n \<and> bs = take k (drop (of_pos f) c)) \<and>
      view s1 = upd_file (view s) fd (f\<lparr>of_pos := of_pos f + length bs\<rparr>) c)
    \<and> only_draws C_read s s1"
proof -
  obtain o1 s0 where d: "draw C_read s = (o1, s0)" by fastforce
  note dc = draw_cases [OF d]
  from assms(1) have l: "get_fd s0 fd = Some f" "inodes s0 (of_ino f) = Some (Reg c)"
    by (auto simp: live_def dc)
  have v: "view (set_fd s0 fd (Some g)) = upd_file (view s) fd g c" if "of_ino g = of_ino f" for g
    using l that by (simp add: upd_file_def flip: dc(1)) (simp add: view_def fun_upd_idem)
  have od: "only_draws C_read s (set_fd s0 fd g)" "only_draws C_read s (s0\<lparr>errno := e\<rparr>)" for g e
    using dc(2) by (auto simp: only_draws_def)
  show ?thesis
  proof (cases o1)
    case (Fail e)
    with dc(3) assms(3) have "e = EINTR" by simp
    with Fail assms(4) d dc(1) od show ?thesis by (auto simp: sys_read_def)
  qed (use assms(2,4) d l in \<open>auto simp: sys_read_def limit_def Let_def v od intro: exI [of _ "limit o1 n"]\<close>)
qed

lemma sys_write_step:
  assumes "live s fd f c" "of_wr f" "retryable C_write s" "sys_write fd bs s = (r, s1)"
  shows "(r = -1 \<and> errno s1 = EINTR \<and> view s1 = view s \<or>
      (\<exists>k. (bs \<noteq> [] \<longrightarrow> 0 < k) \<and> k \<le> length bs \<and> r = int k \<and>
        (Short (k - 1) \<notin> set (sched s C_write) \<longrightarrow> k = length bs) \<and>
        view s1 = upd_file (view s) fd (f\<lparr>of_pos := of_pos f + k\<rparr>) (write_at c (of_pos f) (take k bs))))
    \<and> only_draws C_write s s1"
proof -
  obtain o1 s0 where d: "draw C_write s = (o1, s0)" by fastforce
  note dc = draw_cases [OF d]
  have o1: "o1 = Okay \<or> o1 \<in> set (sched s C_write)"
    using d by (auto simp: draw_def split: list.splits)
  from assms(1) have l: "get_fd s0 fd = Some f" "inodes s0 (of_ino f) = Some (Reg c)"
    by (auto simp: live_def dc)
  have v: "view (set_fd (s0\<lparr>inodes := (inodes s0)(of_ino f \<mapsto> Reg c')\<rparr>) fd (Some g)) = upd_file (view s) fd g c'"
    if "of_ino g = of_ino f" for g c'
    using that by (simp add: upd_file_def flip: dc(1)) (simp add: view_def set_fd_def)
  have od: "only_draws C_write s (set_fd (s0\<lparr>inodes := i\<rparr>) fd g)" "only_draws C_write s (s0\<lparr>errno := e\<rparr>)" for i g e
    using dc(2) by (auto simp: only_draws_def)
  show ?thesis
  proof (cases o1)
    case (Fail e)
    with dc(3) assms(3) have "e = EINTR" by simp
    with Fail assms(4) d dc(1) od show ?thesis by (auto simp: sys_write_def fail_def)
  next
    case (Short m)
    let ?k = "min (length bs) (Suc m)"
    have "r = int ?k" "view s1 = upd_file (view s) fd (f\<lparr>of_pos := of_pos f + ?k\<rparr>) (write_at c (of_pos f) (take ?k bs))"
      "only_draws C_write s s1"
      using Short assms(2,4) d l od by (auto simp: sys_write_def limit_def Let_def v simp del: set_fd_push)
    moreover have "Short (?k - 1) \<notin> set (sched s C_write) \<longrightarrow> ?k = length bs"
      using o1 Short by (auto simp: min_def)
    ultimately show ?thesis by (intro conjI disjI2 exI [of _ ?k]) auto
  qed (use assms(2,4) d l v od in \<open>auto simp: sys_write_def limit_def Let_def simp del: set_fd_push\<close>)
qed

lemma s_read_loop_retries:
  assumes "live s fd f c" "of_rd f" "retryable C_read s" "s_read_loop fd left s = ((res, bs), s')"
  shows "bs = take left (drop (of_pos f) c) \<and> res = Some (left - length bs) \<and>
    view s' = upd_file (view s) fd (f\<lparr>of_pos := of_pos f + length bs\<rparr>) c \<and> only_draws C_read s s'"
  using assms
proof (induction fd left s arbitrary: f res bs s' rule: s_read_loop.induct)
  case (1 fd left s)
  obtain r bs1 s1 where sr: "sys_read fd left s = ((r, bs1), s1)" by (metis surj_pair)
  from "1.prems"(1) have rng: "fd_range s fd" by (rule live_range)
  from sys_read_step [OF "1.prems"(1-3) sr] consider
    (intr) "r = -1" "bs1 = []" "errno s1 = EINTR" "view s1 = view s" "only_draws C_read s s1"
  | (got) k where "r = int (length bs1)" "0 < left \<longrightarrow> 0 < k" "k \<le> left" "bs1 = take k (drop (of_pos f) c)"
      "view s1 = upd_file (view s) fd (f\<lparr>of_pos := of_pos f + length bs1\<rparr>) c" "only_draws C_read s s1"
    by blast
  then show ?case
  proof cases
    case intr
    have l1: "live s1 fd f c" using "1.prems"(1) intr(4) view_live by blast
    have rt: "retryable C_read s1" using intr(5) "1.prems"(3) by (rule only_draws_retryable)
    show ?thesis
    proof (cases "0 < left")
      case True
      with intr "1.prems"(4) sr have "s_read_loop fd left s1 = ((res, bs), s')"
        by (simp add: s_read_loop.simps [of fd left s])
      from "1.IH"(1) [OF sr [symmetric] refl intr(1,3) True l1 "1.prems"(2) rt this] intr show ?thesis
        by (auto intro: only_draws_trans)
    next
      case False
      with intr "1.prems" sr show ?thesis
        by (auto simp: s_read_loop.simps [of fd left s] live_upd_id)
    qed
  next
    case (got k)
    have l1: "live s1 fd (f\<lparr>of_pos := of_pos f + length bs1\<rparr>) c"
      using got(5) rng by (metis live_upd view_simps(1,2))
    have rt: "retryable C_read s1" using got(6) "1.prems"(3) by (rule only_draws_retryable)
    show ?thesis
    proof (cases "0 < left - length bs1 \<and> r \<noteq> 0")
      case True
      obtain res2 bs2 s2 where rc: "s_read_loop fd (left - length bs1) s1 = ((res2, bs2), s2)" by (metis surj_pair)
      from True got sr rc "1.prems"(4) have eq: "res = res2" "bs = bs1 @ bs2" "s' = s2"
        by (auto simp: s_read_loop.simps [of fd left s])
      have r: "r \<noteq> -1" "left - length bs1 = left - nat r" using got(1) by auto
      from True r have c: "0 < left - nat r \<and> r \<noteq> 0" by simp
      have rd: "of_rd (f\<lparr>of_pos := of_pos f + length bs1\<rparr>)" using "1.prems"(2) by simp
      note IH = "1.IH"(2) [OF sr [symmetric] refl r(1) refl c l1 rd rt rc [unfolded r(2)],
          folded r(2), simplified]
      have k: "bs1 = take (length bs1) (drop (of_pos f) c)" "length bs1 \<le> left"
        unfolding got(4) using got(3) by (simp_all add: min_def)
      have "bs = take left (drop (of_pos f) c)"
        using IH k unfolding eq by (metis add.commute drop_drop le_add_diff_inverse take_add)
      moreover have "res = Some (left - length bs)"
        using IH by (simp add: eq)
      moreover have "view s' = upd_file (view s) fd (f\<lparr>of_pos := of_pos f + length bs\<rparr>) c"
      proof -
        have "view s2 = upd_file (view s1) fd (f\<lparr>of_pos := of_pos f + (length bs1 + length bs2)\<rparr>) c"
          using IH by (simp add: add.assoc)
        then show ?thesis by (simp add: got(5) eq)
      qed
      moreover have "only_draws C_read s s'"
        using IH got(6) eq(3) by (blast intro: only_draws_trans)
      ultimately show ?thesis by blast
    next
      case False
      have "bs1 = take left (drop (of_pos f) c)"
        using False got by (cases "bs1 = []") (auto simp: min_def split: if_splits)
      moreover have "res = Some (left - length bs1) \<and> bs = bs1 \<and> s' = s1"
        using False got(1) sr "1.prems"(4) by (auto simp: s_read_loop.simps [of fd left s] split: if_splits)
      ultimately show ?thesis using got(5,6) by metis
    qed
  qed
qed


lemma s_write_retries:
  assumes "live s fd f c" "of_wr f" "retryable C_write s" "s_write fd bs s = (r, s')" "bs \<noteq> []"
  shows "view s' = upd_file (view s) fd (f\<lparr>of_pos := of_pos f + length bs\<rparr>) (write_at c (of_pos f) bs) \<and>
    0 < r \<and> r \<le> int (length bs) \<and> only_draws C_write s s' \<and>
    ((\<forall>m. Short m \<notin> set (sched s C_write)) \<longrightarrow> r = int (length bs))"
  using assms
proof (induction fd bs s arbitrary: f c r s' rule: s_write.induct)
  case (1 fd bs s)
  obtain r1 s1 where sw: "sys_write fd bs s = (r1, s1)" by fastforce
  from "1.prems"(1) have rng: "fd_range s fd" by (rule live_range)
  from sys_write_step [OF "1.prems"(1-3) sw] consider
    (intr) "r1 = -1" "errno s1 = EINTR" "view s1 = view s" "only_draws C_write s s1"
  | (put) k where "0 < k" "k \<le> length bs" "r1 = int k" "only_draws C_write s s1"
      "Short (k - 1) \<notin> set (sched s C_write) \<longrightarrow> k = length bs"
      "view s1 = upd_file (view s) fd (f\<lparr>of_pos := of_pos f + k\<rparr>) (write_at c (of_pos f) (take k bs))"
    using "1.prems"(5) by blast
  then show ?case
  proof cases
    case intr
    have l1: "live s1 fd f c" using "1.prems"(1) intr(3) view_live by blast
    have rt: "retryable C_write s1" using intr(4) "1.prems"(3) by (rule only_draws_retryable)
    have "s_write fd bs s1 = (r, s')"
      using intr "1.prems"(4,5) sw by (simp add: s_write.simps [of fd bs s])
    from "1.IH"(1) [OF sw [symmetric] intr(1,2) "1.prems"(5) l1 "1.prems"(2) rt this "1.prems"(5)] intr
    show ?thesis by (auto intro: only_draws_trans dest: only_draws_sched)
  next
    case (put k)
    let ?f = "f\<lparr>of_pos := of_pos f + k\<rparr>" and ?c = "write_at c (of_pos f) (take k bs)"
    have l1: "live s1 fd ?f ?c" using put(6) rng by (metis live_upd view_simps(1,2))
    have rt: "retryable C_write s1" using put(4) "1.prems"(3) by (rule only_draws_retryable)
    show ?thesis
    proof (cases "drop k bs = []")
      case True
      with put sw "1.prems"(4) show ?thesis by (simp add: s_write.simps [of fd bs s])
    next
      case False
      have r1: "r1 \<noteq> -1" "drop k bs = drop (nat r1) bs" using put(3) by auto
      from put sw False "1.prems"(4) have rec: "s_write fd (drop k bs) s1 = (r, s')"
        by (simp add: s_write.simps [of fd bs s])
      have "write_at ?c (of_pos f + k) (drop k bs) = write_at c (of_pos f) bs"
        using write_at_split [of c "of_pos f" "take k bs" "drop k bs"] put(2) by simp
      with "1.IH"(2) [OF sw [symmetric] r1(1) refl False [unfolded r1(2)] l1 _ rt rec [unfolded r1(2)] False [unfolded r1(2)],
          folded r1(2)] "1.prems"(2) put False
      show ?thesis by (auto intro: only_draws_trans dest: only_draws_sched)
    qed
  qed
qed

text \<open>
  The sizes of the chunks in which \<open>n\<close> bytes are written, one after the other: an interruption moves none, a short
  write what it says, and the first one that goes through the rest. The result of \<open>s_write\<close> is the last size.
\<close>

fun moved :: "nat \<Rightarrow> outcome list \<Rightarrow> nat list" where
  "moved n (Fail e # os) = moved n os"
| "moved n (Short m # os) = (if Suc m < n then Suc m # moved (n - Suc m) os else [n])"
| "moved n _ = [n]"

lemma moved_sum: "sum_list (moved n os) = n"
  by (induction n os rule: moved.induct) auto

lemma moved_not_Nil [simp]: "moved n os \<noteq> []"
  by (induction n os rule: moved.induct) auto

lemma moved_bound: "x \<in> set (moved n os) \<Longrightarrow> x \<le> n"
  using member_le_sum_list [of x "moved n os"] by (simp add: moved_sum)

lemma moved_one: "0 < n \<Longrightarrow> last (moved n os) = n \<longleftrightarrow> moved n os = [n]"
proof (induction n os rule: moved.induct)
  case (2 n m os)
  have "last (moved (n - Suc m) os) \<le> n - Suc m" by (rule moved_bound [OF last_in_set [OF moved_not_Nil]])
  then show ?case using 2 by auto
qed auto

lemma moved_whole: "\<forall>m. Short m \<notin> set os \<Longrightarrow> moved n os = [n]"
  by (induction n os rule: moved.induct) auto

lemma sys_write_sched:
  assumes "live s fd f c" "of_wr f" "sys_write fd bs s = (r, s1)"
  shows "case sched s C_write of
     Fail e # os \<Rightarrow> r = -1 \<and> errno s1 = e \<and> sched s1 C_write = os
   | Short m # os \<Rightarrow> r = int (min (length bs) (Suc m)) \<and> sched s1 C_write = os
   | _ \<Rightarrow> r = int (length bs)"
  using assms
  by (auto simp: sys_write_def draw_def limit_def fail_def live_def get_fd_def Let_def split: list.splits outcome.splits if_splits)

lemma s_write_last:
  assumes "live s fd f c" "of_wr f" "retryable C_write s" "s_write fd bs s = (r, s')" "bs \<noteq> []"
  shows "r = int (last (moved (length bs) (sched s C_write)))"
  using assms
proof (induction fd bs s arbitrary: f c r s' rule: s_write.induct)
  case (1 fd bs s)
  obtain r1 s1 where sw: "sys_write fd bs s = (r1, s1)" by fastforce
  note st = sys_write_step [OF "1.prems"(1-3) sw] and sc = sys_write_sched [OF "1.prems"(1,2) sw]
  have rt: "retryable C_write s1" using st "1.prems"(3) only_draws_retryable by blast
  have rng: "fd_range s fd" using live_range [OF "1.prems"(1)] .
  show ?case
  proof (cases "r1 = -1")
    case True
    then have i: "errno s1 = EINTR" "view s1 = view s" using st by auto
    have l1: "live s1 fd f c" using "1.prems"(1) i(2) view_live by blast
    have "s_write fd bs s1 = (r, s')" using True i(1) "1.prems"(4,5) sw by (simp add: s_write.simps [of fd bs s])
    from "1.IH"(1) [OF sw [symmetric] True i(1) "1.prems"(5) l1 "1.prems"(2) rt this "1.prems"(5)] True sc
    show ?thesis by (auto split: list.splits outcome.splits)
  next
    case False
    then obtain k where k: "0 < k" "k \<le> length bs" "r1 = int k"
      "view s1 = upd_file (view s) fd (f\<lparr>of_pos := of_pos f + k\<rparr>) (write_at c (of_pos f) (take k bs))"
      using st "1.prems"(5) by auto
    have l1: "live s1 fd (f\<lparr>of_pos := of_pos f + k\<rparr>) (write_at c (of_pos f) (take k bs))"
      using k(4) rng by (metis live_upd view_simps(1,2))
    show ?thesis
    proof (cases "drop k bs = []")
      case True
      then have "r = int (length bs)" using k sw "1.prems"(4) by (simp add: s_write.simps [of fd bs s])
      then show ?thesis using sc k True by (auto simp: min_def split: list.splits outcome.splits if_splits)
    next
      case F: False
      have r1: "drop k bs = drop (nat r1) bs" using k(3) by simp
      have rec: "s_write fd (drop k bs) s1 = (r, s')" using k sw F "1.prems"(4) by (simp add: s_write.simps [of fd bs s])
      have "r = int (last (moved (length (drop k bs)) (sched s1 C_write)))"
        using "1.IH"(2) [OF sw [symmetric] False refl F [unfolded r1] l1 _ rt rec [unfolded r1] F [unfolded r1], folded r1] "1.prems"(2) by simp
      then show ?thesis using sc k F by (auto simp: min_def split: list.splits outcome.splits if_splits)
    qed
  qed
qed
end
