(* ===== verification/Util.thy ===== *)
theory Util
  imports Posix
begin

text \<open>
  \<open>util.c\<close>: joining paths, printing bytes in hexadecimal, hashing. A C string is the list of its
  characters before the terminating NUL; an array passed with its length is one list. SHA-1 is
  OpenSSL's, a parameter.
\<close>

abbreviation (input) HASH_LENGTH :: nat where "HASH_LENGTH \<equiv> 20"

abbreviation (input) DIR_SEPARATOR :: char where "DIR_SEPARATOR \<equiv> CHR ''/''"

definition combine :: "string \<Rightarrow> string \<Rightarrow> string" where
  "combine path1 path2 =
     (if path1 \<noteq> [] then
        (if last path1 = DIR_SEPARATOR then
           (if path2 \<noteq> [] then path1 @ (if hd path2 = DIR_SEPARATOR then tl path2 else path2)
            else path1)
         else
           (if path2 \<noteq> [] then
              (if hd path2 = DIR_SEPARATOR then path1 @ path2
               else path1 @ [DIR_SEPARATOR] @ path2)
            else path1))
      else if path2 \<noteq> [] then path2
      else [])"

definition calculate_hash :: "(byte list \<Rightarrow> byte list) \<Rightarrow> byte list \<Rightarrow> nat \<Rightarrow> int \<times> byte list" where
  "calculate_hash sha1 data len = (1, sha1 (take len data))"

definition hex_map :: string where
  "hex_map = ''0123456789abcdef''"

definition high_nibble :: "byte \<Rightarrow> byte" where
  "high_nibble b = drop_bit 4 (b AND 0xF0)"

definition low_nibble :: "byte \<Rightarrow> byte" where
  "low_nibble b = b AND 0x0F"

text \<open>The loop at index \<open>i\<close> over the bytes still to print.\<close>

fun hexify_loop :: "byte list \<Rightarrow> nat \<Rightarrow> nat \<Rightarrow> string" where
  "hexify_loop [] i out_size = []"
| "hexify_loop (b # bs) i out_size =
     (if i * 2 + (2 + 1) \<le> out_size
      then hex_map ! unat (high_nibble b) # hex_map ! unat (low_nibble b) # hexify_loop bs (i + 1) out_size
      else [])"

text \<open>\<open>out\<close> is what the output buffer holds before the call: the early return leaves it.\<close>

definition hexify :: "byte list \<Rightarrow> string \<Rightarrow> nat \<Rightarrow> int \<times> string" where
  "hexify inp out out_size =
     (if length inp = 0 \<or> out_size = 0 then (0, out)
      else (let h = hexify_loop inp 0 out_size in (int (length h), h)))"

subsection \<open>What \<open>hexify\<close> prints\<close>

definition hex_byte :: "byte \<Rightarrow> string" where
  "hex_byte b = [hex_map ! unat (high_nibble b), hex_map ! unat (low_nibble b)]"

definition hex_bytes :: "byte list \<Rightarrow> string" where
  "hex_bytes bs = concat (map hex_byte bs)"

lemma hex_bytes_simps [simp]:
  "hex_bytes [] = []"
  "hex_bytes (b # bs) = hex_byte b @ hex_bytes bs"
  by (simp_all add: hex_bytes_def)

lemma length_hex_bytes [simp]: "length (hex_bytes bs) = 2 * length bs"
  by (induction bs) (simp_all add: hex_byte_def)

lemma hexify_loop_eq: "hexify_loop bs i n = hex_bytes (take ((n - 1) div 2 - i) bs)"
proof (induction bs i n rule: hexify_loop.induct)
  case (2 b bs i n)
  show ?case
  proof (cases "i * 2 + (2 + 1) \<le> n")
    case True
    then have "(n - 1) div 2 - i = Suc ((n - 1) div 2 - (i + 1))" by simp
    then have "take ((n - 1) div 2 - i) (b # bs) = b # take ((n - 1) div 2 - (i + 1)) bs" by simp
    with True 2 show ?thesis by (simp add: hex_byte_def)
  next
    case False
    then show ?thesis by simp
  qed
qed simp

definition unhex_digit :: "char \<Rightarrow> byte" where
  "unhex_digit c = of_nat (length (takeWhile (\<lambda>d. d \<noteq> c) hex_map))"

fun unhex :: "string \<Rightarrow> byte list" where
  "unhex (a # b # cs) = (push_bit 4 (unhex_digit a) OR unhex_digit b) # unhex cs"
| "unhex _ = []"

lemma nibble_take_bit: "low_nibble b = take_bit 4 b" "high_nibble b = take_bit 4 (drop_bit 4 b)"
  by (simp_all add: low_nibble_def high_nibble_def take_bit_eq_mask mask_eq_exp_minus_1)

lemma nibble_bound: "unat (high_nibble b) < 16" "unat (low_nibble b) < 16"
  using take_bit_nat_less_exp [of 4] by (simp_all add: nibble_take_bit unsigned_take_bit_eq)

lemma unhex_digit: "k < 16 \<Longrightarrow> unhex_digit (hex_map ! k) = of_nat k"
  by (auto simp: unhex_digit_def hex_map_def numeral_eq_Suc less_Suc_eq)

lemma nibbles: "push_bit 4 (high_nibble b) OR low_nibble b = b"
  by (rule bit_word_eqI) (auto simp: nibble_take_bit bit_simps)

lemma unhex_hex_bytes: "unhex (hex_bytes bs) = bs"
  by (induction bs) (simp_all add: hex_byte_def unhex_digit nibble_bound nibbles)

lemma hex_bytes_inject: "hex_bytes xs = hex_bytes ys \<longleftrightarrow> xs = ys"
  by (metis unhex_hex_bytes)

lemma hex_map_no_separator: "k < 16 \<Longrightarrow> hex_map ! k \<noteq> DIR_SEPARATOR"
  by (auto simp: hex_map_def numeral_eq_Suc less_Suc_eq)

lemma hex_bytes_no_separator: "DIR_SEPARATOR \<notin> set (hex_bytes bs)"
  by (induction bs) (simp_all add: hex_byte_def hex_map_no_separator [symmetric] hex_map_no_separator nibble_bound)

lemma hexify_nonempty: "inp \<noteq> [] \<Longrightarrow> 0 < n \<Longrightarrow>
   hexify inp out n = (2 * int (min (length inp) ((n - 1) div 2)), hex_bytes (take ((n - 1) div 2) inp))"
  by (simp add: hexify_def hexify_loop_eq Let_def)

subsection \<open>What \<open>combine\<close> returns\<close>

lemma combine_name:
  "p1 \<noteq> [] \<Longrightarrow> last p1 \<noteq> DIR_SEPARATOR \<Longrightarrow> p2 \<noteq> [] \<Longrightarrow> hd p2 \<noteq> DIR_SEPARATOR \<Longrightarrow>
   combine p1 p2 = p1 @ DIR_SEPARATOR # p2"
  by (simp add: combine_def)

lemma combine_length: "length (combine p1 p2) \<le> length p1 + 1 + length p2"
  by (auto simp: combine_def)

lemma parent_of_name:
  "DIR_SEPARATOR \<notin> set n \<Longrightarrow> d \<noteq> [] \<Longrightarrow> parent_of (d @ DIR_SEPARATOR # n) = d"
  by (simp add: parent_of_def dropWhile_append)

end
