(* ===== verification/Storage.thy ===== *)
theory Storage
  imports Io Util
begin

text \<open>
  \<open>storage.c\<close>: one file per block, named by the block's hash, holding a reference counter and the
  data. A function that seeks returns in \<open>option\<close>, as \<open>s_lseek\<close> does; an output parameter is a
  component of the result, given its content before the call where the code may leave it alone.
\<close>

record blk_store =
  root_path :: string
  blocks_path :: string
  block_fname_size :: nat

abbreviation (input) BLOCKS_DIRECTORY :: string where "BLOCKS_DIRECTORY \<equiv> ''.BLOCKS''"
abbreviation (input) BLOCK_SIZE :: nat where "BLOCK_SIZE \<equiv> 4096"
abbreviation (input) REF_START :: int where "REF_START \<equiv> 0"
abbreviation (input) REF_SIZE :: nat where "REF_SIZE \<equiv> 8"
abbreviation (input) DATA_START :: int where "DATA_START \<equiv> REF_START + 8"

text \<open>
  \<open>F_ULOCK\<close>, which the code uses to unlock, is \<open>lockf\<close>'s constant 0, and 0 is \<open>F_RDLCK\<close> for
  \<open>fcntl\<close>.
\<close>

abbreviation (input) F_ULOCK :: lock_type where "F_ULOCK \<equiv> F_RDLCK"

definition block_path :: "blk_store \<Rightarrow> byte list \<Rightarrow> path" where
  "block_path st hash = combine (blocks_path st) (snd (hexify hash '''' (HASH_LENGTH * 2)))"

definition block_get_refs :: "blk_store \<Rightarrow> byte list \<Rightarrow> os \<Rightarrow> (w64 \<times> os) option" where
  "block_get_refs st hash s =
     (let (fd, s) = sys_open (block_path st hash) O_RDONLY s in
      if fd = -1 then Some (-1, s)
      else (let (r, s) = sys_fcntl_lock fd F_RDLCK s in
        if r = -1 then None
        else Some (dec64 (uninit ''block_get_refs'' 8 s), s)))"

definition block_dec_ref :: "blk_store \<Rightarrow> byte list \<Rightarrow> os \<Rightarrow> (int \<times> os) option" where
  "block_dec_ref st hash s =
     (let path = block_path st hash; (fd, s) = sys_open path O_RDWR s in
      if fd = -1 then Some (-1, s)
      else (let (r, s) = sys_fcntl_lock fd F_WRLCK s in
        if r = -1 then (let (_, s) = sys_close fd s in Some (-1, s))
        else do {
          (_, s) \<leftarrow> s_lseek_decl fd REF_START SEEK_SET s;
          let ((n, bs), s) = s_read fd REF_SIZE s;
          if n \<noteq> 8 then (let (_, s) = sys_close fd s in Some (-1, s))
          else do {
            let refs = dec64 bs - 1;
            (ok, s) \<leftarrow>
              (if refs = 0 then (let (_, s) = sys_unlink path s in Some (True, s))
               else do {
                 (_, s) \<leftarrow> s_lseek_decl fd REF_START SEEK_SET s;
                 let (w, s) = s_write fd (enc64 refs) s;
                 Some (w = 8, s)
               });
            if \<not> ok then (let (_, s) = sys_close fd s in Some (-1, s))
            else (let (r, s) = sys_fcntl_lock fd F_UNLCK s in
              if r = -1 then Some (-1, s)
              else (let (_, s) = sys_close fd s in Some (s32 (uint refs), s)))
          }
        }))"

definition block_inc_ref :: "blk_store \<Rightarrow> byte list \<Rightarrow> os \<Rightarrow> (int \<times> os) option" where
  "block_inc_ref st hash s =
     (let path = block_path st hash; (fd, s) = sys_open path O_RDWR s in
      if fd = -1 then Some (-1, s)
      else (let (r, s) = sys_fcntl_lock fd F_WRLCK s in
        if r = -1 then (let (_, s) = sys_close fd s in Some (-1, s))
        else do {
          (_, s) \<leftarrow> s_lseek_decl fd REF_START SEEK_SET s;
          let ((n, bs), s) = s_read fd REF_SIZE s;
          if n \<noteq> 8 then (let (_, s) = sys_close fd s in Some (-1, s))
          else do {
            let refs = dec64 bs + 1;
            (_, s) \<leftarrow> s_lseek_decl fd 0 SEEK_SET s;
            let (w, s) = s_write fd (enc64 refs) s;
            if w \<noteq> 8 then (let (_, s) = sys_close fd s in Some (-1, s))
            else (let (r, s) = sys_fcntl_lock fd F_UNLCK s in
              if r = -1 then (let (_, s) = sys_close fd s in Some (-1, s))
              else (let (_, s) = sys_close fd s in Some (s32 (uint refs), s)))
          }
        }))"

definition block_get_size :: "blk_store \<Rightarrow> byte list \<Rightarrow> os \<Rightarrow> (int \<times> os) option" where
  "block_get_size st hash s =
     (let (fd, s) = sys_open (block_path st hash) O_RDONLY s in
      if fd = -1 then Some (-1, s)
      else (let (r, s) = sys_fcntl_lock fd F_RDLCK s in
        if r = -1 then (let (_, s) = sys_close fd s in Some (-1, s))
        else do {
          (_, s) \<leftarrow> s_lseek_decl fd DATA_START SEEK_SET s;
          (ret, s) \<leftarrow> s_lseek_decl fd 0 SEEK_END s;
          let (r, s) = sys_fcntl_lock fd F_ULOCK s;
          let (_, s) = sys_close fd s;
          Some (if r = -1 then -1 else ret, s)
        }))"

definition block_exists :: "blk_store \<Rightarrow> byte list \<Rightarrow> os \<Rightarrow> bool \<times> os" where
  "block_exists st hash s = file_exists (block_path st hash) s"

definition store_block :: "blk_store \<Rightarrow> byte list \<Rightarrow> nat \<Rightarrow> byte list \<Rightarrow> os \<Rightarrow> int \<times> os" where
  "store_block st data sz hash s =
     (let path = block_path st hash; (ex, s) = file_exists path s in
      if \<not> ex then
        (let (fd, s) = sys_open path O_RDWR_CREAT s in
         if fd = -1 then (-1, s)
         else (let (r, s) = sys_fcntl_lock fd F_WRLCK s in
           if r = -1 then (let (_, s) = sys_close fd s in (-1, s))
           else (let (ret, s) = s_write fd (enc64 1) s in
             if u64 (s32 ret) \<noteq> 8 then (let (_, s) = sys_close fd s in (-1, s))
             else (let (ret, s) = s_write fd (take sz data) s in
               if u64 (s32 ret) \<noteq> int sz then (let (_, s) = sys_close fd s in (-1, s))
               else (let (r, s) = sys_fcntl_lock fd F_ULOCK s;
                         (_, s) = sys_close fd s
                     in (if r = -1 then -1 else s32 ret, s))))))
      else (0, s))"

text \<open>Result, data buffer, size and reference counter (as bytes) after the call.\<close>

definition load_block ::
  "blk_store \<Rightarrow> byte list \<Rightarrow> byte list \<Rightarrow> w64 \<Rightarrow> byte list \<Rightarrow> os
     \<Rightarrow> ((int \<times> byte list \<times> w64 \<times> byte list) \<times> os) option" where
  "load_block st hash data sz refs s =
     (let path = block_path st hash; (ex, s) = file_exists path s in
      if ex then
        (let (fd, s) = sys_open path O_RDONLY s in
         if fd = -1 then Some ((-1, data, sz, refs), s)
         else (let (r, s) = sys_fcntl_lock fd F_RDLCK s in
           if r = -1 then (let (_, s) = sys_close fd s in Some ((-1, data, sz, refs), s))
           else do {
             (_, s) \<leftarrow> s_lseek_decl fd 0 SEEK_SET s;
             let ((ret, bs), s) = s_read fd REF_SIZE s;
             let refs = overlay refs bs;
             if ret \<le> 0 then (let (_, s) = sys_close fd s in Some ((-1, data, sz, refs), s))
             else do {
               (_, s) \<leftarrow> s_lseek_decl fd DATA_START SEEK_SET s;
               let ((ret, bs), s) = s_read fd BLOCK_SIZE s;
               let data = overlay data bs;
               if ret \<le> 0 then (let (_, s) = sys_close fd s in Some ((-1, data, sz, refs), s))
               else do {
                 let sz = word_of_int ret;
                 let (r, s) = sys_fcntl_lock fd F_UNLCK s;
                 let (_, s) = sys_close fd s;
                 Some ((if r = -1 then -1 else 0, data, sz, refs), s)
               }
             }
           }))
      else Some ((- EEXIST, data, sz, refs), s))"

text \<open>
  A path that could not be allocated is a null pointer, which \<open>combine\<close> treats as the empty
  string; one allocated and never written is an uninitialised array.
\<close>

definition init_storage :: "string \<Rightarrow> os \<Rightarrow> (int \<times> blk_store) \<times> os" where
  "init_storage root s =
     (let root_len = length root;
          fname_size = root_len + 1 + (length BLOCKS_DIRECTORY + 1) + 1 + HASH_LENGTH * 2 + 2;
          (ok1, s) = malloc_ok s; (ok2, s) = malloc_ok s
      in if \<not> ok1 \<or> \<not> ok2 then
           ((-1, \<lparr>root_path = (if ok2 then uninit_str ''root_path'' (root_len + 1) s else ''''),
                  blocks_path = (if ok1 then uninit_str ''blocks_path'' (root_len + 9) s else ''''),
                  block_fname_size = fname_size\<rparr>), s)
         else
           (let blocks = combine root BLOCKS_DIRECTORY;
                (r, s) = sys_stat blocks s;
                s = (if r = -1 then snd (sys_mkdir blocks s) else s)
            in ((1, \<lparr>root_path = root, blocks_path = blocks, block_fname_size = fname_size\<rparr>), s)))"

subsection \<open>The block files in an environment without faults\<close>

definition reg_content :: "os \<Rightarrow> path \<Rightarrow> byte list option" where
  "reg_content s p = (case names s p of Some n \<Rightarrow>
     (case inodes s n of Some (Reg c) \<Rightarrow> Some c | _ \<Rightarrow> None) | None \<Rightarrow> None)"

lemma reg_content_Some:
  "reg_content s p = Some c \<longleftrightarrow> (\<exists>n. names s p = Some n \<and> inodes s n = Some (Reg c))"
  by (auto simp: reg_content_def split: option.splits node.splits)

lemma store_block_dup [ideal_simps]:
  "ideal s \<Longrightarrow> names s (block_path st h) \<noteq> None \<Longrightarrow> store_block st data sz h s = (0, s)"
  by (auto simp: store_block_def ideal_simps Let_def)

definition add_block_file :: "path \<Rightarrow> byte list \<Rightarrow> os \<Rightarrow> os" where
  "add_block_file p c s = new_node p (Reg c) (s\<lparr>errno := ENOENT\<rparr>)"

lemma upd_file_close:
  "first_free s = Some fd \<Longrightarrow> set_fd (upd_file s fd f c) fd None = s\<lparr>inodes := (inodes s)(of_ino f \<mapsto> Reg c)\<rparr>"
  by (simp add: upd_file_def set_fd_id first_free_Some)

lemma new_node_overwrite:
  "next_ino s = k \<Longrightarrow>
   (new_node p nd s)\<lparr>inodes := (inodes (new_node p nd s))(k \<mapsto> nd')\<rparr> = new_node p nd' s"
  by (simp add: new_node_def)

lemma upd_file_names [os_simps]:
  "(upd_file s fd f c)\<lparr>names := ns\<rparr> = upd_file (s\<lparr>names := ns\<rparr>) fd f c"
  by (simp add: upd_file_def)

lemma sys_unlink_ideal [ideal_simps]:
  "ideal s \<Longrightarrow> names s p = Some n \<Longrightarrow> inodes s n \<noteq> Some Dir \<Longrightarrow>
   sys_unlink p s = (0, s\<lparr>names := (names s)(p := None)\<rparr>)"
  by (simp add: sys_unlink_def ideal_simps)

lemma store_block_new [ideal_simps]:
  assumes "ideal s" "names s (block_path st h) = None" "is_dir s (parent_of (block_path st h))"
    "first_free s = Some fd" "sz \<le> length data" "sz < 2147483648"
  shows "store_block st data sz h s =
    (int sz, add_block_file (block_path st h) (enc64 1 @ take sz data) s)"
proof -
  note ff = first_free_Some [OF assms(4)]
  have d: "is_dir (s\<lparr>errno := e\<rparr>) p = is_dir s p" for e p by (simp add: is_dir_def split: option.split)
  show ?thesis
    using assms ff by (simp add: store_block_def ideal_simps d Let_def upd_file_close min_absorb1 add_block_file_def
        new_node_overwrite)
qed

lemma load_block_missing [ideal_simps]:
  "ideal s \<Longrightarrow> names s (block_path st h) = None \<Longrightarrow>
   load_block st h data sz refs s = Some ((-17, data, sz, refs), s\<lparr>errno := ENOENT\<rparr>)"
  by (simp add: load_block_def ideal_simps)

lemma load_block_live [ideal_simps]:
  assumes "ideal s" "reg_content s (block_path st h) = Some (enc64 refs @ d)" "d \<noteq> []"
    "first_free s = Some fd" "length r = 8"
  shows "load_block st h data sz r s =
    Some ((0, overlay data (take 4096 d), of_nat (min (length d) 4096), enc64 refs), s)"
proof -
  obtain n where n: "names s (block_path st h) = Some n" "inodes s n = Some (Reg (enc64 refs @ d))"
    using assms(2) by (auto simp: reg_content_Some)
  note ff = first_free_Some [OF assms(4)]
  show ?thesis
    using assms n ff by (simp add: load_block_def ideal_simps Let_def upd_file_close fun_upd_idem)
qed

lemma block_get_size_live [ideal_simps]:
  assumes "ideal s" "reg_content s (block_path st h) = Some c" "first_free s = Some fd" "length c < 2147483648"
  shows "block_get_size st h s = Some (int (length c), s)"
proof -
  obtain n where n: "names s (block_path st h) = Some n" "inodes s n = Some (Reg c)"
    using assms(2) by (auto simp: reg_content_Some)
  note ff = first_free_Some [OF assms(3)]
  show ?thesis
    using assms n ff by (simp add: block_get_size_def ideal_simps Let_def upd_file_close fun_upd_idem)
qed

definition set_content :: "os \<Rightarrow> path \<Rightarrow> byte list \<Rightarrow> os" where
  "set_content s p c = (case names s p of Some n \<Rightarrow> s\<lparr>inodes := (inodes s)(n \<mapsto> Reg c)\<rparr> | None \<Rightarrow> s)"

lemma block_inc_ref_live [ideal_simps]:
  assumes "ideal s" "reg_content s (block_path st h) = Some (enc64 refs @ d)" "first_free s = Some fd"
  shows "block_inc_ref st h s =
    Some (s32 (uint (refs + 1)), set_content s (block_path st h) (enc64 (refs + 1) @ d))"
proof -
  obtain n where n: "names s (block_path st h) = Some n" "inodes s n = Some (Reg (enc64 refs @ d))"
    using assms(2) by (auto simp: reg_content_Some)
  note ff = first_free_Some [OF assms(3)]
  show ?thesis
    using assms n ff by (simp add: block_inc_ref_def ideal_simps Let_def upd_file_close write_at_inside set_content_def)
qed

lemma block_dec_ref_live [ideal_simps]:
  assumes "ideal s" "reg_content s (block_path st h) = Some (enc64 refs @ d)" "first_free s = Some fd"
  shows "block_dec_ref st h s =
    Some (s32 (uint (refs - 1)),
      if refs = 1 then s\<lparr>names := (names s)(block_path st h := None)\<rparr>
      else set_content s (block_path st h) (enc64 (refs - 1) @ d))"
proof -
  obtain n where n: "names s (block_path st h) = Some n" "inodes s n = Some (Reg (enc64 refs @ d))"
    using assms(2) by (auto simp: reg_content_Some)
  note ff = first_free_Some [OF assms(3)]
  show ?thesis
    using assms n ff
    by (simp add: block_dec_ref_def ideal_simps os_simps Let_def upd_file_close write_at_inside set_content_def fun_upd_idem)
qed

subsection \<open>A store in use\<close>

definition storage_dir :: "blk_store \<Rightarrow> bool" where
  "storage_dir st \<longleftrightarrow> blocks_path st \<noteq> [] \<and> last (blocks_path st) \<noteq> DIR_SEPARATOR"

definition os_wf :: "os \<Rightarrow> bool" where
  "os_wf s \<longleftrightarrow> (\<forall>p n. names s p = Some n \<longrightarrow> n < next_ino s) \<and>
     (\<forall>fd f. get_fd s fd = Some f \<longrightarrow> of_ino f < next_ino s)"

definition ready :: "blk_store \<Rightarrow> os \<Rightarrow> bool" where
  "ready st s \<longleftrightarrow> ideal s \<and> os_wf s \<and> storage_dir st \<and> is_dir s (blocks_path st) \<and> first_free s \<noteq> None"

lemma hex_bytes_nonempty: "hex_bytes xs = [] \<longleftrightarrow> xs = []"
  by (cases xs) (simp_all add: hex_byte_def)

lemma hexify_name: "length h = HASH_LENGTH \<Longrightarrow> hexify h out 40 = (38, hex_bytes (take 19 h))"
  by (subst hexify_nonempty) auto

lemma block_path_eq:
  assumes "storage_dir st" "length h = HASH_LENGTH"
  shows "block_path st h = blocks_path st @ DIR_SEPARATOR # hex_bytes (take 19 h)"
proof -
  have ne: "hex_bytes (take 19 h) \<noteq> []" using assms(2) by (auto simp: hex_bytes_nonempty)
  then have "hd (hex_bytes (take 19 h)) \<noteq> DIR_SEPARATOR"
    using hex_bytes_no_separator [of "take 19 h"] by (metis hd_in_set)
  then show ?thesis
    using assms ne by (simp add: block_path_def hexify_name combine_name storage_dir_def)
qed

lemma block_path_inject:
  assumes "storage_dir st" "length h = HASH_LENGTH" "length h' = HASH_LENGTH"
  shows "block_path st h = block_path st h' \<longleftrightarrow> take 19 h = take 19 h'"
  using assms by (simp add: block_path_eq hex_bytes_inject)

lemma parent_block_path:
  assumes "storage_dir st" "length h = HASH_LENGTH"
  shows "parent_of (block_path st h) = blocks_path st"
  using assms by (simp add: block_path_eq parent_of_name hex_bytes_no_separator storage_dir_def)

lemma block_path_not_dir:
  "storage_dir st \<Longrightarrow> length h = HASH_LENGTH \<Longrightarrow> block_path st h \<noteq> blocks_path st"
  by (simp add: block_path_eq)

definition after_store :: "path \<Rightarrow> byte list \<Rightarrow> os \<Rightarrow> os" where
  "after_store p d s = (if names s p = None then add_block_file p (enc64 1 @ d) s else s)"

lemma store_block_ready [ideal_simps]:
  assumes "ready st s" "length h = HASH_LENGTH" "sz \<le> length data" "sz < 2147483648"
  shows "store_block st data sz h s =
    (if names s (block_path st h) = None then int sz else 0, after_store (block_path st h) (take sz data) s)"
  using assms by (auto simp: ready_def after_store_def store_block_dup store_block_new parent_block_path)

lemma add_block_file_simps [simp]:
  "names (add_block_file p c s) = (names s)(p \<mapsto> next_ino s)"
  "inodes (add_block_file p c s) = (inodes s)(next_ino s \<mapsto> Reg c)"
  "next_ino (add_block_file p c s) = Suc (next_ino s)"
  "get_fd (add_block_file p c s) fd = get_fd s fd"
  "fd_range (add_block_file p c s) fd = fd_range s fd"
  "first_free (add_block_file p c s) = first_free s"
  "ideal (add_block_file p c s) = ideal s"
  "junk (add_block_file p c s) = junk s"
  "sext (add_block_file p c s) = sext s"
  "refs_valid (add_block_file p c s) = refs_valid s"
  by (simp_all add: add_block_file_def new_node_def)

lemma os_wf_add_block_file: "os_wf s \<Longrightarrow> os_wf (add_block_file p c s)"
  by (auto simp: os_wf_def less_Suc_eq)

lemma is_dir_add_block_file: "os_wf s \<Longrightarrow> is_dir s q \<Longrightarrow> q \<noteq> p \<Longrightarrow> is_dir (add_block_file p c s) q"
  by (auto simp: os_wf_def is_dir_def split: option.splits)

lemma live_add_block_file: "os_wf s \<Longrightarrow> live s fd f c \<Longrightarrow> live (add_block_file p d s) fd f c"
  by (fastforce simp: os_wf_def live_def)

lemma ready_after_store:
  "ready st s \<Longrightarrow> length h = HASH_LENGTH \<Longrightarrow> ready st (after_store (block_path st h) d s)"
  by (auto simp: ready_def after_store_def os_wf_add_block_file is_dir_add_block_file block_path_not_dir [symmetric])

lemma live_after_store: "os_wf s \<Longrightarrow> live s fd f c \<Longrightarrow> live (after_store p d s) fd f c"
  by (simp add: after_store_def live_add_block_file)

lemma free_slot_update: "i < length xs \<Longrightarrow> xs ! i = Some x \<Longrightarrow> free_slot (xs[i := Some y]) = free_slot xs"
  by (induction xs arbitrary: i rule: free_slot.induct) (auto simp: nth_Cons split: nat.splits)

lemma first_free_upd_file: "live s fd f c \<Longrightarrow> first_free (upd_file s fd g c') = first_free s"
  by (simp add: live_def get_fd_def first_free_def upd_file_def set_fd_def free_slot_update split: if_splits)

lemma get_fd_upd_file: "live s fd f c \<Longrightarrow> get_fd (upd_file s fd g c') fd' = (if fd' = fd then Some g else get_fd s fd')"
  using live_range [of s fd f c] live_upd [of s fd g c']
  by (auto simp: fd_range_def live_def)

lemma ready_upd_file:
  assumes "ready st s" "live s fd f c" "of_ino g = of_ino f"
  shows "ready st (upd_file s fd g c')"
proof -
  have "of_ino f < next_ino s" using assms(1,2) by (auto simp: ready_def os_wf_def live_def)
  moreover have "is_dir (upd_file s fd g c') q" if "is_dir s q" for q
    using that assms(2,3) by (auto simp: is_dir_def live_def split: option.splits)
  ultimately show ?thesis
    using assms(1,3) first_free_upd_file [OF assms(2)]
    by (auto simp: ready_def os_wf_def get_fd_upd_file [OF assms(2)])
qed

lemma reg_content_upd_same:
  "live s fd f c \<Longrightarrow> of_ino g = of_ino f \<Longrightarrow> reg_content (upd_file s fd g c) p = reg_content s p"
  by (auto simp: reg_content_def live_def split: option.splits)

lemma ready_free: "ready st s \<Longrightarrow> \<exists>fd. first_free s = Some fd"
  by (auto simp: ready_def)

end
