(* ===== verification/Log.thy ===== *)
theory Log
  imports Posix
begin

text \<open>
  \<open>log.c\<close>: of the log only what comes back to the callers. Writing to the log may fail and then
  changes \<open>errno\<close>; \<open>log_error\<close> and \<open>log_syscall\<close> turn \<open>errno\<close> into the negative result that FUSE
  expects.
\<close>

text \<open>
  Without a log file the program exits. \<open>fopen\<close> answers with a stream, 0 for a null pointer; that the stream
  is made line-buffered changes nothing here.
\<close>

definition log_open :: "(string \<Rightarrow> os \<Rightarrow> int \<times> os) \<Rightarrow> os \<Rightarrow> int option \<times> os" where
  "log_open fopen s =
     (let (logfile, s) = fopen ''bbfs.log'' s in if logfile = 0 then (None, s) else (Some logfile, s))"

definition log_msg :: "os \<Rightarrow> os" where
  "log_msg s = (case draw C_log s of (Fail e, s1) \<Rightarrow> s1\<lparr>errno := e\<rparr> | (_, s1) \<Rightarrow> s1)"

definition log_error :: "os \<Rightarrow> int \<times> os" where
  "log_error s = (let ret = - errno s; s = log_msg s in (ret, s))"

definition log_retstat :: "os \<Rightarrow> os" where
  "log_retstat s = (let errsave = errno s; s = log_msg s in s\<lparr>errno := errsave\<rparr>)"

definition log_syscall :: "int \<Rightarrow> int \<Rightarrow> os \<Rightarrow> int \<times> os" where
  "log_syscall retstat min_ret s =
     (let s = log_retstat s in
      if retstat < min_ret then (let (_, s) = log_error s in (- errno s, s))
      else (retstat, s))"

lemma log_msg_ideal [ideal_simps]: "ideal s \<Longrightarrow> log_msg s = s"
  by (simp add: log_msg_def ideal_simps)

lemma log_retstat_errno: "errno (log_retstat s) = errno s"
  by (simp add: log_retstat_def Let_def)

lemma log_error_ideal [ideal_simps]: "ideal s \<Longrightarrow> log_error s = (- errno s, s)"
  by (simp add: log_error_def ideal_simps)

lemma log_syscall_ideal [ideal_simps]:
  "ideal s \<Longrightarrow> log_syscall r m s = (if r < m then - errno s else r, s)"
  by (simp add: log_syscall_def log_retstat_def ideal_simps)

end
