(* ===== verification/Cfs.thy ===== *)
theory Cfs
  imports Storage Log
begin

text \<open>
  \<open>cfs.c\<close> and \<open>cfs.h\<close>: CFS files (a header and a table of index-hash pairs), the registry of the
  open ones, and reading and registering blocks. A \<open>cfs_file_t*\<close> is an index into \<open>files\<close>.
\<close>

abbreviation (input) FDS_STORE_INITIAL :: nat where "FDS_STORE_INITIAL \<equiv> 20"
abbreviation (input) PATH_MAX :: nat where "PATH_MAX \<equiv> 4096"

text \<open>\<open>"CFS0.1"\<close> with its terminating NUL: \<open>sizeof(MAGIC)\<close> is 7.\<close>

definition MAGIC :: "byte list" where
  "MAGIC = [0x43, 0x46, 0x53, 0x30, 0x2E, 0x31, 0]"

abbreviation (input) SIZE_START :: int where "SIZE_START \<equiv> 7"
abbreviation (input) BLOCK_START :: int where "BLOCK_START \<equiv> 8 * 2 + 7"

record cfs_file =
  f_path :: string
  f_offset :: w64
  f_size :: w64
  f_total_blocks :: w64
  f_fd :: int

record cfs_block =
  b_index :: w64
  b_size :: w64
  b_data :: "byte list"

text \<open>
  The mutex of the state. Unlocking it when it is not locked is undefined in POSIX: it is then
  \<open>Broken\<close>, and no later lock has a defined result; neither has locking it twice.
\<close>

datatype mutex = Unlocked | Locked | Broken

record cfs_state =
  max_fds :: int
  storage :: blk_store
  files :: "cfs_file list"
  fds :: "int list"
  n_fds :: w64
  lock :: mutex

definition mutex_lock :: "cfs_state \<Rightarrow> cfs_state option" where
  "mutex_lock st = (if lock st = Unlocked then Some (st\<lparr>lock := Locked\<rparr>) else None)"

definition mutex_unlock :: "cfs_state \<Rightarrow> cfs_state" where
  "mutex_unlock st = st\<lparr>lock := (if lock st = Locked then Unlocked else Broken)\<rparr>"

text \<open>\<open>fds_cap\<close> is the length of the two arrays.\<close>

definition fds_cap :: "cfs_state \<Rightarrow> nat" where
  "fds_cap st = length (fds st)"

definition uninit_file :: "os \<Rightarrow> cfs_file" where
  "uninit_file s = \<lparr>f_path = uninit_str ''path'' PATH_MAX s, f_offset = dec64 (uninit ''offset'' 8 s),
     f_size = dec64 (uninit ''size'' 8 s), f_total_blocks = dec64 (uninit ''total_blocks'' 8 s),
     f_fd = s32 (uint (dec64 (uninit ''fd'' 4 s)))\<rparr>"

text \<open>\<open>open_max\<close> is what \<open>sysconf(_SC_OPEN_MAX)\<close> answers; \<open>st\<close> is the memory of the state before.\<close>

definition cfs_init :: "int \<Rightarrow> string \<Rightarrow> cfs_state \<Rightarrow> os \<Rightarrow> ((int \<times> cfs_state) \<times> os) option" where
  "cfs_init open_max rootdir st s =
     (let st = st\<lparr>lock := Unlocked, max_fds := open_max\<rparr> in
      if max_fds st < 0 then Some ((-1, st), s)
      else (let (ok1, s) = malloc_ok s in
        if \<not> ok1 then None
        else (let ((_, bs), s) = init_storage rootdir s;
                  (ok2, s) = malloc_ok s; (ok3, s) = malloc_ok s
              in if \<not> ok3 then None
                 else Some ((0, st\<lparr>storage := bs,
                   files := (if ok2 then replicate FDS_STORE_INITIAL (uninit_file s) else []),
                   fds := replicate FDS_STORE_INITIAL (-1), n_fds := 0\<rparr>), s))))"

definition c_string :: "byte list \<Rightarrow> byte list" where
  "c_string bs = takeWhile (\<lambda>b. b \<noteq> 0) bs"

text \<open>The result and \<open>stat_buf\<close>; the descriptor opened here stays open.\<close>

definition cfs_file_stat :: "path \<Rightarrow> cfs_file \<Rightarrow> os \<Rightarrow> (int \<times> cfs_file) \<times> os" where
  "cfs_file_stat path stat_buf s =
     (let (fd, s) = sys_open path O_RDONLY s in
      if fd < 0 then ((-1, stat_buf), s)
      else
        (let magic_buff = uninit ''magic_buff'' 7 s;
             ((total, bs), s) = s_read fd 7 s;
             magic_buff = overlay magic_buff bs @ [0]
         in if u64 total < 7 \<or> c_string magic_buff \<noteq> c_string MAGIC then ((-1, stat_buf), s)
            else
              (let ((r1, bs1), s) = s_read fd 8 s;
                   stat_buf = stat_buf\<lparr>f_size := dec64 (overlay (enc64 (f_size stat_buf)) bs1)\<rparr>;
                   ((r2, bs2), s) = s_read fd 8 s;
                   stat_buf = stat_buf\<lparr>f_total_blocks := dec64 (overlay (enc64 (f_total_blocks stat_buf)) bs2)\<rparr>;
                   ret = s32 (s32 r1 OR r2)
               in if 0 < ret then ((ret, stat_buf), s) else ((-1, stat_buf), s))))"

definition cfs_print_state :: "cfs_state \<Rightarrow> os \<Rightarrow> int \<times> os" where
  "cfs_print_state st s = (-1, (log_msg ^^ (1 + fds_cap st)) s)"

fun find_fd :: "int \<Rightarrow> int list \<Rightarrow> nat option" where
  "find_fd fd [] = None"
| "find_fd fd (x # xs) = (if x = fd then Some 0 else map_option Suc (find_fd fd xs))"

text \<open>
  The map is made bigger from the old upper bound \<open>fds_cap - 1\<close> on, included.
\<close>

definition grow :: "cfs_state \<Rightarrow> os \<Rightarrow> cfs_state" where
  "grow st s = (let cap = fds_cap st in
     st\<lparr>files := files st @ replicate cap (uninit_file s),
        fds := take (cap - 1) (fds st) @ replicate (cap * 2 - (cap - 1)) (-1)\<rparr>)"

definition cfs_register_file :: "cfs_state \<Rightarrow> path \<Rightarrow> int \<Rightarrow> os \<Rightarrow> ((int \<times> cfs_state) \<times> os) option" where
  "cfs_register_file st path fd s = do {
     st \<leftarrow> mutex_lock st;
     (st, s) \<leftarrow>
       (if fds_cap st div 2 \<le> unat (n_fds st)
        then (let (ok1, s) = malloc_ok s; (ok2, s) = malloc_ok s
              in if ok1 \<and> ok2 then Some (grow st s, s) else None)
        else Some (st, s));
     case find_fd (-1) (fds st) of
       None \<Rightarrow> Some ((-1, mutex_unlock st), s)
     | Some i \<Rightarrow>
         if PATH_MAX \<le> length path \<or> length (files st) \<le> i then None
         else do {
           let st = st\<lparr>fds := (fds st)[i := fd],
             files := (files st)[i := (files st ! i)\<lparr>f_offset := 0, f_fd := fd, f_path := path\<rparr>],
             n_fds := n_fds st + 1\<rparr>;
           (r0, s) \<leftarrow> s_lseek_decl fd 7 SEEK_SET s;
           let ((r1, bs1), s) = s_read fd 8 s;
           let f = files st ! i;
           let f = f\<lparr>f_size := dec64 (overlay (enc64 (f_size f)) bs1)\<rparr>;
           let ((r2, bs2), s) = s_read fd 8 s;
           let f = f\<lparr>f_total_blocks := dec64 (overlay (enc64 (f_total_blocks f)) bs2)\<rparr>;
           let st = st\<lparr>files := (files st)[i := f]\<rparr>;
           let ret = s32 (s32 (s32 r0 OR r1) OR r2);
           Some ((if ret < 0 then ret else fd, mutex_unlock st), s)
         }
   }"

definition cfs_release_file :: "cfs_state \<Rightarrow> int \<Rightarrow> (int \<times> cfs_state) option" where
  "cfs_release_file st fd = do {
     st \<leftarrow> mutex_lock st;
     case find_fd fd (fds st) of
       Some i \<Rightarrow> Some (0, mutex_unlock (st\<lparr>fds := (fds st)[i := -1], n_fds := n_fds st - 1\<rparr>))
     | None \<Rightarrow> Some (-1, mutex_unlock st)
   }"

definition cfs_create_file :: "path \<Rightarrow> os \<Rightarrow> int \<times> os" where
  "cfs_create_file path s =
     (let (r, s) = sys_open path O_CREAT_EXCL_WRONLY s; (fd, s) = log_syscall r 0 s in
      if 0 \<le> fd then
        (let (_, s) = s_write fd MAGIC s;
             (_, s) = s_write fd (enc64 0) s;
             (_, s) = s_write fd (enc64 0) s
         in (fd, log_msg s))
      else if fd = -1 \<and> errno s = EEXIST then (fd, log_msg s)
      else (let (_, s) = log_error s in (fd, s)))"

definition cfs_get_file :: "cfs_state \<Rightarrow> int \<Rightarrow> nat option" where
  "cfs_get_file st fd = find_fd fd (fds st)"

text \<open>The loop over the index-hash pairs, from the current offset; \<open>index_buff\<close> keeps its old bytes
  where a read returns fewer.\<close>

partial_function (option) find_pair :: "int \<Rightarrow> w64 \<Rightarrow> byte list \<Rightarrow> os \<Rightarrow> (int \<times> os) option" where
  "find_pair fd index index_buff s =
     (let ((bytes_read, bs), s1) = s_read fd 8 s; index_buff1 = overlay index_buff bs in
      if bytes_read = 0 then Some (0, s1)
      else if dec64 index_buff1 = index then Some (1, s1)
      else Option.bind (s_lseek_decl fd 20 SEEK_CUR s1)
             (\<lambda>(r, s2). find_pair fd index index_buff1 s2))"

declare find_pair.simps [code]

definition cfs_file_find_index :: "cfs_file \<Rightarrow> w64 \<Rightarrow> os \<Rightarrow> (int \<times> os) option" where
  "cfs_file_find_index file index s =
     (if f_total_blocks file = 0 then Some (0, s)
      else do {
        (_, s) \<leftarrow> s_lseek_decl (f_fd file) BLOCK_START SEEK_SET s;
        find_pair (f_fd file) index (uninit ''index_buff'' 8 s) s
      })"

definition cfs_file_register_block ::
  "(byte list \<Rightarrow> byte list) \<Rightarrow> cfs_state \<Rightarrow> nat \<Rightarrow> cfs_block \<Rightarrow> os \<Rightarrow> ((int \<times> cfs_state) \<times> os) option" where
  "cfs_file_register_block sha1 st i block s =
     (let (_, hash) = calculate_hash sha1 (b_data block) (unat (b_size block)) in do {
      st \<leftarrow> mutex_lock st;
      let (ret, s) = store_block (storage st) (b_data block) (unat (b_size block)) hash s;
      if ret < 0 then Some ((ret, mutex_unlock (mutex_unlock st)), s)
      else if length (files st) \<le> i then None
      else do {
        let file = files st ! i;
        (ret, s) \<leftarrow> cfs_file_find_index file (b_index block) s;
        (old_size, file, s) \<leftarrow>
          (if ret \<noteq> 0 then do {
             let ((_, bs), s) = s_read (f_fd file) HASH_LENGTH s;
             let hash = overlay hash bs;
             (old_size, s) \<leftarrow> block_get_size (storage st) hash s;
             (_, s) \<leftarrow> s_lseek_decl (f_fd file) (- 20) SEEK_CUR s;
             let (_, s) = s_write (f_fd file) hash s;
             Some (old_size, file, s)
           }
           else do {
             (_, s) \<leftarrow> s_lseek_decl (f_fd file) 0 SEEK_END s;
             let (_, s) = s_write (f_fd file) (enc64 (b_index block)) s;
             let (_, s) = s_write (f_fd file) hash s;
             Some (0, file\<lparr>f_total_blocks := f_total_blocks file + 1\<rparr>, s)
           });
        let file = file\<lparr>f_size := f_size file - word_of_int old_size + b_size block\<rparr>;
        (_, s) \<leftarrow> s_lseek_decl (f_fd file) SIZE_START SEEK_SET s;
        let (_, s) = s_write (f_fd file) (enc64 (f_size file)) s;
        let (_, s) = s_write (f_fd file) (enc64 (f_total_blocks file)) s;
        Some ((0, mutex_unlock (st\<lparr>files := (files st)[i := file]\<rparr>)), s)
      }
    })"

text \<open>
  \<open>cfs_file_read_block\<close> calls \<open>load_block\<close> with four of its five arguments: what is taken for \<open>refs\<close> is
  indeterminate. If it does not point to memory of its own, the call is undefined.
\<close>

definition refs_arg :: "os \<Rightarrow> byte list option" where
  "refs_arg s = (if refs_valid s then Some (uninit ''refs'' 8 s) else None)"

definition cfs_file_read_block ::
  "cfs_state \<Rightarrow> nat \<Rightarrow> w64 \<Rightarrow> cfs_block \<Rightarrow> os \<Rightarrow> ((int \<times> cfs_block \<times> cfs_state) \<times> os) option" where
  "cfs_file_read_block st i index buff s = do {
     st \<leftarrow> mutex_lock st;
     file \<leftarrow> (if i < length (files st) then Some (files st ! i) else None);
     (_, s) \<leftarrow> s_lseek_decl (f_fd file) BLOCK_START SEEK_SET s;
     (ret, s) \<leftarrow> cfs_file_find_index file index s;
     if ret = 0 then Some ((0, buff, mutex_unlock st), s)
     else do {
       let ((_, bs), s) = s_read (f_fd file) HASH_LENGTH s;
       let hash = overlay (uninit ''hash'' 20 s) bs;
       refs \<leftarrow> refs_arg s;
       ((ret, data, sz, _), s) \<leftarrow> load_block (storage st) hash (b_data buff) (b_size buff) refs s;
       let buff = buff\<lparr>b_data := data, b_size := sz\<rparr>;
       if ret \<noteq> 0 then Some ((ret, buff, mutex_unlock st), s)
       else Some ((1, buff\<lparr>b_index := index\<rparr>, mutex_unlock st), s)
     }
   }"

end
