(* ===== verification/Table.thy ===== *)
theory Table
  imports Cfs
begin

text \<open>
  The format of a CFS file: a header and a table of pairs, each a block index and a hash, and the
  search in the table on such a file.
\<close>

type_synonym table = "(w64 \<times> byte list) list"

definition enc_pair :: "w64 \<times> byte list \<Rightarrow> byte list" where
  "enc_pair e = enc64 (fst e) @ snd e"

definition enc_table :: "table \<Rightarrow> byte list" where
  "enc_table tbl = concat (map enc_pair tbl)"

definition file_image :: "w64 \<Rightarrow> w64 \<Rightarrow> table \<Rightarrow> byte list" where
  "file_image sz tot tbl = MAGIC @ enc64 sz @ enc64 tot @ enc_table tbl"

definition table_ok :: "table \<Rightarrow> bool" where
  "table_ok tbl \<longleftrightarrow> (\<forall>e \<in> set tbl. length (snd e) = HASH_LENGTH)"

fun entry_pos :: "w64 \<Rightarrow> table \<Rightarrow> nat option" where
  "entry_pos ix [] = None"
| "entry_pos ix (e # tbl) = (if fst e = ix then Some 0 else map_option Suc (entry_pos ix tbl))"

lemma length_MAGIC [simp]: "length MAGIC = 7"
  by (simp add: MAGIC_def)

lemma enc_table_simps [simp]:
  "enc_table [] = []" "enc_table (e # tbl) = enc_pair e @ enc_table tbl"
  "enc_table (t1 @ t2) = enc_table t1 @ enc_table t2"
  by (simp_all add: enc_table_def)

lemma table_ok_simps [simp]:
  "table_ok []" "table_ok (e # tbl) \<longleftrightarrow> length (snd e) = HASH_LENGTH \<and> table_ok tbl"
  "table_ok (t1 @ t2) \<longleftrightarrow> table_ok t1 \<and> table_ok t2"
  by (auto simp: table_ok_def)

lemma length_enc_table [simp]: "table_ok tbl \<Longrightarrow> length (enc_table tbl) = 28 * length tbl"
  by (induction tbl) (simp_all add: enc_pair_def)

lemma length_file_image [simp]: "table_ok tbl \<Longrightarrow> length (file_image sz n tbl) = 23 + 28 * length tbl"
  by (simp add: file_image_def)

lemma entry_pos_None: "entry_pos ix tbl = None \<longleftrightarrow> ix \<notin> fst ` set tbl"
  by (induction tbl) auto

lemma entry_pos_Some: "entry_pos ix tbl = Some k \<Longrightarrow> k < length tbl \<and> fst (tbl ! k) = ix"
  by (induction tbl arbitrary: k) (auto split: if_splits)

lemma find_pair_live:
  assumes "ideal s" "fd_range s fd" "of_rd f" "table_ok tbl" "length ib = 8"
    "c = pre @ enc_table tbl" "of_pos f = length pre" "length c < 2147483648"
  shows "find_pair fd ix ib (upd_file s fd f c) = Some
    (case entry_pos ix tbl of
       None \<Rightarrow> (0, upd_file s fd (f\<lparr>of_pos := length c\<rparr>) c)
     | Some k \<Rightarrow> (1, upd_file s fd (f\<lparr>of_pos := length pre + 28 * k + 8\<rparr>) c))"
  using assms
proof (induction tbl arbitrary: f pre ib)
  case Nil
  then have "f\<lparr>of_pos := length pre\<rparr> = f" by (cases f) simp
  with Nil show ?case
    by (subst find_pair.simps) (simp add: ideal_simps Let_def)
next
  case (Cons e tbl)
  obtain j h where e: "e = (j, h)" by fastforce
  have h: "length h = 20" using Cons.prems(4) e by simp
  have c: "c = (pre @ enc_pair e) @ enc_table tbl" using Cons.prems(6) by simp
  have d: "take 8 (drop (of_pos f) c) = enc64 j"
    using Cons.prems(6,7) by (simp add: e enc_pair_def)
  have lc: "length c = length pre + 28 + 28 * length tbl"
    using Cons.prems(4,6) h by (simp add: e enc_pair_def)
  have l: "min (length c - of_pos f) 8 = 8" using lc Cons.prems(7) by simp
  show ?case
  proof (cases "j = ix")
    case True
    with Cons.prems(1-3,5,7) d l show ?thesis
      by (subst find_pair.simps) (simp add: ideal_simps Let_def e)
  next
    case False
    let ?f = "f\<lparr>of_pos := 28 + length pre\<rparr>"
    have "find_pair fd ix ib (upd_file s fd f c) = find_pair fd ix (enc64 j) (upd_file s fd ?f c)"
      using Cons.prems(1-3,5,7,8) d l lc False
      by (subst find_pair.simps) (simp add: ideal_simps Let_def e)
    also have "\<dots> = Some (case entry_pos ix tbl of
       None \<Rightarrow> (0, upd_file s fd (?f\<lparr>of_pos := length c\<rparr>) c)
     | Some k \<Rightarrow> (1, upd_file s fd (?f\<lparr>of_pos := length (pre @ enc_pair e) + 28 * k + 8\<rparr>) c))"
      using Cons.prems(1-4,8) c h by (intro Cons.IH) (simp_all add: e enc_pair_def)
    finally show ?thesis
      using False h by (simp add: e enc_pair_def split: option.splits)
  qed
qed


lemma find_index_live:
  assumes "ideal s" "fd_range s (f_fd file)" "of_rd f" "table_ok tbl" "c = file_image sz tot tbl"
    "f_total_blocks file = of_nat (length tbl)" "length c < 2147483648"
  shows "\<exists>p. cfs_file_find_index file ix (upd_file s (f_fd file) f c) = Some
    (case entry_pos ix tbl of
       None \<Rightarrow> (0, upd_file s (f_fd file) (f\<lparr>of_pos := p\<rparr>) c)
     | Some k \<Rightarrow> (1, upd_file s (f_fd file) (f\<lparr>of_pos := 31 + 28 * k\<rparr>) c))"
proof (cases "tbl = []")
  case True
  then have "cfs_file_find_index file ix (upd_file s (f_fd file) f c) =
      Some (0, upd_file s (f_fd file) (f\<lparr>of_pos := of_pos f\<rparr>) c)"
    using assms(6) by (simp add: cfs_file_find_index_def)
  with True show ?thesis by (intro exI [of _ "of_pos f"]) simp
next
  case False
  then have "f_total_blocks file \<noteq> 0"
    using assms(4-7) by (auto simp: word_of_nat_eq_0_iff dest: dvd_imp_le)
  moreover have "c = (MAGIC @ enc64 sz @ enc64 tot) @ enc_table tbl"
    using assms(5) by (simp add: file_image_def)
  ultimately show ?thesis
    using assms(1-4,7)
    by (auto simp: find_pair_live [where pre = "MAGIC @ enc64 sz @ enc64 tot" and tbl = tbl]
      cfs_file_find_index_def ideal_simps split: option.split)
qed

subsection \<open>Parts of a file\<close>

lemma write_header:
  "table_ok tbl \<Longrightarrow> write_at (write_at (file_image a b tbl) 7 (enc64 a')) 15 (enc64 b') = file_image a' b' tbl"
  using write_at_middle [where pre = MAGIC and xs = "enc64 a" and rest = "enc64 b @ enc_table tbl"]
    write_at_middle [where pre = "MAGIC @ enc64 a'" and xs = "enc64 b" and rest = "enc_table tbl"]
  by (simp add: file_image_def)

lemma append_pair:
  "table_ok tbl \<Longrightarrow> length h = HASH_LENGTH \<Longrightarrow>
   file_image a b tbl @ enc64 ix @ h = file_image a b (tbl @ [(ix, h)])"
  by (simp add: file_image_def enc_pair_def)

lemma enc_table_split:
  "k < length tbl \<Longrightarrow> enc_table tbl = enc_table (take k tbl) @ enc_pair (tbl ! k) @ enc_table (drop (Suc k) tbl)"
  by (metis append_Cons append_Nil enc_table_simps(2,3) id_take_nth_drop)

lemma table_ok_take: "table_ok tbl \<Longrightarrow> table_ok (take k tbl)"
  unfolding table_ok_def by (meson in_set_takeD)

lemma hash_at:
  assumes "table_ok tbl" "k < length tbl"
  shows "take 20 (drop (31 + 28 * k) (file_image sz tot tbl)) = snd (tbl ! k)"
proof -
  have "length (snd (tbl ! k)) = 20" using assms by (simp add: table_ok_def)
  then show ?thesis
    using assms by (simp add: file_image_def enc_table_split [of k] table_ok_take enc_pair_def min_absorb2)
qed

end
