(* ===== verification/Block_File.thy ===== *)
theory Block_File
  imports Table
begin

text \<open>
  Reading and registering blocks of an open CFS file, in an environment without faults.
\<close>

lemma mutex_cycle [simp]:
  "lock st = Unlocked \<Longrightarrow> st\<lparr>lock := Unlocked\<rparr> = st"
  "lock st = Unlocked \<Longrightarrow> st\<lparr>files := fs, lock := Unlocked\<rparr> = st\<lparr>files := fs\<rparr>"
  by (cases st; simp)+

lemma find_index_ready:
  assumes "ready st s" "live s (f_fd file) f c" "of_rd f" "table_ok tbl" "c = file_image sz tot tbl"
    "f_total_blocks file = of_nat (length tbl)" "length c < 2147483648"
  shows "entry_pos ix tbl = Some k \<Longrightarrow> cfs_file_find_index file ix (upd_file s (f_fd file) (f\<lparr>of_pos := q\<rparr>) c)
      = Some (1, upd_file s (f_fd file) (f\<lparr>of_pos := 31 + 28 * k\<rparr>) c)"
    and "entry_pos ix tbl = None \<Longrightarrow> \<exists>p. cfs_file_find_index file ix (upd_file s (f_fd file) (f\<lparr>of_pos := q\<rparr>) c)
      = Some (0, upd_file s (f_fd file) (f\<lparr>of_pos := p\<rparr>) c)"
proof -
  have s: "ideal s" "fd_range s (f_fd file)" "of_rd (f\<lparr>of_pos := q\<rparr>)"
    using assms(1-3) live_range by (auto simp: ready_def)
  from find_index_live [OF s assms(4-7), of ix] obtain p where
    "cfs_file_find_index file ix (upd_file s (f_fd file) (f\<lparr>of_pos := q\<rparr>) c) = Some (case entry_pos ix tbl of
       None \<Rightarrow> (0, upd_file s (f_fd file) (f\<lparr>of_pos := q, of_pos := p\<rparr>) c)
     | Some k \<Rightarrow> (1, upd_file s (f_fd file) (f\<lparr>of_pos := q, of_pos := 31 + 28 * k\<rparr>) c))" by blast
  then show "entry_pos ix tbl = Some k \<Longrightarrow> cfs_file_find_index file ix (upd_file s (f_fd file) (f\<lparr>of_pos := q\<rparr>) c)
      = Some (1, upd_file s (f_fd file) (f\<lparr>of_pos := 31 + 28 * k\<rparr>) c)"
    and "entry_pos ix tbl = None \<Longrightarrow> \<exists>p. cfs_file_find_index file ix (upd_file s (f_fd file) (f\<lparr>of_pos := q\<rparr>) c)
      = Some (0, upd_file s (f_fd file) (f\<lparr>of_pos := p\<rparr>) c)"
    by auto
qed

lemma read_block_found:
  assumes "ready (storage st) s" "lock st = Unlocked" "i < length (files st)"
    and fileq: "file = files st ! i" and live: "live s (f_fd file) f c" and c: "c = file_image sz tot tbl"
    and "of_rd f" "table_ok tbl" "f_total_blocks file = of_nat (length tbl)" "length c < 2147483648"
    and pos: "entry_pos ix tbl = Some k"
    and blk: "reg_content s (block_path (storage st) (snd (tbl ! k))) = Some (enc64 r @ d)" "d \<noteq> []"
  shows "cfs_file_read_block st i ix buff s = (if refs_valid s then Some
    ((1, buff\<lparr>b_data := overlay (b_data buff) (take 4096 d), b_size := of_nat (min (length d) 4096), b_index := ix\<rparr>, st),
     upd_file s (f_fd file) (f\<lparr>of_pos := 51 + 28 * k\<rparr>) c) else None)"
proof -
  let ?fd = "f_fd file"
  have s: "ideal s" "fd_range s ?fd" using assms(1) live live_range by (auto simp: ready_def)
  have k: "k < length tbl" using pos entry_pos_Some by blast
  have lh: "length (snd (tbl ! k)) = 20" using k assms(8) by (simp add: table_ok_def)
  let ?s = "upd_file s ?fd (f\<lparr>of_pos := 51 + 28 * k\<rparr>) c"
  obtain bfd where bfd: "first_free ?s = Some bfd"
    using ready_free [OF assms(1)] first_free_upd_file [OF live] by metis
  have b: "reg_content ?s (block_path (storage st) (snd (tbl ! k))) = Some (enc64 r @ d)"
    using reg_content_upd_same [OF live, of "f\<lparr>of_pos := 51 + 28 * k\<rparr>"] blk(1) by simp
  have lb: "load_block (storage st) (snd (tbl ! k)) da z (uninit ''refs'' 8 s) ?s =
      Some ((0, overlay da (take 4096 d), of_nat (min (length d) 4096), enc64 r), ?s)" for da z
    using s(1) load_block_live [OF _ b blk(2) bfd] by simp
  have u: "uninit v n (upd_file s ?fd g c) = uninit v n s" for v n g by (simp add: uninit_def)
  have m: "min (length c - (31 + 28 * k)) 20 = 20" using k assms(8) c by simp
  have h: "take 20 (drop (31 + 28 * k) c) = snd (tbl ! k)" using hash_at [OF assms(8) k] c by simp
  have sk: "s_lseek_decl ?fd 23 SEEK_SET s = Some (23, upd_file s ?fd (f\<lparr>of_pos := 23\<rparr>) c)"
    using s_lseek_decl_live [OF s(1) live, of 23 SEEK_SET] by simp
  have m1: "mutex_lock st = Some (st\<lparr>lock := Locked\<rparr>)" "mutex_unlock (st\<lparr>lock := Locked\<rparr>) = st"
    using assms(2) by (simp_all add: mutex_lock_def mutex_unlock_def)
  show ?thesis
    using assms(3,7) s k lh lb m h sk m1
      find_index_ready(1) [OF assms(1) live assms(7,8) c assms(9,10) pos]
    by (simp add: cfs_file_read_block_def refs_arg_def Let_def ideal_simps fileq [symmetric] u)
qed

lemma read_block_missing:
  assumes "ready (storage st) s" "lock st = Unlocked" "i < length (files st)"
    and fileq: "file = files st ! i" and live: "live s (f_fd file) f c" and c: "c = file_image sz tot tbl"
    and "of_rd f" "table_ok tbl" "f_total_blocks file = of_nat (length tbl)" "length c < 2147483648"
    and pos: "entry_pos ix tbl = None"
  shows "\<exists>p. cfs_file_read_block st i ix buff s = Some
    ((0, buff, st), upd_file s (f_fd file) (f\<lparr>of_pos := p\<rparr>) c)"
proof -
  let ?fd = "f_fd file"
  have s: "ideal s" using assms(1) by (auto simp: ready_def)
  have sk: "s_lseek_decl ?fd 23 SEEK_SET s = Some (23, upd_file s ?fd (f\<lparr>of_pos := 23\<rparr>) c)"
    using s_lseek_decl_live [OF s(1) live, of 23 SEEK_SET] by simp
  have m1: "mutex_lock st = Some (st\<lparr>lock := Locked\<rparr>)" "mutex_unlock (st\<lparr>lock := Locked\<rparr>) = st"
    using assms(2) by (simp_all add: mutex_lock_def mutex_unlock_def)
  obtain p where "cfs_file_find_index file ix (upd_file s ?fd (f\<lparr>of_pos := 23\<rparr>) c)
      = Some (0, upd_file s ?fd (f\<lparr>of_pos := p\<rparr>) c)"
    using find_index_ready(2) [OF assms(1) live assms(7,8) c assms(9,10) pos] by blast
  then show ?thesis
    using assms(3) sk m1 by (auto simp: cfs_file_read_block_def Let_def fileq [symmetric])
qed

lemma register_block_append:
  assumes "ready (storage st) s" "lock st = Unlocked" "i < length (files st)"
    and fileq: "file = files st ! i" and live: "live s (f_fd file) f (file_image sz tot tbl)"
    and "of_rd f" "of_wr f" "table_ok tbl" "f_total_blocks file = of_nat (length tbl)"
    and small: "51 + 28 * length tbl < 2147483648"
    and fresh: "b_index b \<notin> fst ` set tbl"
    and hash: "hash = sha1 (take (unat (b_size b)) (b_data b))" "length hash = HASH_LENGTH"
    and "unat (b_size b) \<le> length (b_data b)" "unat (b_size b) < 2147483648"
    and filq': "file' = file\<lparr>f_total_blocks := of_nat (length tbl) + 1, f_size := f_size file + b_size b\<rparr>"
  shows "cfs_file_register_block sha1 st i b s =
    Some ((0, st\<lparr>files := (files st)[i := file']\<rparr>),
      upd_file (after_store (block_path (storage st) hash) (take (unat (b_size b)) (b_data b)) s)
        (f_fd file) (f\<lparr>of_pos := 23\<rparr>)
        (file_image (f_size file') (f_total_blocks file') (tbl @ [(b_index b, hash)])))"
proof -
  let ?d = "take (unat (b_size b)) (b_data b)" and ?fd = "f_fd file"
  let ?s = "after_store (block_path (storage st) hash) ?d s" and ?c = "file_image sz tot tbl"
  have s: "ideal ?s" "live ?s ?fd f ?c" "fd_range ?s ?fd"
    using ready_after_store [OF assms(1) hash(2), of ?d] live_after_store [OF _ live, of "block_path (storage st) hash" ?d]
      assms(1) live_range by (auto simp: ready_def)
  obtain p where p: "cfs_file_find_index file (b_index b) ?s = Some (0, upd_file ?s ?fd (f\<lparr>of_pos := p\<rparr>) ?c)"
    using find_index_live [OF s(1,3) assms(6,8) refl assms(9), of sz tot "b_index b"] fresh small assms(8) live_upd_id [OF s(2)]
    by (auto simp: entry_pos_None [symmetric])
  show ?thesis
    using assms(1-3,6-9,14,15) small s hash filq' p
    by (simp add: cfs_file_register_block_def calculate_hash_def Let_def ideal_simps mutex_lock_def mutex_unlock_def
        fileq [symmetric] write_header append_pair)
qed

lemma s_lseek_back_20:
  assumes "ideal s" "fd_range s fd" "sext s" "20 \<le> of_pos f" "of_pos f < 2147483648"
  shows "s_lseek_decl fd (- 20) SEEK_CUR (upd_file s fd f c) =
    Some (int (of_pos f) - 20, upd_file s fd (f\<lparr>of_pos := of_pos f - 20\<rparr>) c)"
  using assms s_lseek_live [OF _ live_upd [OF assms(2)], of f c SEEK_CUR "- 20"]
  by (simp add: s_lseek_decl_def nat_diff_distrib)

lemma register_block_existing:
  assumes "ready (storage st) s" "lock st = Unlocked" "i < length (files st)" "sext s"
    and fileq: "file = files st ! i" and live: "live s (f_fd file) f c" and c: "c = file_image sz tot tbl"
    and "of_rd f" "of_wr f" "table_ok tbl" "f_total_blocks file = of_nat (length tbl)"
    and small: "length c < 2147483648"
    and pos: "entry_pos (b_index b) tbl = Some k"
    and hash: "hash = sha1 (take (unat (b_size b)) (b_data b))" "length hash = HASH_LENGTH"
    and "unat (b_size b) \<le> length (b_data b)" "unat (b_size b) < 2147483648"
    and s1: "s1 = after_store (block_path (storage st) hash) (take (unat (b_size b)) (b_data b)) s"
    and old: "reg_content s1 (block_path (storage st) (snd (tbl ! k))) = Some blk" "length blk < 2147483648"
    and filq': "file' = file\<lparr>f_size := f_size file - of_nat (length blk) + b_size b\<rparr>"
  shows "cfs_file_register_block sha1 st i b s =
    Some ((0, st\<lparr>files := (files st)[i := file']\<rparr>),
      upd_file s1 (f_fd file) (f\<lparr>of_pos := 23\<rparr>) (file_image (f_size file') (f_total_blocks file') tbl))"
proof -
  let ?fd = "f_fd file"
  have r1: "ready (storage st) s1" unfolding s1 using assms(1) hash(2) by (rule ready_after_store)
  have live1: "live s1 ?fd f c" unfolding s1 using assms(1) live by (intro live_after_store) (simp_all add: ready_def)
  have s: "ideal s1" "fd_range s1 ?fd" "sext s1"
    using r1 live1 live_range assms(4) s1 by (auto simp: ready_def after_store_def)
  have k: "k < length tbl" using pos entry_pos_Some by blast
  have lh: "length (snd (tbl ! k)) = 20" using k assms(10) by (simp add: table_ok_def)
  let ?s = "upd_file s1 ?fd (f\<lparr>of_pos := 51 + 28 * k\<rparr>) c"
  obtain bfd where bfd: "first_free ?s = Some bfd"
    using ready_free [OF r1] first_free_upd_file [OF live1] by metis
  have gs: "block_get_size (storage st) (snd (tbl ! k)) ?s = Some (int (length blk), ?s)"
    using s old bfd reg_content_upd_same [OF live1, of "f\<lparr>of_pos := 51 + 28 * k\<rparr>"]
    by (intro block_get_size_live) simp_all
  have lc: "51 + 28 * k \<le> length c" using k assms(10) c by simp
  then have m: "min (length c - (31 + 28 * k)) 20 = 20" by simp
  have h: "take 20 (drop (31 + 28 * k) c) = snd (tbl ! k)" using hash_at [OF assms(10) k] c by simp
  have w: "write_at c (31 + 28 * k) (snd (tbl ! k)) = c"
    using h lh lc by (intro write_at_same) simp_all
  have bk: "s_lseek_decl ?fd (- 20) SEEK_CUR ?s = Some (31 + 28 * int k, upd_file s1 ?fd (f\<lparr>of_pos := 31 + 28 * k\<rparr>) c)"
    using s_lseek_back_20 [OF s, of "f\<lparr>of_pos := 51 + 28 * k\<rparr>" c] lc small by simp
  have fi: "cfs_file_find_index file (b_index b) s1 = Some (1, upd_file s1 ?fd (f\<lparr>of_pos := 31 + 28 * k\<rparr>) c)"
    using find_index_ready(1) [OF r1 live1 assms(8,10) c assms(11) small pos, of "of_pos f"] live_upd_id [OF live1]
    by simp
  have hd: "write_at (write_at c 7 (enc64 a)) 15 (enc64 b') = file_image a b' tbl" for a b'
    using write_header [OF assms(10)] c by simp
  show ?thesis
    using assms(1-3,8,9,16,17) s fi lh m h w bk gs hash(2) filq'
    by (simp add: cfs_file_register_block_def calculate_hash_def Let_def ideal_simps mutex_lock_def mutex_unlock_def
        fileq [symmetric] hd hash(1) [symmetric] s1 [symmetric])
qed

end
