(* ===== verification/Registry.thy ===== *)
theory Registry
  imports Block_File
begin

text \<open>
  The registry of open files: two growable arrays, searched linearly.
\<close>

subsection \<open>The array of descriptors\<close>

definition used :: "int list \<Rightarrow> int list" where
  "used xs = filter (\<lambda>x. x \<noteq> -1) xs"

definition slots_ok :: "int list \<Rightarrow> bool" where
  "slots_ok xs \<longleftrightarrow> 2 \<le> length xs \<and> distinct (used xs) \<and>
     (\<forall>i < length xs. xs ! i \<noteq> -1 \<longrightarrow> i < length xs div 2)"

lemma find_fd_Some:
  "find_fd x xs = Some i \<longleftrightarrow> i < length xs \<and> xs ! i = x \<and> (\<forall>j<i. xs ! j \<noteq> x)"
proof (induction xs arbitrary: i)
  case (Cons a xs)
  then show ?case by (cases i) (auto simp: All_less_Suc2 split: option.splits)
qed simp

lemma find_fd_None: "find_fd x xs = None \<longleftrightarrow> x \<notin> set xs"
  by (induction xs) auto

lemma used_append [simp]: "used (xs @ ys) = used xs @ used ys"
  by (simp add: used_def)

lemma used_replicate [simp]: "used (replicate n (-1)) = []"
  by (simp add: used_def)

lemma set_used: "set (used xs) = set xs - {-1}"
  by (auto simp: used_def)

lemma used_full: "(\<forall>j<i. xs ! j \<noteq> -1) \<Longrightarrow> i \<le> length xs \<Longrightarrow> used (take i xs) = take i xs"
  by (auto simp: used_def filter_id_conv in_set_conv_nth)

lemma used_update:
  assumes "i < length xs"
  shows "used (xs[i := x]) = used (take i xs) @ used [x] @ used (drop (Suc i) xs)"
    and "used xs = used (take i xs) @ used [xs ! i] @ used (drop (Suc i) xs)"
  using assms by (simp_all add: upd_conv_take_nth_drop flip: used_append) (simp add: Cons_nth_drop_Suc)

lemma slots_upper: "slots_ok xs \<Longrightarrow> i < length xs \<Longrightarrow> length xs div 2 \<le> i \<Longrightarrow> xs ! i = -1"
  unfolding slots_ok_def by (meson not_le)

lemma used_bound: "slots_ok xs \<Longrightarrow> length (used xs) \<le> length xs div 2"
proof -
  assume ok: "slots_ok xs"
  let ?h = "length xs div 2"
  have "used (drop ?h xs) = []"
    using slots_upper [OF ok] by (auto simp: used_def filter_empty_conv in_set_conv_nth)
  then have "used xs = used (take ?h xs)"
    using used_append [of "take ?h xs" "drop ?h xs"] by simp
  moreover have "length (used (take ?h xs)) \<le> ?h"
    unfolding used_def by (rule le_trans [OF length_filter_le]) simp
  ultimately show ?thesis by simp
qed

lemma slots_insert:
  assumes "slots_ok xs" "find_fd (-1) xs = Some i" "length (used xs) < length xs div 2" "fd \<notin> set xs" "fd \<noteq> -1"
  shows "slots_ok (xs[i := fd])" "length (used (xs[i := fd])) = Suc (length (used xs))"
proof -
  from assms(2) have i: "i < length xs" "xs ! i = -1" "\<forall>j<i. xs ! j \<noteq> -1" by (auto simp: find_fd_Some)
  have "i \<le> length (used xs)"
    using used_update(2) [OF i(1)] used_full [OF i(3)] i(1) by simp
  with assms(3) have lt: "i < length xs div 2" by simp
  note u = used_update [OF i(1)]
  show "length (used (xs[i := fd])) = Suc (length (used xs))"
    using u(1) [of fd] u(2) i(2) assms(5) by (simp add: used_def)
  have "distinct (used (xs[i := fd]))"
    using u(1) [of fd] u(2) assms(1,4,5) i(2)
    by (auto simp: slots_ok_def used_def dest: in_set_takeD in_set_dropD)
  then show "slots_ok (xs[i := fd])"
    using assms(1) lt by (auto simp: slots_ok_def nth_list_update)
qed

lemma slots_delete:
  assumes "slots_ok xs" "find_fd fd xs = Some i" "fd \<noteq> -1"
  shows "slots_ok (xs[i := -1])" "Suc (length (used (xs[i := -1]))) = length (used xs)" "fd \<notin> set (xs[i := -1])"
proof -
  from assms(2) have i: "i < length xs" "xs ! i = fd" by (auto simp: find_fd_Some)
  note u = used_update [OF i(1)]
  show "Suc (length (used (xs[i := -1]))) = length (used xs)"
    using u(1) [of "-1"] u(2) i(2) assms(3) by (simp add: used_def)
  have d: "distinct (used (take i xs) @ fd # used (drop (Suc i) xs))"
    using u(2) assms(1,3) i(2) by (simp add: slots_ok_def used_def)
  then have "distinct (used (xs[i := -1]))"
    using u(1) [of "-1"] by (simp add: used_def)
  then show "slots_ok (xs[i := -1])"
    using assms(1) unfolding slots_ok_def by (metis length_list_update nth_list_update_eq nth_list_update_neq)
  have "fd \<notin> set (used (xs[i := -1]))"
    using d u(1) [of "-1"] by (simp add: used_def)
  then show "fd \<notin> set (xs[i := -1])" using assms(3) by (simp add: set_used)
qed

lemma slots_grow:
  assumes "slots_ok xs"
  defines "ys \<equiv> take (length xs - 1) xs @ replicate (length xs * 2 - (length xs - 1)) (-1)"
  shows "slots_ok ys" "used ys = used xs" "length ys = 2 * length xs"
    and "\<And>fd. fd \<noteq> -1 \<Longrightarrow> find_fd fd ys = find_fd fd xs"
proof -
  let ?n = "length xs"
  have n: "2 \<le> ?n" using assms(1) by (simp add: slots_ok_def)
  then have ne: "xs \<noteq> []" by auto
  have "?n - 1 < ?n" "?n div 2 \<le> ?n - 1" using n by linarith+
  then have "last xs = -1" using slots_upper [OF assms(1)] ne by (simp add: last_conv_nth)
  with ne have xs: "xs = take (?n - 1) xs @ [-1]" by (metis append_butlast_last_id butlast_conv_take)
  show "length ys = 2 * ?n" using n by (simp add: ys_def)
  show u: "used ys = used xs" using arg_cong [OF xs, of used] by (simp add: ys_def) (simp add: used_def)
  have pad: "i < length as \<and> (as @ replicate k x) ! i = as ! i"
    if "i < length (as @ replicate k x)" "(as @ replicate k x) ! i \<noteq> x" for i k as and x :: int
    using that by (auto simp: nth_append split: if_splits)
  have "i < ?n \<and> xs ! i \<noteq> -1" if "i < length ys" "ys ! i \<noteq> -1" for i
    using pad [OF that [unfolded ys_def]] that(2) by (auto simp: ys_def)
  then show "slots_ok ys"
    using assms(1) \<open>length ys = 2 * ?n\<close> u unfolding slots_ok_def by fastforce
  show "find_fd fd ys = find_fd fd xs" if "fd \<noteq> -1" for fd
  proof -
    have app: "find_fd fd (as @ replicate k (-1)) = find_fd fd as" for as k
      using that by (induction as) (auto simp: find_fd_None)
    show ?thesis using app app [of _ 1] xs unfolding ys_def by (metis One_nat_def replicate_0 replicate_Suc)
  qed
qed

lemma find_fd_update:
  assumes "fd' \<noteq> fd" "fd' \<noteq> xs ! i" "i < length xs"
  shows "find_fd fd' (xs[i := fd]) = find_fd fd' xs"
  using assms
proof (induction xs arbitrary: i)
  case (Cons x xs)
  then show ?case by (cases i) auto
qed simp


subsection \<open>The registry\<close>

text \<open>
  The invariant of the registry: the arrays have one length, \<open>n_fds\<close> counts the entries in use,
  these are distinct and lie in the lower half.
\<close>

definition registry_ok :: "cfs_state \<Rightarrow> bool" where
  "registry_ok st \<longleftrightarrow> slots_ok (fds st) \<and> length (files st) = length (fds st) \<and>
     unat (n_fds st) = length (used (fds st)) \<and> lock st = Unlocked"

lemma mutex_simps [simp]:
  "lock st = Unlocked \<Longrightarrow> mutex_lock st = Some (st\<lparr>lock := Locked\<rparr>)"
  "lock st = Locked \<Longrightarrow> mutex_unlock st = st\<lparr>lock := Unlocked\<rparr>"
  by (simp_all add: mutex_lock_def mutex_unlock_def)

lemma unat_Suc: "unat (n :: w64) < 4611686018427387904 \<Longrightarrow> unat (n + 1) = Suc (unat n)"
  using unat_add_lem [of n 1] by simp

lemma unat_pred: "Suc k = unat (n :: w64) \<Longrightarrow> unat (n - 1) = k"
proof -
  assume k: "Suc k = unat n"
  then have "n \<noteq> 0" by (intro notI) simp
  then show "unat (n - 1) = k" using unat_minus_one [of n] k by simp
qed

definition grown :: "cfs_state \<Rightarrow> os \<Rightarrow> cfs_state" where
  "grown st s = (if fds_cap st div 2 \<le> unat (n_fds st) then grow st s else st)"

lemma grown_ok:
  assumes "slots_ok (fds st)" "length (files st) = length (fds st)" "unat (n_fds st) = length (used (fds st))"
  shows "slots_ok (fds (grown st s))" "length (files (grown st s)) = length (fds (grown st s))"
    "n_fds (grown st s) = n_fds st" "length (used (fds (grown st s))) = length (used (fds st))"
    "length (used (fds st)) < length (fds (grown st s)) div 2" "lock (grown st s) = lock st"
    "storage (grown st s) = storage st"
    "\<And>fd. fd \<noteq> -1 \<Longrightarrow> find_fd fd (fds (grown st s)) = find_fd fd (fds st)"
    "\<And>j. j < length (files st) \<Longrightarrow> files (grown st s) ! j = files st ! j"
    "length (fds (grown st s)) \<le> 2 * length (fds st)"
    "length (fds (grown st s)) = length (fds st) \<or>
      length (fds (grown st s)) = 2 * length (fds st) \<and> length (fds st) div 2 \<le> length (used (fds st))"
proof -
  note g = slots_grow [OF assms(1)] used_bound [OF assms(1)]
  have n: "2 \<le> length (fds st)" using assms(1) by (simp add: slots_ok_def)
  have f: "fds (grow st s) = take (length (fds st) - 1) (fds st)
      @ replicate (length (fds st) * 2 - (length (fds st) - 1)) (-1)"
    "files (grow st s) = files st @ replicate (length (fds st)) (uninit_file s)"
    "n_fds (grow st s) = n_fds st" "lock (grow st s) = lock st" "storage (grow st s) = storage st"
    by (simp_all add: grow_def fds_cap_def Let_def)
  show "slots_ok (fds (grown st s))" "length (files (grown st s)) = length (fds (grown st s))"
    "n_fds (grown st s) = n_fds st" "length (used (fds (grown st s))) = length (used (fds st))"
    "length (used (fds st)) < length (fds (grown st s)) div 2" "lock (grown st s) = lock st"
    "storage (grown st s) = storage st" "length (fds (grown st s)) \<le> 2 * length (fds st)"
    "length (fds (grown st s)) = length (fds st) \<or>
      length (fds (grown st s)) = 2 * length (fds st) \<and> length (fds st) div 2 \<le> length (used (fds st))"
    using g n f assms by (auto simp: grown_def fds_cap_def)
  show "find_fd fd (fds (grown st s)) = find_fd fd (fds st)" if "fd \<noteq> -1" for fd
    using g(4) [OF that] f by (simp add: grown_def)
  show "files (grown st s) ! j = files st ! j" if "j < length (files st)" for j
    using that f by (simp add: grown_def nth_append)
qed

subsection \<open>Registering and releasing\<close>

lemma registry_arrays:
  assumes "registry_ok st"
  shows "slots_ok (fds st)" "length (files st) = length (fds st)" "unat (n_fds st) = length (used (fds st))"
    "lock st = Unlocked"
  using assms by (simp_all add: registry_ok_def)

definition entered :: "cfs_state \<Rightarrow> path \<Rightarrow> int \<Rightarrow> cfs_state \<Rightarrow> bool" where
  "entered st path fd st' \<longleftrightarrow>
     (\<exists>i. cfs_get_file st' fd = Some i \<and> f_path (files st' ! i) = path \<and> f_fd (files st' ! i) = fd \<and>
       f_offset (files st' ! i) = 0) \<and>
     storage st' = storage st \<and>
     (length (fds st') = length (fds st) \<or>
      length (fds st') = 2 * length (fds st) \<and> length (fds st) div 2 \<le> length (used (fds st))) \<and>
     (\<forall>fd'. fd' \<noteq> fd \<and> fd' \<noteq> -1 \<longrightarrow> cfs_get_file st' fd' = cfs_get_file st fd' \<and>
       (\<forall>k. cfs_get_file st fd' = Some k \<longrightarrow> files st' ! k = files st ! k))"

lemma register_step:
  assumes st: "registry_ok st" "fd \<notin> set (fds st)" "fd \<noteq> -1" "length (fds st) < 2305843009213693952"
    and g: "g = grown st s0"
    and i: "find_fd (-1) (fds g) = Some i"
    and st': "fds st' = (fds g)[i := fd]" "files st' = (files g)[i := fl]" "n_fds st' = n_fds g + 1"
      "lock st' = Unlocked" "storage st' = storage g"
    and fl: "f_path fl = path" "f_fd fl = fd" "f_offset fl = 0"
  shows "registry_ok st' \<and> entered st path fd st'"
proof -
  note r = registry_arrays [OF st(1)]
  note gr = grown_ok [where s = s0, OF r(1-3), folded g]
  have ii: "i < length (fds g)" "fds g ! i = -1" using i by (auto simp: find_fd_Some)
  have nin: "fd \<notin> set (fds g)" using st(2,3) gr(8) [of fd] find_fd_None by metis
  note ins = slots_insert [OF gr(1) i gr(5) [folded gr(4)] nin st(3)]
  have "unat (n_fds st) < 4611686018427387904"
    using used_bound [OF r(1)] r(3) st(4) by simp
  then have "unat (n_fds st') = Suc (unat (n_fds st))" by (simp add: st' gr unat_Suc)
  then have ok: "registry_ok st'"
    using ins gr(2,4) r(3) by (simp add: registry_ok_def st' del: mutex_simps)
  have "find_fd fd (fds st') = Some i"
    using ii nin by (auto simp: find_fd_Some st' nth_list_update in_set_conv_nth)
  moreover have "find_fd fd' (fds st') = find_fd fd' (fds st)" if "fd' \<noteq> fd" "fd' \<noteq> -1" for fd'
    using find_fd_update [of fd' fd "fds g" i] that ii gr(8) by (simp add: st')
  moreover have "files st' ! k = files st ! k" if "fd' \<noteq> -1" "find_fd fd' (fds st) = Some k" for fd' k
  proof -
    have "find_fd fd' (fds g) = Some k" using that gr(8) by simp
    then have "fds g ! k = fd'" by (simp add: find_fd_Some)
    then have "k \<noteq> i" using ii that(1) by auto
    moreover have "k < length (files st)" using that r(2) by (simp add: find_fd_Some)
    ultimately show ?thesis using gr(9) by (simp add: st')
  qed
  ultimately have "entered st path fd st'"
    using ii gr(2,7,11) fl by (auto simp: entered_def cfs_get_file_def st')
  with ok show ?thesis by blast
qed

lemma register_keeps:
  assumes "registry_ok st" "fd \<notin> set (fds st)" "fd \<noteq> -1" "length (fds st) < 2305843009213693952"
    and res: "cfs_register_file st path fd s = Some ((r, st'), s')"
  shows "registry_ok st' \<and> entered st path fd st'"
proof -
  note ra = registry_arrays [OF assms(1)]
  let ?L = "st\<lparr>lock := Locked\<rparr>"
  obtain g s1 where g: "(if fds_cap st div 2 \<le> unat (n_fds st)
        then (let (ok1, s) = malloc_ok s; (ok2, s) = malloc_ok s
              in if ok1 \<and> ok2 then Some (grow ?L s, s) else None) else Some (?L, s)) = Some (g, s1)"
    and rest: "(case find_fd (-1) (fds g) of
       None \<Rightarrow> Some ((-1, mutex_unlock g), s1)
     | Some i \<Rightarrow>
         if PATH_MAX \<le> length path \<or> length (files g) \<le> i then None
         else do {
           let st = g\<lparr>fds := (fds g)[i := fd],
             files := (files g)[i := (files g ! i)\<lparr>f_offset := 0, f_fd := fd, f_path := path\<rparr>],
             n_fds := n_fds g + 1\<rparr>;
           (r0, s) \<leftarrow> s_lseek_decl fd 7 SEEK_SET s1;
           let ((r1, bs1), s) = s_read fd 8 s;
           let f = files st ! i;
           let f = f\<lparr>f_size := dec64 (overlay (enc64 (f_size f)) bs1)\<rparr>;
           let ((r2, bs2), s) = s_read fd 8 s;
           let f = f\<lparr>f_total_blocks := dec64 (overlay (enc64 (f_total_blocks f)) bs2)\<rparr>;
           let st = st\<lparr>files := (files st)[i := f]\<rparr>;
           let ret = s32 (s32 (s32 r0 OR r1) OR r2);
           Some ((if ret < 0 then ret else fd, mutex_unlock st), s)
         }) = Some ((r, st'), s')"
    using res ra(4) by (auto simp: cfs_register_file_def fds_cap_def bind_eq_Some_conv)
  have G: "\<exists>s0. g = grown ?L s0"
    using g by (auto simp: grown_def fds_cap_def Let_def split: if_splits prod.splits)
  then obtain s0 where "g = grown ?L s0" by blast
  then have s0: "g = (grown st s0)\<lparr>lock := Locked\<rparr>"
    by (simp add: grown_def grow_def fds_cap_def Let_def)
  note gr = grown_ok [where s = s0, OF ra(1-3)]
  have "find_fd (-1) (fds g) \<noteq> None"
  proof
    assume "find_fd (-1) (fds g) = None"
    then have "used (fds g) = fds g" by (auto simp: find_fd_None used_def filter_id_conv)
    then show False using gr(4,5) s0 by simp
  qed
  then obtain i where i: "find_fd (-1) (fds g) = Some i" by blast
  have il: "i < length (files g)" using i gr(2) s0 by (simp add: find_fd_Some)
  from rest i s0 obtain r0 sa where "s_lseek_decl fd 7 SEEK_SET s1 = Some (r0, sa)"
    by (auto simp: bind_eq_Some_conv split: if_splits)
  moreover obtain r1 bs1 sb where "s_read fd 8 sa = ((r1, bs1), sb)" by (metis prod.exhaust)
  moreover obtain r2 bs2 sc where "s_read fd 8 sb = ((r2, bs2), sc)" by (metis prod.exhaust)
  moreover define fl where "fl = (files g ! i)\<lparr>f_offset := 0, f_fd := fd, f_path := path,
      f_size := dec64 (overlay (enc64 (f_size (files g ! i))) bs1),
      f_total_blocks := dec64 (overlay (enc64 (f_total_blocks (files g ! i))) bs2)\<rparr>"
  ultimately have "st' = (grown st s0)\<lparr>fds := (fds (grown st s0))[i := fd], n_fds := n_fds (grown st s0) + 1,
      files := (files (grown st s0))[i := fl], lock := Unlocked\<rparr>"
    using rest i il s0 by (auto simp: Let_def nth_list_update split: if_splits)
  then show ?thesis
    using i s0 by (intro register_step [OF assms(1-4) refl, where i = i and fl = fl]) (simp_all add: fl_def)
qed

definition left :: "cfs_state \<Rightarrow> int \<Rightarrow> cfs_state \<Rightarrow> bool" where
  "left st fd st' \<longleftrightarrow> cfs_get_file st' fd = None \<and> files st' = files st \<and> storage st' = storage st \<and>
     length (fds st') = length (fds st) \<and>
     (\<forall>fd'. fd' \<noteq> fd \<and> fd' \<noteq> -1 \<longrightarrow> cfs_get_file st' fd' = cfs_get_file st fd')"

lemma release_keeps:
  assumes ok: "registry_ok st" and fd: "fd \<in> set (fds st)" "fd \<noteq> -1"
  obtains st' where "cfs_release_file st fd = Some (0, st')" "registry_ok st'" "left st fd st'"
proof -
  note ra = registry_arrays [OF ok]
  obtain i where i: "find_fd fd (fds st) = Some i"
    using fd find_fd_None [of fd "fds st"] by auto
  let ?st = "st\<lparr>fds := (fds st)[i := -1], n_fds := n_fds st - 1, lock := Unlocked\<rparr>"
  note d = slots_delete [OF ra(1) i fd(2)]
  have "unat (n_fds st - 1) = length (used ((fds st)[i := -1]))"
    using d(2) ra(3) by (intro unat_pred) simp
  then have "registry_ok ?st" using d ra by (simp add: registry_ok_def)
  moreover have "left st fd ?st"
    using i fd d(3) find_fd_update [of _ "-1" "fds st" i]
    by (auto simp: left_def cfs_get_file_def find_fd_Some find_fd_None)
  moreover have "cfs_release_file st fd = Some (0, ?st)"
    using i ra(4) by (simp add: cfs_release_file_def mutex_lock_def mutex_unlock_def)
  ultimately show ?thesis using that by blast
qed

lemma release_missing:
  assumes ok: "registry_ok st" and fd: "fd \<notin> set (fds st)"
  shows "cfs_release_file st fd = Some (-1, st)"
  using assms by (simp add: cfs_release_file_def mutex_lock_def mutex_unlock_def registry_ok_def
      find_fd_None [symmetric])

subsection \<open>Registering a CFS file\<close>

lemma grown_slot:
  assumes "registry_ok st"
  shows "\<exists>i. find_fd (-1) (fds (grown st s0)) = Some i \<and> i < length (files (grown st s0))"
proof -
  note gr = grown_ok [where s = s0, OF registry_arrays(1-3) [OF assms]]
  have "find_fd (-1) (fds (grown st s0)) \<noteq> None"
  proof
    assume "find_fd (-1) (fds (grown st s0)) = None"
    then have "used (fds (grown st s0)) = fds (grown st s0)"
      by (auto simp: find_fd_None used_def filter_id_conv)
    then show False using gr(4,5) by simp
  qed
  then show ?thesis using gr(2) by (auto simp: find_fd_Some)
qed

lemma malloc_ideal [ideal_simps]: "ideal s \<Longrightarrow> malloc_ok s = (True, s)"
  by (simp add: malloc_ok_def ideal_simps)

lemma grow_locked:
  "fds_cap (st\<lparr>lock := l\<rparr>) = fds_cap st"
  "grow (st\<lparr>lock := l\<rparr>) s = (grow st s)\<lparr>lock := l\<rparr>"
  by (simp_all add: grow_def fds_cap_def Let_def)

lemma header_fields:
  "take 8 (drop 7 (file_image sz n tbl)) = enc64 sz"
  "take 8 (drop 15 (file_image sz n tbl)) = enc64 n"
  "23 \<le> length (file_image sz n tbl)"
  by (simp_all add: file_image_def)

lemma register_live:
  assumes reg: "registry_ok st" "fd \<notin> set (fds st)" "fd \<noteq> -1" "length (fds st) < 2305843009213693952"
    and s: "ideal s" "live s fd f c" "of_rd f" "c = file_image sz n tbl" "length path < PATH_MAX"
  shows "\<exists>i st'. cfs_register_file st path fd s = Some ((fd, st'), upd_file s fd (f\<lparr>of_pos := 23\<rparr>) c) \<and>
    registry_ok st' \<and> entered st path fd st' \<and> cfs_get_file st' fd = Some i \<and> i < length (files st') \<and>
    files st' ! i = \<lparr>f_path = path, f_offset = 0, f_size = sz, f_total_blocks = n, f_fd = fd\<rparr>"
proof -
  obtain i where i: "find_fd (-1) (fds (grown st s)) = Some i" "i < length (files (grown st s))"
    using grown_slot [OF reg(1)] by blast
  let ?fl = "\<lparr>f_path = path, f_offset = 0, f_size = sz, f_total_blocks = n, f_fd = fd\<rparr>"
  let ?st = "(grown st s)\<lparr>fds := (fds (grown st s))[i := fd], n_fds := n_fds (grown st s) + 1,
    files := (files (grown st s))[i := ?fl], lock := Unlocked\<rparr>"
  note h = header_fields [of sz n tbl, folded s(4)]
  have sk: "s_lseek_decl fd 7 SEEK_SET s = Some (7, upd_file s fd (f\<lparr>of_pos := 7\<rparr>) c)"
    using s_lseek_decl_live [OF s(1,2), of 7 SEEK_SET] by simp
  have m: "min (length c - 7) 8 = 8" "min (length c - 15) 8 = 8" using h(3) by simp_all
  have fl: "x\<lparr>f_offset := 0, f_fd := fd, f_path := path, f_size := sz, f_total_blocks := n\<rparr> = ?fl" for x :: cfs_file
    by simp
  have ll: "lock (grown st s) = Unlocked" "lock st = Unlocked"
    using grown_ok(6) [where s = s, OF registry_arrays(1-3) [OF reg(1)]] reg(1) by (simp_all add: registry_ok_def)
  have ors: "s32 (s32 (s32 7 OR 8) OR 8) = 15" by (simp add: s32_def)
  have "cfs_register_file st path fd s = Some ((fd, ?st), upd_file s fd (f\<lparr>of_pos := 23\<rparr>) c)"
  proof (cases "fds_cap st div 2 \<le> unat (n_fds st)")
    case True
    then have "grown st s = grow st s" by (simp add: grown_def)
    then show ?thesis
      using True i s(1,3,5) live_range [OF s(2)] sk h(1,2) m ll ors
      by (simp add: cfs_register_file_def ideal_simps Let_def grow_locked fl)
  next
    case False
    then have "grown st s = st" by (simp add: grown_def)
    then show ?thesis
      using False i s(1,3,5) live_range [OF s(2)] sk h(1,2) m ll ors
      by (simp add: cfs_register_file_def ideal_simps Let_def grow_locked fl)
  qed
  moreover from this have "registry_ok ?st \<and> entered st path fd ?st" by (rule register_keeps [OF reg])
  moreover have "cfs_get_file ?st fd = Some i"
  proof -
    have "fd \<notin> set (fds (grown st s))"
      using reg(2,3) grown_ok(8) [where s = s and fd = fd, OF registry_arrays(1-3) [OF reg(1)]] find_fd_None by metis
    then show ?thesis using i(1) by (auto simp: cfs_get_file_def find_fd_Some nth_list_update in_set_conv_nth)
  qed
  ultimately show ?thesis using i(2) by (intro exI [of _ i] exI [of _ ?st]) simp
qed

end
