(* ===== verification/Bbfs.thy ===== *)
theory Bbfs
  imports Registry
begin

text \<open>
  \<open>bbfs.c\<close>: the FUSE handlers. A handler that only passes its arguments to a system call outside
  this model takes that call as a parameter; the calls of \<open>Posix\<close> are used as they are. Log
  messages appear where a later step reads the \<open>errno\<close> they may change.
\<close>

text \<open>\<open>logfile\<close> is left out.\<close>

record bb_state =
  rootdir :: string
  cfs :: cfs_state

definition bb_fullpath :: "bb_state \<Rightarrow> path \<Rightarrow> path option" where
  "bb_fullpath bb path =
     (let fpath = rootdir bb @ take PATH_MAX path in if length fpath < PATH_MAX then Some fpath else None)"

subsection \<open>Attributes\<close>

record stat_buf =
  st_size :: int
  st_blksize :: int
  st_blocks :: int

definition bb_getattr ::
  "(path \<Rightarrow> stat_buf \<Rightarrow> os \<Rightarrow> (int \<times> stat_buf) \<times> os) \<Rightarrow> bb_state \<Rightarrow> path \<Rightarrow> stat_buf \<Rightarrow> os
     \<Rightarrow> ((int \<times> stat_buf) \<times> os) option" where
  "bb_getattr lstat bb path statbuf s = do {
     fpath \<leftarrow> bb_fullpath bb path;
     let ((r, statbuf), s) = lstat fpath statbuf s;
     let (retstat, s) = log_syscall r 0 s;
     let ((ok, file), s) = cfs_file_stat fpath (uninit_file s) s;
     let statbuf = (if ok \<noteq> 0
       then statbuf\<lparr>st_size := sint (f_size file), st_blksize := int BLOCK_SIZE, st_blocks := sint (f_total_blocks file)\<rparr>
       else statbuf);
     Some ((retstat, statbuf), s)
   }"

definition bb_fgetattr ::
  "(path \<Rightarrow> stat_buf \<Rightarrow> os \<Rightarrow> (int \<times> stat_buf) \<times> os) \<Rightarrow> (int \<Rightarrow> stat_buf \<Rightarrow> os \<Rightarrow> (int \<times> stat_buf) \<times> os)
     \<Rightarrow> bb_state \<Rightarrow> path \<Rightarrow> stat_buf \<Rightarrow> int \<Rightarrow> os \<Rightarrow> ((int \<times> stat_buf) \<times> os) option" where
  "bb_fgetattr lstat fstat bb path statbuf fh s =
     (if path = ''/'' then bb_getattr lstat bb path statbuf s
      else (let ((retstat, statbuf), s) = fstat (s32 fh) statbuf s;
                (retstat, s) = (if retstat < 0 then log_error s else (retstat, s))
            in Some ((retstat, statbuf), s)))"

text \<open>\<open>readlink\<close> yields its result and the characters it stores.\<close>

definition bb_readlink ::
  "(path \<Rightarrow> int \<Rightarrow> os \<Rightarrow> (int \<times> string) \<times> os) \<Rightarrow> bb_state \<Rightarrow> path \<Rightarrow> string \<Rightarrow> int \<Rightarrow> os
     \<Rightarrow> ((int \<times> string) \<times> os) option" where
  "bb_readlink readlink bb path link sz s = do {
     fpath \<leftarrow> bb_fullpath bb path;
     let ((r, target), s) = readlink fpath (u64 (sz - 1)) s;
     let (retstat, s) = log_syscall r 0 s;
     if 0 \<le> retstat then Some ((0, take (nat retstat) target), s)
     else Some ((retstat, link), s)
   }"

subsection \<open>Making and removing names\<close>

definition S_ISREG :: "int \<Rightarrow> bool" where
  "S_ISREG mode \<longleftrightarrow> mode AND 0xF000 = 0x8000"

definition S_ISFIFO :: "int \<Rightarrow> bool" where
  "S_ISFIFO mode \<longleftrightarrow> mode AND 0xF000 = 0x1000"

definition bb_mknod ::
  "(path \<Rightarrow> int \<Rightarrow> os \<Rightarrow> int \<times> os) \<Rightarrow> (path \<Rightarrow> int \<Rightarrow> int \<Rightarrow> os \<Rightarrow> int \<times> os) \<Rightarrow> bb_state \<Rightarrow> path \<Rightarrow> int \<Rightarrow> int
     \<Rightarrow> os \<Rightarrow> (int \<times> os) option" where
  "bb_mknod mkfifo mknod bb path mode dev s = do {
     fpath \<leftarrow> bb_fullpath bb path;
     Some (if S_ISREG mode then
         (let (retstat, s) = cfs_create_file fpath s in
          if 0 \<le> retstat then (let (r, s) = sys_close retstat s in log_syscall r 0 s)
          else (retstat, s))
       else if S_ISFIFO mode then (let (r, s) = mkfifo fpath mode s in log_syscall r 0 s)
       else (let (r, s) = mknod fpath mode dev s in log_syscall r 0 s))
   }"

text \<open>A handler on one path that passes it to a system call, and one on two paths.\<close>

definition pass :: "(path \<Rightarrow> os \<Rightarrow> int \<times> os) \<Rightarrow> bb_state \<Rightarrow> path \<Rightarrow> os \<Rightarrow> (int \<times> os) option" where
  "pass syscall bb path s = do {
     fpath \<leftarrow> bb_fullpath bb path;
     let (r, s) = syscall fpath s;
     Some (log_syscall r 0 s)
   }"

definition pass2 :: "(path \<Rightarrow> path \<Rightarrow> os \<Rightarrow> int \<times> os) \<Rightarrow> bb_state \<Rightarrow> path \<Rightarrow> path \<Rightarrow> os \<Rightarrow> (int \<times> os) option" where
  "pass2 syscall bb path newpath s = do {
     fpath \<leftarrow> bb_fullpath bb path;
     fnewpath \<leftarrow> bb_fullpath bb newpath;
     let (r, s) = syscall fpath fnewpath s;
     Some (log_syscall r 0 s)
   }"

definition bb_mkdir :: "bb_state \<Rightarrow> path \<Rightarrow> int \<Rightarrow> os \<Rightarrow> (int \<times> os) option" where
  "bb_mkdir bb path mode s = pass sys_mkdir bb path s"

definition bb_unlink :: "bb_state \<Rightarrow> path \<Rightarrow> os \<Rightarrow> (int \<times> os) option" where
  "bb_unlink bb path s = pass sys_unlink bb path s"

definition bb_rmdir :: "(path \<Rightarrow> os \<Rightarrow> int \<times> os) \<Rightarrow> bb_state \<Rightarrow> path \<Rightarrow> os \<Rightarrow> (int \<times> os) option" where
  "bb_rmdir rmdir bb path s = pass rmdir bb path s"

definition bb_symlink :: "(path \<Rightarrow> path \<Rightarrow> os \<Rightarrow> int \<times> os) \<Rightarrow> bb_state \<Rightarrow> path \<Rightarrow> path \<Rightarrow> os \<Rightarrow> (int \<times> os) option" where
  "bb_symlink symlink bb path link s = do {
     flink \<leftarrow> bb_fullpath bb link;
     let (r, s) = symlink path flink s;
     Some (log_syscall r 0 s)
   }"

definition bb_rename :: "(path \<Rightarrow> path \<Rightarrow> os \<Rightarrow> int \<times> os) \<Rightarrow> bb_state \<Rightarrow> path \<Rightarrow> path \<Rightarrow> os \<Rightarrow> (int \<times> os) option" where
  "bb_rename rename bb path newpath s = pass2 rename bb path newpath s"

definition bb_link :: "(path \<Rightarrow> path \<Rightarrow> os \<Rightarrow> int \<times> os) \<Rightarrow> bb_state \<Rightarrow> path \<Rightarrow> path \<Rightarrow> os \<Rightarrow> (int \<times> os) option" where
  "bb_link link bb path newpath s = pass2 link bb path newpath s"

definition bb_chmod :: "(path \<Rightarrow> int \<Rightarrow> os \<Rightarrow> int \<times> os) \<Rightarrow> bb_state \<Rightarrow> path \<Rightarrow> int \<Rightarrow> os \<Rightarrow> (int \<times> os) option" where
  "bb_chmod chmod bb path mode s = pass (\<lambda>p. chmod p mode) bb path s"

definition bb_chown :: "(path \<Rightarrow> int \<Rightarrow> int \<Rightarrow> os \<Rightarrow> int \<times> os) \<Rightarrow> bb_state \<Rightarrow> path \<Rightarrow> int \<Rightarrow> int \<Rightarrow> os \<Rightarrow> (int \<times> os) option" where
  "bb_chown chown bb path uid gid s = pass (\<lambda>p. chown p uid gid) bb path s"

definition bb_truncate :: "(path \<Rightarrow> int \<Rightarrow> os \<Rightarrow> int \<times> os) \<Rightarrow> bb_state \<Rightarrow> path \<Rightarrow> int \<Rightarrow> os \<Rightarrow> (int \<times> os) option" where
  "bb_truncate sys_truncate bb path newsize s = pass (\<lambda>p. sys_truncate p newsize) bb path s"

definition bb_utime :: "(path \<Rightarrow> int \<times> int \<Rightarrow> os \<Rightarrow> int \<times> os) \<Rightarrow> bb_state \<Rightarrow> path \<Rightarrow> int \<times> int \<Rightarrow> os \<Rightarrow> (int \<times> os) option" where
  "bb_utime utime bb path ubuf s = pass (\<lambda>p. utime p ubuf) bb path s"

definition bb_access :: "bb_state \<Rightarrow> path \<Rightarrow> int \<Rightarrow> os \<Rightarrow> (int \<times> os) option" where
  "bb_access bb path amode s = do {
     fpath \<leftarrow> bb_fullpath bb path;
     let (retstat, s) = sys_access fpath s;
     Some (if retstat < 0 then log_error s else (retstat, s))
   }"

subsection \<open>Open files\<close>

text \<open>The result, the new \<open>fi->fh\<close> and the state.\<close>

definition bb_open :: "bb_state \<Rightarrow> path \<Rightarrow> os \<Rightarrow> ((int \<times> int \<times> bb_state) \<times> os) option" where
  "bb_open bb path s = do {
     fpath \<leftarrow> bb_fullpath bb path;
     let (r, s) = sys_open fpath O_RDWR s;
     let (fd, s) = log_syscall r 0 s;
     if fd < 0 then (let (retstat, s) = log_error s in Some ((retstat, u64 fd, bb), s))
     else do {
       ((_, st), s) \<leftarrow> cfs_register_file (cfs bb) fpath fd s;
       Some ((0, u64 fd, bb\<lparr>cfs := st\<rparr>), s)
     }
   }"

definition bb_release :: "bb_state \<Rightarrow> int \<Rightarrow> os \<Rightarrow> ((int \<times> bb_state) \<times> os) option" where
  "bb_release bb fh s = do {
     (ret, st) \<leftarrow> cfs_release_file (cfs bb) (s32 fh);
     let (r, s) = sys_close (s32 fh) s;
     let (r, s) = log_syscall r 0 s;
     Some ((ret OR r, bb\<lparr>cfs := st\<rparr>), s)
   }"

definition bb_flush :: "os \<Rightarrow> int \<times> os" where
  "bb_flush s = (0, s)"

text \<open>\<open>HAVE_FDATASYNC\<close> is a parameter.\<close>

definition bb_fsync ::
  "bool \<Rightarrow> (int \<Rightarrow> os \<Rightarrow> int \<times> os) \<Rightarrow> (int \<Rightarrow> os \<Rightarrow> int \<times> os) \<Rightarrow> int \<Rightarrow> int \<Rightarrow> os \<Rightarrow> int \<times> os" where
  "bb_fsync have_fdatasync fdatasync fsync datasync fh s =
     (let (r, s) = (if have_fdatasync \<and> datasync \<noteq> 0 then fdatasync (s32 fh) s else fsync (s32 fh) s)
      in log_syscall r 0 s)"

definition bb_ftruncate :: "(int \<Rightarrow> int \<Rightarrow> os \<Rightarrow> int \<times> os) \<Rightarrow> int \<Rightarrow> int \<Rightarrow> os \<Rightarrow> int \<times> os" where
  "bb_ftruncate ftruncate offset fh s =
     (let (retstat, s) = ftruncate (s32 fh) offset s
      in if retstat < 0 then log_error s else (retstat, s))"

subsection \<open>Reading and writing\<close>

abbreviation (input) zero_block :: cfs_block where
  "zero_block \<equiv> \<lparr>b_index = 0, b_size = 0, b_data = replicate BLOCK_SIZE 0\<rparr>"

text \<open>
  \<open>buf\<close> is the caller's buffer. \<open>offset + size\<close> is computed as \<open>size_t\<close>, and so is the difference of
  the block's sz and \<open>left\<close>; \<open>max\<close> with 0 then changes nothing.
\<close>

partial_function (option) bb_read_loop ::
  "nat \<Rightarrow> int \<Rightarrow> int \<Rightarrow> int \<Rightarrow> int \<Rightarrow> byte list \<Rightarrow> cfs_state \<Rightarrow> os
     \<Rightarrow> ((int \<times> byte list \<times> cfs_state) \<times> os) option" where
  "bb_read_loop i sz offset current_offset buffer_index buf st s =
     (if u64 current_offset < u64 (offset + sz) then
        (let rem = current_offset smod int BLOCK_SIZE; left = rem in
         Option.bind (cfs_file_read_block st i (word_of_int (current_offset sdiv int BLOCK_SIZE)) zero_block s)
          (\<lambda>((ret, blk_buf, st), s).
            Option.bind
              (if ret \<noteq> 0 then
                 (let right = s64 (max (u64 (uint (b_size blk_buf) - left)) 0)
                  in mem_copy buf buffer_index (b_data blk_buf) left (max (right - left) 0))
               else
                 (let right = s64 (min (int BLOCK_SIZE) (u64 (left + offset + sz - current_offset)))
                  in mem_fill buf buffer_index (right - left)))
              (\<lambda>buf. bb_read_loop i sz offset (current_offset + (int BLOCK_SIZE - rem))
                 (buffer_index + (int BLOCK_SIZE - rem)) buf st s)))
      else Some ((s32 (current_offset - offset), buf, st), s))"

declare bb_read_loop.simps [code]

definition bb_read ::
  "bb_state \<Rightarrow> byte list \<Rightarrow> int \<Rightarrow> int \<Rightarrow> int \<Rightarrow> os \<Rightarrow> ((int \<times> byte list \<times> bb_state) \<times> os) option" where
  "bb_read bb buf sz offset fh s =
     (case cfs_get_file (cfs bb) (s32 fh) of
        None \<Rightarrow> Some ((-1, buf, bb), s)
      | Some i \<Rightarrow> do {
          ((r, buf, st), s) \<leftarrow> bb_read_loop i sz offset offset 0 buf (cfs bb) s;
          Some ((r, buf, bb\<lparr>cfs := st\<rparr>), s)
        })"

partial_function (option) bb_write_loop ::
  "(byte list \<Rightarrow> byte list) \<Rightarrow> nat \<Rightarrow> byte list \<Rightarrow> int \<Rightarrow> int \<Rightarrow> int \<Rightarrow> int \<Rightarrow> cfs_state \<Rightarrow> os
     \<Rightarrow> ((int \<times> cfs_state) \<times> os) option" where
  "bb_write_loop sha1 i buf sz offset current_offset buffer_index st s =
     (if u64 current_offset < u64 (offset + sz) then
        (let rem = current_offset smod int BLOCK_SIZE; index = word_of_int (current_offset sdiv int BLOCK_SIZE) in
         Option.bind
          (if rem \<noteq> 0 then cfs_file_read_block st i index zero_block s else Some ((0, zero_block, st), s))
          (\<lambda>((_, blk_buf, st), s).
            let left = rem; right = s64 (min (int BLOCK_SIZE) (u64 (left + offset + sz - current_offset))) in
            Option.bind (mem_copy (b_data blk_buf) left buf buffer_index (right - left))
              (\<lambda>data. let blk_buf = blk_buf\<lparr>b_data := data, b_size := word_of_int right, b_index := index\<rparr> in
                 Option.bind (cfs_file_register_block sha1 st i blk_buf s)
                   (\<lambda>((_, st), s). bb_write_loop sha1 i buf sz offset (current_offset + uint (b_size blk_buf))
                      (buffer_index + (right - left)) st s))))
      else Some ((s32 sz, st), s))"

declare bb_write_loop.simps [code]

definition bb_write ::
  "(byte list \<Rightarrow> byte list) \<Rightarrow> bb_state \<Rightarrow> byte list \<Rightarrow> int \<Rightarrow> int \<Rightarrow> int \<Rightarrow> os \<Rightarrow> ((int \<times> bb_state) \<times> os) option" where
  "bb_write sha1 bb buf sz offset fh s =
     (case cfs_get_file (cfs bb) (s32 fh) of
        None \<Rightarrow> Some ((-1, bb), s)
      | Some i \<Rightarrow> do {
          ((r, st), s) \<leftarrow> bb_write_loop sha1 i buf sz offset offset 0 (cfs bb) s;
          Some ((r, bb\<lparr>cfs := st\<rparr>), s)
        })"

subsection \<open>Directories\<close>

text \<open>A \<open>DIR*\<close> is an integer, 0 for \<open>NULL\<close>. Hiding the block directory leaves \<open>fi->fh\<close> alone.\<close>

definition bb_opendir ::
  "(path \<Rightarrow> os \<Rightarrow> int \<times> os) \<Rightarrow> bb_state \<Rightarrow> path \<Rightarrow> int \<Rightarrow> os \<Rightarrow> ((int \<times> int) \<times> os) option" where
  "bb_opendir opendir bb path fh s =
     (if path = BLOCKS_DIRECTORY then Some ((- ENOENT, fh), s)
      else do {
        fpath \<leftarrow> bb_fullpath bb path;
        let (dp, s) = opendir fpath s;
        let s = log_msg s;
        let (retstat, s) = (if dp = 0 then log_error s else (0, s));
        Some ((retstat, u64 dp), s)
      })"

text \<open>
  \<open>readdir\<close> returns the next name or none at the end; \<open>filler\<close> is FUSE's, on the buffer it fills.
  \<open>de\<close> is the entry just read.
\<close>

partial_function (option) bb_readdir_loop ::
  "(int \<Rightarrow> os \<Rightarrow> string option \<times> os) \<Rightarrow> ('b \<Rightarrow> string \<Rightarrow> int \<times> 'b) \<Rightarrow> int \<Rightarrow> string \<Rightarrow> 'b \<Rightarrow> os
     \<Rightarrow> ((int \<times> 'b) \<times> os) option" where
  "bb_readdir_loop readdir filler dp de buf s =
     (let (full, buf) = (if de = BLOCKS_DIRECTORY then (0, buf) else filler buf de) in
      if full \<noteq> 0 then Some ((- ENOMEM, buf), s)
      else (case readdir dp s of
          (Some de, s) \<Rightarrow> bb_readdir_loop readdir filler dp de buf s
        | (None, s) \<Rightarrow> Some ((0, buf), s)))"

declare bb_readdir_loop.simps [code]

definition bb_readdir ::
  "(int \<Rightarrow> os \<Rightarrow> string option \<times> os) \<Rightarrow> ('b \<Rightarrow> string \<Rightarrow> int \<times> 'b) \<Rightarrow> 'b \<Rightarrow> int \<Rightarrow> os
     \<Rightarrow> ((int \<times> 'b) \<times> os) option" where
  "bb_readdir readdir filler buf fh s =
     (let dp = s64 fh; (de, s) = readdir dp s; s = log_msg s in
      case de of
        None \<Rightarrow> (let (retstat, s) = log_error s in Some ((retstat, buf), s))
      | Some de \<Rightarrow> bb_readdir_loop readdir filler dp de buf s)"

definition bb_releasedir :: "(int \<Rightarrow> os \<Rightarrow> int \<times> os) \<Rightarrow> int \<Rightarrow> os \<Rightarrow> int \<times> os" where
  "bb_releasedir closedir fh s = (let (_, s) = closedir (s64 fh) s in (0, s))"

definition bb_fsyncdir :: "os \<Rightarrow> int \<times> os" where
  "bb_fsyncdir s = (0, s)"

end
