(* ===== verification/Block_Store.thy ===== *)
theory Block_Store
  imports Storage
begin

text \<open>
  What the block storage promises its clients, as an interface, and that \<open>store_block\<close> and
  \<open>load_block\<close> provide it.
\<close>

subsection \<open>The contract of a content-addressed store\<close>

text \<open>
  Data are stored under a key computed from them. \<open>D\<close> is the data that keys tell apart.
\<close>

locale keyed_store =
  fixes inv :: "'s \<Rightarrow> bool"
    and D :: "'d set"
    and key :: "'d \<Rightarrow> 'k"
    and put :: "'d \<Rightarrow> 's \<Rightarrow> 's"
    and get :: "'k \<Rightarrow> 's \<Rightarrow> 'd option"
  assumes inv_put: "inv s \<Longrightarrow> d \<in> D \<Longrightarrow> inv (put d s)"
    and get_put: "inv s \<Longrightarrow> d \<in> D \<Longrightarrow> e \<in> D \<Longrightarrow>
      get (key e) (put d s) = (if e = d then Some e else get (key e) s)"
    and get_own: "inv s \<Longrightarrow> d \<in> D \<Longrightarrow> get (key d) s = None \<or> get (key d) s = Some d"
    and put_stored: "inv s \<Longrightarrow> d \<in> D \<Longrightarrow> get (key d) s = Some d \<Longrightarrow> put d s = s"
begin

lemma inv_puts: "inv s \<Longrightarrow> set ds \<subseteq> D \<Longrightarrow> inv (fold put ds s)"
  by (induction ds arbitrary: s) (simp_all add: inv_put)

lemma get_puts:
  "inv s \<Longrightarrow> set ds \<subseteq> D \<Longrightarrow> e \<in> D \<Longrightarrow>
   get (key e) (fold put ds s) = (if e \<in> set ds then Some e else get (key e) s)"
  by (induction ds arbitrary: s) (auto simp: inv_put get_put)

lemma puts_stored:
  "inv s \<Longrightarrow> set ds \<subseteq> D \<Longrightarrow> \<forall>d \<in> set ds. get (key d) s = Some d \<Longrightarrow> fold put ds s = s"
  by (induction ds arbitrary: s) (simp_all add: put_stored)

text \<open>Storing the same data again, in any order, changes nothing more.\<close>

lemma puts_again:
  assumes "inv s" "set ds \<subseteq> D" "set es \<subseteq> set ds"
  shows "fold put (ds @ es) s = fold put ds s"
proof -
  have "\<forall>d \<in> set es. get (key d) (fold put ds s) = Some d"
    using assms(2,3) get_puts [OF assms(1,2)] by (simp add: subset_iff)
  then show ?thesis
    using puts_stored [OF inv_puts [OF assms(1,2)], of es] assms(2,3) by simp
qed

end


subsection \<open>The block files provide it\<close>

text \<open>
  \<open>keys_ok sha D\<close>: the first 19 bytes of the hash, which are all that a block's name shows, tell
  the data in \<open>D\<close> apart. \<open>store_ok\<close>: the storage is in use, and each block file that belongs to
  some data of \<open>D\<close> holds a reference counter and these data.
\<close>

definition keys_ok :: "(byte list \<Rightarrow> byte list) \<Rightarrow> byte list set \<Rightarrow> bool" where
  "keys_ok sha D \<longleftrightarrow> inj_on (\<lambda>d. take 19 (sha d)) D \<and>
     (\<forall>d \<in> D. length (sha d) = HASH_LENGTH \<and> d \<noteq> [] \<and> length d \<le> BLOCK_SIZE)"

definition block_of :: "(byte list \<Rightarrow> byte list) \<Rightarrow> blk_store \<Rightarrow> byte list \<Rightarrow> path" where
  "block_of sha st d = block_path st (sha d)"

definition stored :: "(byte list \<Rightarrow> byte list) \<Rightarrow> blk_store \<Rightarrow> os \<Rightarrow> byte list \<Rightarrow> bool" where
  "stored sha st s d \<longleftrightarrow> (\<exists>r. reg_content s (block_of sha st d) = Some (enc64 r @ d))"

definition store_ok :: "(byte list \<Rightarrow> byte list) \<Rightarrow> byte list set \<Rightarrow> blk_store \<Rightarrow> os \<Rightarrow> bool" where
  "store_ok sha D st s \<longleftrightarrow> ready st s \<and> keys_ok sha D \<and>
     (\<forall>d \<in> D. names s (block_of sha st d) = None \<or> stored sha st s d)"

definition put_block :: "(byte list \<Rightarrow> byte list) \<Rightarrow> blk_store \<Rightarrow> byte list \<Rightarrow> os \<Rightarrow> os" where
  "put_block sha st d s = snd (store_block st d (length d) (sha d) s)"

definition get_block :: "blk_store \<Rightarrow> byte list \<Rightarrow> os \<Rightarrow> byte list option" where
  "get_block st h s = (case load_block st h [] 0 (replicate 8 0) s of
     Some ((r, d, n, refs), _) \<Rightarrow> if r = 0 then Some d else None | None \<Rightarrow> None)"

lemma reg_content_add_block_file [simp]:
  "os_wf s \<Longrightarrow> reg_content (add_block_file p c s) q = (if q = p then Some c else reg_content s q)"
  by (force simp: reg_content_def os_wf_def split: option.splits)

lemma keys_okD:
  assumes "keys_ok sha D" "d \<in> D"
  shows "length (sha d) = HASH_LENGTH" "d \<noteq> []" "length d \<le> 4096"
  using assms by (simp_all add: keys_ok_def)

lemma block_of_inject:
  "storage_dir st \<Longrightarrow> keys_ok sha D \<Longrightarrow> d \<in> D \<Longrightarrow> e \<in> D \<Longrightarrow> block_of sha st d = block_of sha st e \<longleftrightarrow> d = e"
  by (auto simp: block_of_def keys_okD block_path_inject) (auto simp: keys_ok_def inj_on_def)

lemma stored_names: "stored sha st s d \<Longrightarrow> names s (block_of sha st d) \<noteq> None"
  by (auto simp: stored_def reg_content_Some)

lemma store_okD:
  assumes "store_ok sha D st s"
  shows "ready st s" "ideal s" "os_wf s" "keys_ok sha D" "storage_dir st"
    "d \<in> D \<Longrightarrow> names s (block_of sha st d) \<noteq> None \<Longrightarrow> stored sha st s d"
  using assms by (auto simp: store_ok_def ready_def)

lemma reg_content_after_store:
  "os_wf s \<Longrightarrow> reg_content (after_store p d s) q =
     (if names s p = None \<and> q = p then Some (enc64 1 @ d) else reg_content s q)"
  by (simp add: after_store_def)

lemma stored_after_store:
  assumes "store_ok sha D st s" "d \<in> D"
  shows "stored sha st (after_store (block_of sha st d) d s) d"
    and "stored sha st s e \<Longrightarrow> stored sha st (after_store (block_of sha st d) d s) e"
proof -
  note ok = store_okD [OF assms(1)]
  show "stored sha st (after_store (block_of sha st d) d s) d"
    using ok(3) ok(6) [OF assms(2)]
    by (cases "names s (block_of sha st d) = None") (auto simp: stored_def reg_content_after_store)
  show "stored sha st (after_store (block_of sha st d) d s) e" if "stored sha st s e"
    using stored_names [OF that] that ok(3)
    by (cases "block_of sha st e = block_of sha st d") (auto simp: stored_def reg_content_after_store)
qed

lemma names_after_store:
  "names (after_store p c s) q = None \<longleftrightarrow> names s q = None \<and> q \<noteq> p"
  by (auto simp: after_store_def)

lemma names_after_store_keep [simp]: "names s q = Some n \<Longrightarrow> names (after_store p c s) q = Some n"
  by (auto simp: after_store_def)

lemma store_ok_after_store:
  assumes "store_ok sha D st s" "d \<in> D"
  shows "store_ok sha D st (after_store (block_of sha st d) d s)"
proof -
  note ok = store_okD [OF assms(1)]
  have "stored sha st (after_store (block_of sha st d) d s) e"
    if "e \<in> D" "names (after_store (block_of sha st d) d s) (block_of sha st e) \<noteq> None" for e
  proof (cases "e = d")
    case False
    then have "block_of sha st e \<noteq> block_of sha st d"
      using block_of_inject [OF ok(5,4) that(1) assms(2)] by simp
    then show ?thesis
      using that ok(6) stored_after_store(2) [OF assms] by (simp add: names_after_store)
  qed (use stored_after_store(1) [OF assms] in simp)
  moreover have "ready st (after_store (block_of sha st d) d s)"
    using ready_after_store [OF ok(1)] keys_okD(1) [OF ok(4) assms(2)] by (simp add: block_of_def)
  ultimately show ?thesis using ok(4) unfolding store_ok_def by blast
qed

lemma put_block_eq:
  "store_ok sha D st s \<Longrightarrow> d \<in> D \<Longrightarrow> put_block sha st d s = after_store (block_of sha st d) d s"
  using keys_okD [of sha D d] by (simp add: put_block_def store_ok_def store_block_ready block_of_def)

lemma ready_ideal: "ready st s \<Longrightarrow> ideal s"
  by (simp add: ready_def)

lemma get_block_eq:
  assumes "store_ok sha D st s" "d \<in> D"
  shows "get_block st (sha d) s = (if names s (block_of sha st d) = None then None else Some d)"
proof (cases "names s (block_of sha st d) = None")
  case True
  then show ?thesis
    using store_okD(2) [OF assms(1)] by (simp add: get_block_def load_block_missing block_of_def)
next
  case False
  then obtain r where "reg_content s (block_path st (sha d)) = Some (enc64 r @ d)"
    using assms by (auto simp: store_ok_def stored_def block_of_def)
  moreover obtain fd where "first_free s = Some fd" using assms by (auto simp: store_ok_def ready_def)
  ultimately show ?thesis
    using False keys_okD [OF store_okD(4) [OF assms(1)] assms(2)] store_okD(2) [OF assms(1)]
    by (simp add: get_block_def load_block_live overlay_def)
qed

interpretation bs: keyed_store "store_ok sha D st" D sha "put_block sha st" "get_block st" for sha D st
proof
  fix s d
  assume *: "store_ok sha D st s" "d \<in> D"
  then show "store_ok sha D st (put_block sha st d s)"
    by (simp add: put_block_eq store_ok_after_store)
  show "get_block st (sha d) s = None \<or> get_block st (sha d) s = Some d"
    using * by (simp add: get_block_eq)
  show "put_block sha st d s = s" if "get_block st (sha d) s = Some d"
    using that * by (auto simp: get_block_eq put_block_eq after_store_def split: if_splits)
  show "get_block st (sha e) (put_block sha st d s) = (if e = d then Some e else get_block st (sha e) s)"
    if "e \<in> D" for e
  proof -
    note ok = store_okD [OF *(1)]
    have "block_of sha st e = block_of sha st d \<longleftrightarrow> e = d"
      using block_of_inject [OF ok(5,4) that *(2)] .
    then show ?thesis
      unfolding put_block_eq [OF *] get_block_eq [OF store_ok_after_store [OF *] that] get_block_eq [OF *(1) that]
      by (simp add: names_after_store)
  qed
qed

end
