(* ===== verification/File_Map.thy ===== *)
theory File_Map
  imports Block_File Block_Store
begin

text \<open>
  A CFS file as what it stands for: a list of block indices with their data. The relation
  \<open>opened\<close> ties an open file, its table on disk and the block files to such a list.
\<close>

type_synonym blocks = "(w64 \<times> byte list) list"

definition table_of :: "(byte list \<Rightarrow> byte list) \<Rightarrow> blocks \<Rightarrow> table" where
  "table_of sha af = map (\<lambda>(ix, d). (ix, sha d)) af"

text \<open>\<open>apart\<close>: no block file of \<open>D\<close> is the file with inode \<open>n\<close>.\<close>

definition apart :: "(byte list \<Rightarrow> byte list) \<Rightarrow> byte list set \<Rightarrow> blk_store \<Rightarrow> nat \<Rightarrow> os \<Rightarrow> bool" where
  "apart sha D st n s \<longleftrightarrow> (\<forall>d \<in> D. names s (block_of sha st d) \<noteq> Some n)"

definition on_disk ::
  "(byte list \<Rightarrow> byte list) \<Rightarrow> byte list set \<Rightarrow> cfs_state \<Rightarrow> nat \<Rightarrow> blocks \<Rightarrow> ofile \<Rightarrow> os \<Rightarrow> bool" where
  "on_disk sha D st i af f s \<longleftrightarrow>
     store_ok sha D (storage st) s \<and> lock st = Unlocked \<and> i < length (files st) \<and>
     live s (f_fd (files st ! i)) f
       (file_image (f_size (files st ! i)) (f_total_blocks (files st ! i)) (table_of sha af)) \<and>
     of_rd f \<and> of_wr f \<and> f_total_blocks (files st ! i) = of_nat (length af) \<and>
     distinct (map fst af) \<and> 23 + 28 * length af < 2147483648 \<and>
     (\<forall>d \<in> snd ` set af. d \<in> D \<and> names s (block_of sha (storage st) d) \<noteq> None) \<and>
     apart sha D (storage st) (of_ino f) s \<and>
     names s (f_path (files st ! i)) = Some (of_ino f) \<and> f_path (files st ! i) \<notin> block_of sha (storage st) ` D"

definition opened ::
  "(byte list \<Rightarrow> byte list) \<Rightarrow> byte list set \<Rightarrow> cfs_state \<Rightarrow> nat \<Rightarrow> blocks \<Rightarrow> os \<Rightarrow> bool" where
  "opened sha D st i af s \<longleftrightarrow> (\<exists>f. on_disk sha D st i af f s)"

lemma table_of_simps [simp]:
  "table_of sha [] = []"
  "table_of sha ((ix, d) # af) = (ix, sha d) # table_of sha af"
  "table_of sha (af @ bf) = table_of sha af @ table_of sha bf"
  "length (table_of sha af) = length af"
  "fst ` set (table_of sha af) = fst ` set af"
  by (simp_all add: table_of_def image_image case_prod_beta)

lemma table_of_nth: "k < length af \<Longrightarrow> table_of sha af ! k = (fst (af ! k), sha (snd (af ! k)))"
  by (simp add: table_of_def case_prod_beta)

lemma table_of_ok: "keys_ok sha D \<Longrightarrow> snd ` set af \<subseteq> D \<Longrightarrow> table_ok (table_of sha af)"
  by (auto simp: table_ok_def table_of_def keys_ok_def)

lemma entry_pos_table_of:
  "entry_pos ix (table_of sha af) = None \<Longrightarrow> map_of af ix = None"
  "entry_pos ix (table_of sha af) = Some k \<Longrightarrow> map_of af ix = Some (snd (af ! k)) \<and> k < length af"
  by (induction af arbitrary: k) (auto split: if_splits)

lemma on_diskD:
  assumes "on_disk sha D st i af f s"
  shows "store_ok sha D (storage st) s" "ready (storage st) s" "lock st = Unlocked" "i < length (files st)"
    "live s (f_fd (files st ! i)) f
       (file_image (f_size (files st ! i)) (f_total_blocks (files st ! i)) (table_of sha af))"
    "of_rd f" "of_wr f" "table_ok (table_of sha af)"
    "f_total_blocks (files st ! i) = of_nat (length (table_of sha af))"
    "length (file_image (f_size (files st ! i)) (f_total_blocks (files st ! i)) (table_of sha af)) < 2147483648"
proof -
  show ok: "store_ok sha D (storage st) s" using assms by (simp add: on_disk_def)
  then show "ready (storage st) s" by (rule store_okD)
  have "snd ` set af \<subseteq> D" using assms by (auto simp: on_disk_def)
  then show "table_ok (table_of sha af)"
    using table_of_ok store_okD(4) [OF ok] by blast
  then show "length (file_image (f_size (files st ! i)) (f_total_blocks (files st ! i)) (table_of sha af)) < 2147483648"
    using assms by (simp add: on_disk_def)
  show "live s (f_fd (files st ! i)) f
       (file_image (f_size (files st ! i)) (f_total_blocks (files st ! i)) (table_of sha af))"
    using assms unfolding on_disk_def by blast
qed (use assms in \<open>simp_all add: on_disk_def\<close>)

text \<open>What is stored stays stored when an open file apart from the block files changes.\<close>

lemma reg_content_upd_apart:
  "names s p \<noteq> Some (of_ino g) \<Longrightarrow> reg_content (upd_file s fd g c) p = reg_content s p"
  by (auto simp: reg_content_def split: option.splits)

lemma store_ok_upd_file:
  assumes "store_ok sha D st s" "live s fd f c" "of_ino g = of_ino f" "apart sha D st (of_ino f) s"
  shows "store_ok sha D st (upd_file s fd g c')"
  using assms ready_upd_file [OF _ assms(2,3)]
  by (auto simp: store_ok_def stored_def apart_def reg_content_upd_apart)

lemma apart_after_store:
  assumes "apart sha D st n s" "n < next_ino s"
  shows "apart sha D st n (after_store p d s)"
  using assms by (auto simp: apart_def after_store_def)

text \<open>
  What an operation on the file of name \<open>p\<close>, open as \<open>fd\<close>, may change of the rest: it may name new block
  files.
\<close>

definition evolves ::
  "(byte list \<Rightarrow> byte list) \<Rightarrow> byte list set \<Rightarrow> blk_store \<Rightarrow> path \<Rightarrow> int \<Rightarrow> os \<Rightarrow> os \<Rightarrow> bool" where
  "evolves sha D bs p fd s s' \<longleftrightarrow>
     length (fdtab s') = length (fdtab s) \<and> (\<forall>fd'. get_fd s' fd' = None \<longleftrightarrow> get_fd s fd' = None) \<and>
     (\<forall>fd'. fd' \<noteq> fd \<longrightarrow> get_fd s' fd' = get_fd s fd') \<and>
     (\<forall>q m. names s q = Some m \<longrightarrow> names s' q = Some m) \<and>
     (\<forall>q m. names s' q = Some m \<longrightarrow> names s q = Some m \<or> next_ino s \<le> m \<and> q \<in> block_of sha bs ` D) \<and>
     (\<forall>m < next_ino s. names s p \<noteq> Some m \<longrightarrow> inodes s' m = inodes s m) \<and>
     next_ino s \<le> next_ino s' \<and> sext s' = sext s \<and> refs_valid s' = refs_valid s"

lemma evolves_refl [simp]: "evolves sha D bs p fd s s"
  by (simp add: evolves_def)

lemma evolves_refs: "evolves sha D bs p fd s s' \<Longrightarrow> refs_valid s' = refs_valid s"
  by (simp add: evolves_def)

lemma evolves_trans: "evolves sha D bs p fd s s1 \<Longrightarrow> evolves sha D bs p fd s1 s2 \<Longrightarrow> evolves sha D bs p fd s s2"
  unfolding evolves_def by (intro conjI allI impI; metis le_trans less_le_trans not_le)

lemma evolves_after_store: "d \<in> D \<Longrightarrow> evolves sha D bs p fd s (after_store (block_of sha bs d) d s)"
  by (auto simp: evolves_def after_store_def) (simp add: add_block_file_def new_node_def)

lemma evolves_upd_file:
  assumes "live s fd f c" "of_ino g = of_ino f" "names s p = Some (of_ino f)"
  shows "evolves sha D bs p fd s (upd_file s fd g c')"
  using assms live_range [OF assms(1)] get_fd_upd_file [OF assms(1), of g c']
  by (auto simp: evolves_def) (auto simp: upd_file_def live_def)

lemma evolves_stored:
  assumes "d \<in> D" "live s fd f c" "os_wf s" "of_ino g = of_ino f" "names s p = Some (of_ino f)"
  shows "evolves sha D bs p fd s (upd_file (after_store (block_of sha bs d) d s) fd g c')"
  by (rule evolves_trans [OF evolves_after_store [OF assms(1)]],
      rule evolves_upd_file [OF live_after_store [OF assms(3,2)] assms(4)]) (simp add: assms(5))

lemma on_disk_seek:
  assumes "on_disk sha D st i af f s"
  defines "file \<equiv> files st ! i"
  shows "on_disk sha D st i af (f\<lparr>of_pos := p\<rparr>)
    (upd_file s (f_fd file) (f\<lparr>of_pos := p\<rparr>) (file_image (f_size file) (f_total_blocks file) (table_of sha af)))"
proof -
  note d = on_diskD [OF assms(1)]
  have a: "apart sha D (storage st) (of_ino f) s" using assms(1) by (simp add: on_disk_def)
  show ?thesis
    using assms(1) store_ok_upd_file [OF d(1,5) _ a, of "f\<lparr>of_pos := p\<rparr>"] live_range [OF d(5)]
    by (simp add: on_disk_def file_def apart_def)
qed

text \<open>A block that the file has is read only if the argument that the call of \<open>load_block\<close> lacks happens to be valid.\<close>

lemma read_block_map:
  assumes "opened sha D st i af s"
  shows "\<exists>s'. cfs_file_read_block st i ix buff s =
     (case map_of af ix of
        None \<Rightarrow> Some ((0, buff, st), s')
      | Some d \<Rightarrow> if refs_valid s
          then Some ((1, buff\<lparr>b_data := overlay (b_data buff) d, b_size := of_nat (length d), b_index := ix\<rparr>, st), s')
          else None)
    \<and> opened sha D st i af s' \<and> evolves sha D (storage st) (f_path (files st ! i)) (f_fd (files st ! i)) s s'"
proof -
  obtain f where f: "on_disk sha D st i af f s" using assms by (auto simp: opened_def)
  note d = on_diskD [OF f]
  have ev: "evolves sha D (storage st) (f_path (files st ! i)) (f_fd (files st ! i)) s (upd_file s (f_fd (files st ! i)) (f\<lparr>of_pos := p\<rparr>)
      (file_image (f_size (files st ! i)) (f_total_blocks (files st ! i)) (table_of sha af)))" for p
    using evolves_upd_file [OF d(5)] f by (simp add: on_disk_def)
  show ?thesis
  proof (cases "entry_pos ix (table_of sha af)")
    case None
    then show ?thesis
      using read_block_missing [OF d(2,3,4) refl d(5) refl d(6,8,9,10) None, of buff] on_disk_seek [OF f] ev entry_pos_table_of(1)
      by (fastforce simp: opened_def)
  next
    case (Some k)
    note k = entry_pos_table_of(2) [OF Some]
    let ?d = "snd (af ! k)"
    have mem: "?d \<in> D" "names s (block_of sha (storage st) ?d) \<noteq> None"
      using f k nth_mem [of k af] by (auto simp: on_disk_def)
    then obtain r where r: "reg_content s (block_path (storage st) (snd (table_of sha af ! k))) = Some (enc64 r @ ?d)"
      using store_okD(6) [OF d(1)] k by (auto simp: stored_def block_of_def table_of_nth)
    note kd = keys_okD [OF store_okD(4) [OF d(1)] mem(1)]
    show ?thesis
      using read_block_found [OF d(2,3,4) refl d(5) refl d(6,8,9,10) Some r kd(2), of buff] on_disk_seek [OF f] ev k kd(3)
      by (fastforce simp: opened_def min_absorb1)
  qed
qed

lemma register_block_map:
  assumes "opened sha D st i af s" "b_index b \<notin> fst ` set af" "51 + 28 * length af < 2147483648"
    and d: "d = take (unat (b_size b)) (b_data b)" "d \<in> D" "unat (b_size b) \<le> length (b_data b)"
  defines "file' \<equiv> (files st ! i)\<lparr>f_total_blocks := of_nat (length af) + 1, f_size := f_size (files st ! i) + b_size b\<rparr>"
  shows "\<exists>s'. cfs_file_register_block sha st i b s = Some ((0, st\<lparr>files := (files st)[i := file']\<rparr>), s') \<and>
    opened sha D (st\<lparr>files := (files st)[i := file']\<rparr>) i (af @ [(b_index b, d)]) s' \<and>
    evolves sha D (storage st) (f_path (files st ! i)) (f_fd (files st ! i)) s s'"
proof -
  obtain f where f: "on_disk sha D st i af f s" using assms(1) by (auto simp: opened_def)
  note od = on_diskD [OF f]
  note kd = keys_okD [OF store_okD(4) [OF od(1)] d(2)]
  have a: "apart sha D (storage st) (of_ino f) s" and ino: "of_ino f < next_ino s"
    using f od(2,5) by (auto simp: on_disk_def ready_def os_wf_def live_def)
  have sm: "51 + 28 * length (table_of sha af) < 2147483648" "b_index b \<notin> fst ` set (table_of sha af)"
    "unat (b_size b) < 2147483648" "file' = (files st ! i)\<lparr>f_total_blocks := of_nat (length (table_of sha af)) + 1,
       f_size := f_size (files st ! i) + b_size b\<rparr>"
    using assms(2,3) d kd(3) by (simp_all add: file'_def)
  let ?s1 = "after_store (block_of sha (storage st) d) d s" and ?st = "st\<lparr>files := (files st)[i := file']\<rparr>"
  let ?s2 = "upd_file ?s1 (f_fd (files st ! i)) (f\<lparr>of_pos := 23\<rparr>)
    (file_image (f_size file') (f_total_blocks file') (table_of sha (af @ [(b_index b, d)])))"
  have "cfs_file_register_block sha st i b s = Some ((0, ?st), ?s2)"
    using register_block_append [OF od(2-4) refl od(5,6,7,8,9) sm(1,2) refl _ d(3) sm(3,4), of sha] d kd(1)
    by (simp add: block_of_def)
  moreover have "on_disk sha D ?st i (af @ [(b_index b, d)]) (f\<lparr>of_pos := 23\<rparr>) ?s2"
  proof -
    have l: "live ?s1 (f_fd (files st ! i)) f (file_image (f_size (files st ! i)) (f_total_blocks (files st ! i)) (table_of sha af))"
      using live_after_store [OF _ od(5)] store_okD(3) [OF od(1)] by simp
    have a1: "apart sha D (storage st) (of_ino f) ?s1" using apart_after_store [OF a ino] .
    have "store_ok sha D (storage st) ?s2"
      using store_ok_after_store [OF od(1) d(2)] l a1 by (intro store_ok_upd_file) simp_all
    then show ?thesis
      using f a1 d(2) assms(2,3) live_range [OF l]
      by (auto simp: on_disk_def file'_def apart_def names_after_store)
  qed
  moreover have "evolves sha D (storage st) (f_path (files st ! i)) (f_fd (files st ! i)) s ?s2"
    by (rule evolves_stored [OF d(2) od(5) store_okD(3) [OF od(1)]]) (use f in \<open>simp_all add: on_disk_def\<close>)
  ultimately show ?thesis by (auto simp: opened_def)
qed

text \<open>
  Registering a block at an index the file already has: the table keeps the old hash, and the size
  loses the reference counter's eight bytes.
\<close>

lemma register_block_lost:
  assumes "opened sha D st i af s" "sext s" "map_of af (b_index b) = Some e"
    and d: "d = take (unat (b_size b)) (b_data b)" "d \<in> D" "unat (b_size b) \<le> length (b_data b)"
  defines "file' \<equiv> (files st ! i)\<lparr>f_size := f_size (files st ! i) - of_nat (8 + length e) + b_size b\<rparr>"
  shows "\<exists>s'. cfs_file_register_block sha st i b s = Some ((0, st\<lparr>files := (files st)[i := file']\<rparr>), s') \<and>
    opened sha D (st\<lparr>files := (files st)[i := file']\<rparr>) i af s' \<and> stored sha (storage st) s' d \<and>
    evolves sha D (storage st) (f_path (files st ! i)) (f_fd (files st ! i)) s s'"
proof -
  obtain f where f: "on_disk sha D st i af f s" using assms(1) by (auto simp: opened_def)
  note od = on_diskD [OF f]
  note kd = keys_okD [OF store_okD(4) [OF od(1)] d(2)]
  have a: "apart sha D (storage st) (of_ino f) s" and ino: "of_ino f < next_ino s"
    using f od(2,5) by (auto simp: on_disk_def ready_def os_wf_def live_def)
  obtain k where k: "entry_pos (b_index b) (table_of sha af) = Some k" "snd (af ! k) = e" "k < length af"
    using entry_pos_table_of [of "b_index b" sha af] assms(3) by (cases "entry_pos (b_index b) (table_of sha af)") auto
  have e: "e \<in> D" "names s (block_of sha (storage st) e) \<noteq> None"
    using f k nth_mem [of k af] by (auto simp: on_disk_def)
  let ?s1 = "after_store (block_of sha (storage st) d) d s" and ?st = "st\<lparr>files := (files st)[i := file']\<rparr>"
  have ok1: "store_ok sha D (storage st) ?s1" using store_ok_after_store [OF od(1) d(2)] .
  obtain r where r: "reg_content ?s1 (block_path (storage st) (snd (table_of sha af ! k))) = Some (enc64 r @ e)"
    using store_okD(6) [OF ok1 e(1)] e(2) k by (auto simp: stored_def block_of_def table_of_nth names_after_store)
  have sm: "unat (b_size b) < 2147483648" "length (enc64 r @ e) < 2147483648"
    "file' = (files st ! i)\<lparr>f_size := f_size (files st ! i) - of_nat (length (enc64 r @ e)) + b_size b\<rparr>"
    using d kd(3) keys_okD(3) [OF store_okD(4) [OF od(1)] e(1)] by (simp_all add: file'_def)
  let ?s2 = "upd_file ?s1 (f_fd (files st ! i)) (f\<lparr>of_pos := 23\<rparr>)
    (file_image (f_size file') (f_total_blocks file') (table_of sha af))"
  have "cfs_file_register_block sha st i b s = Some ((0, ?st), ?s2)"
    using register_block_existing [OF od(2-4) assms(2) refl od(5) refl od(6-10) k(1) refl _ d(3) sm(1) refl _ sm(2,3)] r d kd(1)
    by (simp add: block_of_def)
  moreover have l: "live ?s1 (f_fd (files st ! i)) f (file_image (f_size (files st ! i)) (f_total_blocks (files st ! i)) (table_of sha af))"
    using live_after_store [OF _ od(5)] store_okD(3) [OF od(1)] by simp
  moreover have a1: "apart sha D (storage st) (of_ino f) ?s1" using apart_after_store [OF a ino] .
  moreover have "stored sha (storage st) ?s2 d"
    using stored_after_store(1) [OF od(1) d(2)] a1 d(2) by (simp add: stored_def apart_def reg_content_upd_apart)
  moreover have "on_disk sha D ?st i af (f\<lparr>of_pos := 23\<rparr>) ?s2"
  proof -
    have "store_ok sha D (storage st) ?s2"
      using ok1 l a1 by (intro store_ok_upd_file) simp_all
    then show ?thesis
      using f a1 live_range [OF l] by (auto simp: on_disk_def file'_def apart_def names_after_store)
  qed
  moreover have "evolves sha D (storage st) (f_path (files st ! i)) (f_fd (files st ! i)) s ?s2"
    by (rule evolves_stored [OF d(2) od(5) store_okD(3) [OF od(1)]]) (use f in \<open>simp_all add: on_disk_def\<close>)
  ultimately show ?thesis by (auto simp: opened_def)
qed

subsection \<open>The contract of a file of blocks\<close>

text \<open>
  Reading a block finds what the list has; writing at a new index extends the list, as long as
  there is room.
\<close>

locale block_file =
  fixes holds :: "'st \<Rightarrow> blocks \<Rightarrow> 's \<Rightarrow> bool"
    and D :: "byte list set"
    and room :: nat
    and rd :: "'st \<Rightarrow> w64 \<Rightarrow> 's \<Rightarrow> (byte list option \<times> 's) option"
    and wr :: "'st \<Rightarrow> w64 \<Rightarrow> byte list \<Rightarrow> 's \<Rightarrow> ('st \<times> 's) option"
  assumes rd: "holds st af s \<Longrightarrow> \<exists>s'. rd st ix s = Some (map_of af ix, s') \<and> holds st af s'"
    and wr: "holds st af s \<Longrightarrow> ix \<notin> fst ` set af \<Longrightarrow> d \<in> D \<Longrightarrow> length af < room \<Longrightarrow>
      \<exists>st' s'. wr st ix d s = Some (st', s') \<and> holds st' (af @ [(ix, d)]) s'"
begin

primrec wrs :: "blocks \<Rightarrow> 'st \<Rightarrow> 's \<Rightarrow> ('st \<times> 's) option" where
  "wrs [] st s = Some (st, s)"
| "wrs (b # bs) st s = Option.bind (wr st (fst b) (snd b) s) (\<lambda>(st, s). wrs bs st s)"

primrec rds :: "w64 list \<Rightarrow> 'st \<Rightarrow> 's \<Rightarrow> (byte list option list \<times> 's) option" where
  "rds [] st s = Some ([], s)"
| "rds (ix # ixs) st s = Option.bind (rd st ix s) (\<lambda>(d, s). map_option (apfst ((#) d)) (rds ixs st s))"

lemma wrs_holds:
  assumes "holds st af s" "distinct (map fst (af @ bs))" "snd ` set bs \<subseteq> D" "length af + length bs \<le> room"
  shows "\<exists>st' s'. wrs bs st s = Some (st', s') \<and> holds st' (af @ bs) s'"
  using assms
proof (induction bs arbitrary: st s af)
  case (Cons b bs)
  then obtain st1 s1 where "wr st (fst b) (snd b) s = Some (st1, s1)" "holds st1 (af @ [(fst b, snd b)]) s1"
    using wr [of st af s "fst b" "snd b"] by auto
  with Cons.IH [of st1 "af @ [b]" s1] Cons.prems show ?case by simp
qed auto

lemma rds_holds: "holds st af s \<Longrightarrow> \<exists>s'. rds ixs st s = Some (map (map_of af) ixs, s') \<and> holds st af s'"
proof (induction ixs arbitrary: s)
  case (Cons ix ixs)
  then obtain s1 where "rd st ix s = Some (map_of af ix, s1)" "holds st af s1" using rd by blast
  with Cons.IH [of s1] show ?case by auto
qed simp

text \<open>Everything written is read back, and nothing else has changed.\<close>

lemma wrs_rds:
  assumes "holds st af s" "distinct (map fst (af @ bs))" "snd ` set bs \<subseteq> D" "length af + length bs \<le> room"
  shows "\<exists>st' s' s''. wrs bs st s = Some (st', s') \<and>
    rds (map fst bs @ map fst af) st' s' = Some (map (Some \<circ> snd) (bs @ af), s'') \<and> holds st' (af @ bs) s''"
proof -
  obtain st' s' where w: "wrs bs st s = Some (st', s')" "holds st' (af @ bs) s'"
    using wrs_holds [OF assms] by blast
  have "map (map_of (af @ bs)) (map fst bs @ map fst af) = map (Some \<circ> snd) (bs @ af)"
  proof -
    have "\<forall>x \<in> set (af @ bs). map_of (af @ bs) (fst x) = Some (snd x)"
      using assms(2) by (metis map_of_is_SomeI prod.collapse)
    then show ?thesis by (simp del: map_of_append)
  qed
  with w rds_holds [OF w(2), of "map fst bs @ map fst af"] show ?thesis by auto
qed

end

definition read_data :: "nat \<Rightarrow> cfs_state \<Rightarrow> w64 \<Rightarrow> os \<Rightarrow> (byte list option \<times> os) option" where
  "read_data i st ix s = map_option
     (\<lambda>((r, b, _), s'). (if r = 1 then Some (take (unat (b_size b)) (b_data b)) else None, s'))
     (cfs_file_read_block st i ix \<lparr>b_index = 0, b_size = 0, b_data = replicate BLOCK_SIZE 0\<rparr> s)"

definition write_data ::
  "(byte list \<Rightarrow> byte list) \<Rightarrow> nat \<Rightarrow> cfs_state \<Rightarrow> w64 \<Rightarrow> byte list \<Rightarrow> os \<Rightarrow> (cfs_state \<times> os) option" where
  "write_data sha i st ix d s = map_option (\<lambda>((_, st'), s'). (st', s'))
     (cfs_file_register_block sha st i \<lparr>b_index = ix, b_size = of_nat (length d), b_data = d\<rparr> s)"

text \<open>With more than 76695842 pairs a file is longer than \<open>INT_MAX\<close>, the range of \<open>s_lseek\<close>'s result.\<close>

abbreviation (input) MAX_PAIRS :: nat where "MAX_PAIRS \<equiv> 76695843"

lemma opened_store: "opened sha D st i af s \<Longrightarrow> store_ok sha D (storage st) s"
  by (auto simp: opened_def on_disk_def)

lemma opened_data: "opened sha D st i af s \<Longrightarrow> map_of af ix = Some d \<Longrightarrow> d \<in> D"
  by (force simp: opened_def on_disk_def dest: map_of_SomeD)

lemma unat_of_nat_small: "n \<le> 4096 \<Longrightarrow> unat (of_nat n :: w64) = n"
  by (simp add: unat_of_nat take_bit_nat_eq_self)

interpretation bf: block_file "\<lambda>st af s. opened sha D st i af s \<and> refs_valid s" D MAX_PAIRS "read_data i" "write_data sha i" for sha D i
proof
  fix st af s ix d
  assume "opened sha D st i af s \<and> refs_valid s"
  then have o: "opened sha D st i af s" and rv: "refs_valid s" by simp_all
  note k = keys_okD [OF store_okD(4) [OF opened_store [OF o]]]
  show "\<exists>s'. read_data i st ix s = Some (map_of af ix, s') \<and> opened sha D st i af s' \<and> refs_valid s'"
    using rv read_block_map [OF o, of ix "\<lparr>b_index = 0, b_size = 0, b_data = replicate BLOCK_SIZE 0\<rparr>"] k(3) [OF opened_data [OF o]]
    by (cases "map_of af ix") (force simp: read_data_def evolves_def overlay_def unat_of_nat_small)+
  assume "ix \<notin> fst ` set af" "d \<in> D" "length af < MAX_PAIRS"
  then show "\<exists>st' s'. write_data sha i st ix d s = Some (st', s') \<and> opened sha D st' i (af @ [(ix, d)]) s' \<and> refs_valid s'"
    using rv register_block_map [OF o, of "\<lparr>b_index = ix, b_size = of_nat (length d), b_data = d\<rparr>" d] k(3) [of d]
    by (auto simp: write_data_def unat_of_nat_small dest: evolves_refs)
qed

end
