(* ===== verification/Bbfs_Data.thy ===== *)
theory Bbfs_Data
  imports Bbfs File_Map
begin

text \<open>
  Reading and writing at block boundaries, on an open file in an environment without faults.
\<close>

text \<open>The blocks a write of \<open>bs\<close> from block \<open>a\<close> on makes, and the data of a block when it is read.\<close>

fun chunks :: "nat \<Rightarrow> byte list \<Rightarrow> blocks" where
  "chunks a bs = (if bs = [] then [] else (of_nat a, take BLOCK_SIZE bs) # chunks (Suc a) (drop BLOCK_SIZE bs))"

definition fetch :: "blocks \<Rightarrow> nat \<Rightarrow> byte list" where
  "fetch af a = (case map_of af (of_nat a) of None \<Rightarrow> replicate BLOCK_SIZE 0 | Some d \<Rightarrow> d)"

fun pages :: "blocks \<Rightarrow> nat \<Rightarrow> byte list \<Rightarrow> byte list" where
  "pages af a bs = (if bs = [] then [] else
     overlay (take BLOCK_SIZE bs) (fetch af a) @ pages af (Suc a) (drop BLOCK_SIZE bs))"

declare chunks.simps [simp del] pages.simps [simp del]

text \<open>The entry of file \<open>i\<close> changes only in its size and number of blocks.\<close>

definition advanced :: "nat \<Rightarrow> nat \<Rightarrow> cfs_state \<Rightarrow> cfs_state \<Rightarrow> bool" where
  "advanced i n st st' \<longleftrightarrow> (\<exists>sz k. st' = st\<lparr>files := (files st)[i := (files st ! i)\<lparr>f_total_blocks := k, f_size := sz\<rparr>]\<rparr> \<and>
     sz = f_size (files st ! i) + of_nat n)"

lemma advanced_0: "advanced i 0 st st"
  unfolding advanced_def
  by (rule exI [of _ "f_size (files st ! i)"], rule exI [of _ "f_total_blocks (files st ! i)"]) (cases st, simp)

lemma advanced_trans: "advanced i m st st1 \<Longrightarrow> advanced i n st1 st2 \<Longrightarrow> i < length (files st) \<Longrightarrow> advanced i (m + n) st st2"
  by (fastforce simp: advanced_def add.assoc)

lemma advanced_frame:
  "advanced i n st st' \<Longrightarrow> storage st' = storage st \<and> fds st' = fds st \<and> n_fds st' = n_fds st \<and> lock st' = lock st \<and>
     length (files st') = length (files st)"
  "advanced i n st st' \<Longrightarrow> i < length (files st) \<Longrightarrow> f_path (files st' ! i) = f_path (files st ! i) \<and>
     f_fd (files st' ! i) = f_fd (files st ! i) \<and> f_size (files st' ! i) = f_size (files st ! i) + of_nat n"
  by (auto simp: advanced_def)

lemma opened_range: "opened sha D st i af s \<Longrightarrow> i < length (files st)"
  by (auto simp: opened_def on_disk_def)

lemma mem_copy_front:
  assumes "n \<le> length dst" "length pre + n \<le> length src" "src = pre @ rest"
  shows "mem_copy dst 0 src (int (length pre)) (int n) = Some (overlay dst (take n rest))"
  using assms by (auto simp: mem_copy_def mem_store_def overlay_def)

lemma mem_copy_back:
  assumes "length pre + n \<le> length dst" "n \<le> length src" "dst = pre @ rest" "p = int (length pre)"
  shows "mem_copy dst p src 0 (int n) = Some (pre @ overlay rest (take n src))"
  using assms by (auto simp: mem_copy_def mem_store_def overlay_def nat_add_distrib)

lemma mem_fill_back:
  assumes "length pre + n \<le> length dst" "dst = pre @ rest" "p = int (length pre)"
  shows "mem_fill dst p (int n) = Some (pre @ overlay rest (replicate n 0))"
  using assms by (auto simp: mem_fill_def mem_store_def overlay_def nat_add_distrib)

lemma block_index: "(4096 * int a) smod 4096 = 0" "(4096 * int a) sdiv 4096 = int a"
  by (simp_all add: smod_nonneg sdiv_nonneg)

text \<open>One turn of the loop of \<open>bb_write\<close> at a block boundary.\<close>

lemma write_turn:
  assumes "opened sha D st i af s" "51 + 28 * length af < 2147483648"
    and "of_nat a \<notin> fst ` set af" "take 4096 rest \<in> D" "rest \<noteq> []"
    and "off = 4096 * int a - int (length pre)" "sz = int (length pre) + int (length rest)" "0 \<le> off"
    and "4096 * int a + int (length rest) < 9223372036854775808"
  defines "m \<equiv> min 4096 (length rest)"
  shows "\<exists>data st' s'. mem_copy (replicate BLOCK_SIZE 0) 0 (pre @ rest) (int (length pre)) (int m) = Some data \<and>
    cfs_file_register_block sha st i \<lparr>b_index = of_nat a, b_size = of_nat m, b_data = data\<rparr> s = Some ((0, st'), s') \<and>
    opened sha D st' i (af @ [(of_nat a, take 4096 rest)]) s' \<and> advanced i m st st' \<and>
    evolves sha D (storage st) (f_path (files st ! i)) (f_fd (files st ! i)) s s'"
    and "s64 (min 4096 (u64 (off + sz - 4096 * int a))) = int m" "u64 (4096 * int a) < u64 (off + sz)"
    "uint (of_nat m :: w64) = int m"
proof -
  define z where "z = replicate 4096 (0 :: byte)"
  have z: "length z = 4096" by (simp add: z_def)
  let ?b = "\<lparr>b_index = of_nat a, b_size = of_nat m, b_data = overlay z (take m rest)\<rparr>"
  let ?st = "st\<lparr>files := (files st)[i := (files st ! i)
      \<lparr>f_total_blocks := of_nat (length af) + 1, f_size := f_size (files st ! i) + of_nat m\<rparr>]\<rparr>"
  have m: "m \<le> 4096" "m \<le> length rest" "take m rest = take 4096 rest" by (auto simp: m_def min_def)
  have un: "unat (of_nat m :: w64) = m" using m by (intro unat_of_nat_small)
  have tk: "take 4096 rest = take m (overlay z (take m rest))"
    using m by (simp add: overlay_def)
  have lz: "length (overlay z (take m rest)) = 4096" using m z by simp
  obtain s' where s': "cfs_file_register_block sha st i ?b s = Some ((0, ?st), s')"
    "opened sha D ?st i (af @ [(of_nat a, take 4096 rest)]) s'" "evolves sha D (storage st) (f_path (files st ! i)) (f_fd (files st ! i)) s s'"
    using register_block_map [OF assms(1) _ assms(2), of ?b "take 4096 rest"] assms(3,4) m(1) un tk lz
    by (simp only: cfs_block.simps) blast
  moreover have "mem_copy z 0 (pre @ rest) (int (length pre)) (int m) = Some (overlay z (take m rest))"
    using m z by (intro mem_copy_front) simp_all
  moreover have "advanced i m st ?st"
    unfolding advanced_def
    by (rule exI [of _ "f_size (files st ! i) + of_nat m"], rule exI [of _ "of_nat (length af) + 1"]) simp
  ultimately show "\<exists>data st' s'. mem_copy (replicate BLOCK_SIZE 0) 0 (pre @ rest) (int (length pre)) (int m) = Some data \<and>
    cfs_file_register_block sha st i \<lparr>b_index = of_nat a, b_size = of_nat m, b_data = data\<rparr> s = Some ((0, st'), s') \<and>
    opened sha D st' i (af @ [(of_nat a, take 4096 rest)]) s' \<and> advanced i m st st' \<and>
    evolves sha D (storage st) (f_path (files st ! i)) (f_fd (files st ! i)) s s'"
    unfolding z_def by blast
  show "s64 (min 4096 (u64 (off + sz - 4096 * int a))) = int m" using assms(6,7,9) by (simp add: m_def min_def)
  show "u64 (4096 * int a) < u64 (off + sz)" using assms(5-9) by simp
  show "uint (of_nat m :: w64) = int m" using un by (simp only: uint_nat)
qed

lemma write_loop_step:
  assumes "opened sha D st i af s" "51 + 28 * length af < 2147483648"
    and "of_nat a \<notin> fst ` set af" "take 4096 rest \<in> D" "rest \<noteq> []"
    and "off = 4096 * int a - int (length pre)" "sz = int (length pre) + int (length rest)" "0 \<le> off"
    and "4096 * int a + int (length rest) < 9223372036854775808"
  defines "m \<equiv> min 4096 (length rest)"
  shows "\<exists>st' s'. opened sha D st' i (af @ [(of_nat a, take 4096 rest)]) s' \<and> advanced i m st st' \<and>
    evolves sha D (storage st) (f_path (files st ! i)) (f_fd (files st ! i)) s s' \<and>
    bb_write_loop sha i (pre @ rest) sz off (4096 * int a) (int (length pre)) st s =
    bb_write_loop sha i (pre @ rest) sz off (4096 * int a + int m) (int (length pre) + int m) st' s'"
proof -
  define z where "z = replicate 4096 (0 :: byte)"
  note t = write_turn [OF assms(1-9), folded m_def]
  obtain data st' s' where s': "mem_copy z 0 (pre @ rest) (int (length pre)) (int m) = Some data"
    "cfs_file_register_block sha st i \<lparr>b_index = of_nat a, b_size = of_nat m, b_data = data\<rparr> s = Some ((0, st'), s')"
    "opened sha D st' i (af @ [(of_nat a, take 4096 rest)]) s'" "advanced i m st st'"
    "evolves sha D (storage st) (f_path (files st ! i)) (f_fd (files st ! i)) s s'"
    using t(1) unfolding z_def by blast
  have "bb_write_loop sha i (pre @ rest) sz off (4096 * int a) (int (length pre)) st s =
    bb_write_loop sha i (pre @ rest) sz off (4096 * int a + int m) (int (length pre) + int m) st' s'"
    using t(4) by (subst bb_write_loop.simps) (simp add: t(2,3) block_index s'(1,2) Let_def flip: z_def)
  then show ?thesis using s'(3-5) by blast
qed

text \<open>The condition of both loops fails at the end of the range.\<close>

lemma write_loop_end:
  "bb_write_loop sha i buf sz off (off + sz) bi st s = Some ((s32 sz, st), s)"
  by (subst bb_write_loop.simps) simp

lemma read_loop_end:
  "bb_read_loop i sz off (off + sz) bi buf st s = Some ((s32 sz, buf, st), s)"
  by (subst bb_read_loop.simps) simp

lemma bb_write_loop_aligned:
  assumes "opened sha D st i af s" "23 + 28 * (length af + length (chunks a rest)) < 2147483648"
    and "distinct (map fst (af @ chunks a rest))" "snd ` set (chunks a rest) \<subseteq> D"
    and "rest = [] \<or> cur = 4096 * int a" "off = cur - int (length pre)" "sz = int (length pre) + int (length rest)"
    and "0 \<le> off" "cur + int (length rest) < 9223372036854775808"
  shows "\<exists>st' s'. bb_write_loop sha i (pre @ rest) sz off cur (int (length pre)) st s = Some ((s32 sz, st'), s') \<and>
    opened sha D st' i (af @ chunks a rest) s' \<and> advanced i (length rest) st st' \<and>
    evolves sha D (storage st) (f_path (files st ! i)) (f_fd (files st ! i)) s s'"
  using assms
proof (induction a rest arbitrary: st s af pre cur rule: chunks.induct)
  case (1 a rest)
  show ?case
  proof (cases "rest = []")
    case True
    with "1.prems" advanced_0 show ?thesis
      using write_loop_end [of sha i pre sz off "int (length pre)" st s] by (auto simp: chunks.simps [of a "[]"])
  next
    case False
    let ?m = "min 4096 (length rest)"
    have ch: "chunks a rest = (of_nat a, take 4096 rest) # chunks (Suc a) (drop 4096 rest)"
      using False by (simp add: chunks.simps [of a rest])
    have cur: "cur = 4096 * int a" using "1.prems"(5) False by simp
    obtain st1 s1 where st1: "opened sha D st1 i (af @ [(of_nat a, take 4096 rest)]) s1" "advanced i ?m st st1"
      "evolves sha D (storage st) (f_path (files st ! i)) (f_fd (files st ! i)) s s1"
      "bb_write_loop sha i (pre @ rest) sz off cur (int (length pre)) st s =
       bb_write_loop sha i (pre @ rest) sz off (cur + int ?m) (int (length pre) + int ?m) st1 s1"
      using write_loop_step [OF "1.prems"(1), of a rest off pre sz] "1.prems"(2-9) cur False by (auto simp: ch)
    have sp: "pre @ rest = (pre @ take 4096 rest) @ drop 4096 rest" by simp
    have len: "int (length pre) + int ?m = int (length (pre @ take 4096 rest))" by (simp add: min.commute)
    have bd: "23 + 28 * (length (af @ [(of_nat a :: w64, take 4096 rest)]) + length (chunks (Suc a) (drop 4096 rest))) < 2147483648"
      "distinct (map fst ((af @ [(of_nat a, take 4096 rest)]) @ chunks (Suc a) (drop 4096 rest)))"
      "snd ` set (chunks (Suc a) (drop 4096 rest)) \<subseteq> D"
      "drop 4096 rest = [] \<or> cur + int ?m = 4096 * int (Suc a)"
      "off = cur + int ?m - int (length (pre @ take 4096 rest))"
      "sz = int (length (pre @ take 4096 rest)) + int (length (drop 4096 rest))"
      "cur + int ?m + int (length (drop 4096 rest)) < 9223372036854775808"
      using "1.prems"(2-9) cur by (auto simp: ch min_def)
    obtain st' s' where "bb_write_loop sha i ((pre @ take 4096 rest) @ drop 4096 rest) sz off (cur + int ?m)
        (int (length (pre @ take 4096 rest))) st1 s1 = Some ((s32 sz, st'), s')"
      "opened sha D st' i ((af @ [(of_nat a, take 4096 rest)]) @ chunks (Suc a) (drop 4096 rest)) s'"
      "advanced i (length (drop 4096 rest)) st1 st'" "evolves sha D (storage st1) (f_path (files st1 ! i)) (f_fd (files st1 ! i)) s1 s'"
      using "1.IH" [OF False st1(1) bd(1-6) "1.prems"(8) bd(7)] by blast
    moreover have "advanced i (length rest) st st'"
      using advanced_trans [OF st1(2) calculation(3) opened_range [OF "1.prems"(1)]] by (simp add: min_def split: if_splits)
    moreover have "evolves sha D (storage st) (f_path (files st ! i)) (f_fd (files st ! i)) s s'"
      using evolves_trans [OF st1(3)] calculation(4) advanced_frame [OF st1(2)] opened_range [OF "1.prems"(1)] by simp
    ultimately show ?thesis
      unfolding st1(4) len sp [symmetric] by (auto simp: ch)
  qed
qed

lemma fetch_length: "opened sha D st i af s \<Longrightarrow> length (fetch af a) \<le> 4096"
  using keys_okD(3) [OF store_okD(4) [OF opened_store]] opened_data
  by (fastforce simp: fetch_def split: option.split)

text \<open>
  Blocks that the file has can be read only if the argument that the call of \<open>load_block\<close> lacks happens to be valid;
  holes can be read anyway.
\<close>

definition readable :: "blocks \<Rightarrow> nat \<Rightarrow> nat \<Rightarrow> os \<Rightarrow> bool" where
  "readable af a m s \<longleftrightarrow> refs_valid s \<or> (\<forall>k < m. map_of af (of_nat (a + k)) = None)"

lemma readable_valid [simp]: "refs_valid s \<Longrightarrow> readable af a m s"
  by (simp add: readable_def)

lemma readable_0 [simp]: "readable af a 0 s"
  by (simp add: readable_def)

lemma readable_Suc: "readable af a (Suc m) s \<longleftrightarrow> readable af a 1 s \<and> readable af (Suc a) m s"
  by (auto simp: readable_def All_less_Suc2 ac_simps)

text \<open>One turn of the loop of \<open>bb_read\<close>.\<close>

definition read_turn ::
  "nat \<Rightarrow> int \<Rightarrow> int \<Rightarrow> int \<Rightarrow> int \<Rightarrow> byte list \<Rightarrow> cfs_state \<Rightarrow> os \<Rightarrow> ((int \<times> int \<times> byte list \<times> cfs_state) \<times> os) option" where
  "read_turn i sz offset cur bi buf st s =
     (let rem = cur smod int BLOCK_SIZE; left = rem in do {
        ((ret, blk_buf, st), s) \<leftarrow> cfs_file_read_block st i (word_of_int (cur sdiv int BLOCK_SIZE)) zero_block s;
        buf \<leftarrow>
          (if ret \<noteq> 0 then
             (let right = s64 (max (u64 (uint (b_size blk_buf) - left)) 0)
              in mem_copy buf bi (b_data blk_buf) left (max (right - left) 0))
           else
             (let right = s64 (min (int BLOCK_SIZE) (u64 (left + offset + sz - cur))) in mem_fill buf bi (right - left)));
        Some ((cur + (int BLOCK_SIZE - rem), bi + (int BLOCK_SIZE - rem), buf, st), s)
      })"

lemma read_loop_turns:
  "bb_read_loop i sz offset cur bi buf st s =
     (if u64 cur < u64 (offset + sz) then do {
        ((cur, bi, buf, st), s) \<leftarrow> read_turn i sz offset cur bi buf st s;
        bb_read_loop i sz offset cur bi buf st s
      } else Some ((s32 (cur - offset), buf, st), s))"
  by (subst bb_read_loop.simps) (simp add: read_turn_def Let_def case_prod_unfold Option.bind_assoc)

lemma read_turn_aligned:
  assumes "opened sha D st i af s" "4096 \<le> length rest"
    and "off = 4096 * int a - int (length pre)" "sz = int (length pre) + int (length rest)" "0 \<le> off"
    and "4096 * int a + int (length rest) < 9223372036854775808"
  shows "\<exists>s'. opened sha D st i af s' \<and> evolves sha D (storage st) (f_path (files st ! i)) (f_fd (files st ! i)) s s' \<and>
    read_turn i sz off (4096 * int a) (int (length pre)) (pre @ rest) st s =
    (if readable af a 1 s then Some ((4096 * int (Suc a), int (length pre) + 4096, pre @ overlay rest (fetch af a), st), s') else None)"
    and "u64 (4096 * int a) < u64 (off + sz)"
proof -
  let ?blk = "\<lparr>b_index = 0, b_size = 0, b_data = replicate BLOCK_SIZE 0\<rparr>"
  have "rest \<noteq> []" using assms(2) by auto
  then show "u64 (4096 * int a) < u64 (off + sz)" using assms(2-6) by simp
  obtain s' where s': "cfs_file_read_block st i (of_nat a) ?blk s =
     (case map_of af (of_nat a) of
        None \<Rightarrow> Some ((0, ?blk, st), s')
      | Some d \<Rightarrow> if refs_valid s
          then Some ((1, ?blk\<lparr>b_data := overlay (b_data ?blk) d, b_size := of_nat (length d), b_index := of_nat a\<rparr>, st), s')
          else None)"
    "opened sha D st i af s'" "evolves sha D (storage st) (f_path (files st ! i)) (f_fd (files st ! i)) s s'"
    using read_block_map [OF assms(1)] by blast
  have "read_turn i sz off (4096 * int a) (int (length pre)) (pre @ rest) st s =
    (if readable af a 1 s then Some ((4096 * int (Suc a), int (length pre) + 4096, pre @ overlay rest (fetch af a), st), s') else None)"
  proof (cases "map_of af (of_nat a)")
    case None
    have r: "s64 (min 4096 (u64 (off + sz - 4096 * int a))) = 4096"
      using assms(2-6) by simp
    have "mem_fill (pre @ rest) (int (length pre)) 4096 = Some (pre @ overlay rest (fetch af a))"
      using mem_fill_back [of pre 4096 "pre @ rest" rest] None assms(2) by (simp add: fetch_def)
    then show ?thesis
      using s' None by (simp add: read_turn_def readable_def block_index r Let_def add.commute)
  next
    case (Some d)
    have d: "length d \<le> 4096" using fetch_length [OF assms(1), of a] Some by (simp add: fetch_def)
    have u: "uint (of_nat (length d) :: w64) = int (length d)"
      using unat_of_nat_small [OF d] by (simp only: uint_nat)
    have r: "s64 (u64 (int (length d))) = int (length d)" using d by simp
    have cp: "mem_copy (pre @ rest) (int (length pre)) (overlay z d) 0 (int (length d)) = Some (pre @ overlay rest (fetch af a))"
      for z
      using mem_copy_back [of pre "length d" "pre @ rest" "overlay z d" rest] Some assms(2) d
      by (simp add: fetch_def) (simp add: overlay_def)
    then show ?thesis
      using s' Some by (simp add: read_turn_def readable_def block_index r u cp Let_def add.commute)
  qed
  with s'(2,3) show "\<exists>s'. opened sha D st i af s' \<and> evolves sha D (storage st) (f_path (files st ! i)) (f_fd (files st ! i)) s s' \<and>
    read_turn i sz off (4096 * int a) (int (length pre)) (pre @ rest) st s =
    (if readable af a 1 s then Some ((4096 * int (Suc a), int (length pre) + 4096, pre @ overlay rest (fetch af a), st), s') else None)"
    by blast
qed

lemma read_loop_step:
  assumes "opened sha D st i af s" "4096 \<le> length rest"
    and "off = 4096 * int a - int (length pre)" "sz = int (length pre) + int (length rest)" "0 \<le> off"
    and "4096 * int a + int (length rest) < 9223372036854775808"
  shows "\<exists>s'. opened sha D st i af s' \<and> evolves sha D (storage st) (f_path (files st ! i)) (f_fd (files st ! i)) s s' \<and>
    bb_read_loop i sz off (4096 * int a) (int (length pre)) (pre @ rest) st s =
    (if readable af a 1 s
     then bb_read_loop i sz off (4096 * int (Suc a)) (int (length pre) + 4096) (pre @ overlay rest (fetch af a)) st s' else None)"
proof -
  note t = read_turn_aligned [OF assms]
  obtain s' where s': "opened sha D st i af s'" "evolves sha D (storage st) (f_path (files st ! i)) (f_fd (files st ! i)) s s'"
    "read_turn i sz off (4096 * int a) (int (length pre)) (pre @ rest) st s =
     (if readable af a 1 s then Some ((4096 * int (Suc a), int (length pre) + 4096, pre @ overlay rest (fetch af a), st), s') else None)"
    using t(1) by blast
  then show ?thesis using t(2) by (intro exI [of _ s'] conjI) (simp, simp, subst read_loop_turns, simp)
qed

lemma bb_read_loop_aligned:
  assumes "opened sha D st i af s" "length rest = 4096 * m"
    and "off = 4096 * int a - int (length pre)" "sz = int (length pre) + int (length rest)" "0 \<le> off"
    and "4096 * int a + int (length rest) < 9223372036854775808"
  shows "\<exists>s'. bb_read_loop i sz off (4096 * int a) (int (length pre)) (pre @ rest) st s =
      (if readable af a m s then Some ((s32 sz, pre @ pages af a rest, st), s') else None) \<and> opened sha D st i af s' \<and>
      evolves sha D (storage st) (f_path (files st ! i)) (f_fd (files st ! i)) s s'"
  using assms
proof (induction m arbitrary: s a pre rest)
  case 0
  then show ?case
    using read_loop_end [of i sz off "int (length pre)" pre st s] by (auto simp: pages.simps [of af a "[]"])
next
  case (Suc m)
  let ?p = "overlay (take 4096 rest) (fetch af a)"
  have ne: "rest \<noteq> []" using Suc.prems(2) by auto
  have lp: "length ?p = 4096" using fetch_length [OF Suc.prems(1), of a] Suc.prems(2) by simp
  have ov: "overlay rest (fetch af a) = ?p @ drop 4096 rest"
    using fetch_length [OF Suc.prems(1), of a] by (rule overlay_split)
  obtain s1 where s1: "opened sha D st i af s1" "evolves sha D (storage st) (f_path (files st ! i)) (f_fd (files st ! i)) s s1"
    "bb_read_loop i sz off (4096 * int a) (int (length pre)) (pre @ rest) st s =
     (if readable af a 1 s
      then bb_read_loop i sz off (4096 * int (Suc a)) (int (length pre) + 4096) (pre @ overlay rest (fetch af a)) st s1 else None)"
    using read_loop_step [OF Suc.prems(1) _ Suc.prems(3-6)] Suc.prems(2) by auto
  have "\<exists>s'. bb_read_loop i sz off (4096 * int (Suc a)) (int (length (pre @ ?p))) ((pre @ ?p) @ drop 4096 rest) st s1 =
      (if readable af (Suc a) m s1 then Some ((s32 sz, (pre @ ?p) @ pages af (Suc a) (drop 4096 rest), st), s') else None) \<and> opened sha D st i af s' \<and>
      evolves sha D (storage st) (f_path (files st ! i)) (f_fd (files st ! i)) s1 s'"
    using Suc.prems lp by (intro Suc.IH [OF s1(1)]) simp_all
  then obtain s' where "bb_read_loop i sz off (4096 * int (Suc a)) (int (length (pre @ ?p))) ((pre @ ?p) @ drop 4096 rest) st s1 =
      (if readable af (Suc a) m s1 then Some ((s32 sz, (pre @ ?p) @ pages af (Suc a) (drop 4096 rest), st), s') else None)"
    "opened sha D st i af s'" "evolves sha D (storage st) (f_path (files st ! i)) (f_fd (files st ! i)) s1 s'" by blast
  moreover have "readable af (Suc a) m s1 = readable af (Suc a) m s" using evolves_refs [OF s1(2)] by (simp add: readable_def)
  ultimately show ?case
    unfolding s1(3) ov readable_Suc [of af a] using lp ne evolves_trans [OF s1(2)]
    by (intro exI [of _ s']) (simp add: pages.simps [of af a rest])
qed

end
