(* ===== verification/Bbfs_Session.thy ===== *)
theory Bbfs_Session
  imports Bbfs_Data
begin

text \<open>
  A file from its creation to its release: what the handlers do to the list of blocks it stands for.
\<close>

subsection \<open>A file on disk\<close>

definition closed_file ::
  "(byte list \<Rightarrow> byte list) \<Rightarrow> byte list set \<Rightarrow> blk_store \<Rightarrow> path \<Rightarrow> w64 \<Rightarrow> blocks \<Rightarrow> os \<Rightarrow> bool" where
  "closed_file sha D bs p sz af s \<longleftrightarrow> (\<exists>n.
     store_ok sha D bs s \<and> names s p = Some n \<and> p \<notin> block_of sha bs ` D \<and>
     inodes s n = Some (Reg (file_image sz (of_nat (length af)) (table_of sha af))) \<and>
     distinct (map fst af) \<and> 23 + 28 * length af < 2147483648 \<and>
     (\<forall>d \<in> snd ` set af. d \<in> D \<and> names s (block_of sha bs d) \<noteq> None) \<and> apart sha D bs n s)"

text \<open>Between two handlers: the registry is consistent and every registered descriptor is open.\<close>

definition session_ok :: "cfs_state \<Rightarrow> os \<Rightarrow> bool" where
  "session_ok st s \<longleftrightarrow> registry_ok st \<and> length (fds st) \<le> 20 + 4 * length (fdtab s) \<and>
     length (fdtab s) < 2147483648 \<and>
     (\<forall>fd \<in> set (fds st). fd \<noteq> -1 \<longrightarrow> get_fd s fd \<noteq> None)"

lemma session_bound: "session_ok st s \<Longrightarrow> length (fds st) < 2305843009213693952"
  by (simp add: session_ok_def)

lemma get_file_mem: "cfs_get_file st fd \<noteq> None \<longleftrightarrow> fd \<in> set (fds st)"
  by (metis cfs_get_file_def find_fd_None)

lemma used_open:
  assumes "session_ok st s"
  shows "length (used (fds st)) \<le> length (fdtab s)"
proof -
  have "set (used (fds st)) \<subseteq> int ` {..<length (fdtab s)}"
  proof
    fix fd
    assume "fd \<in> set (used (fds st))"
    then have "fd_range s fd" using assms get_fd_range by (fastforce simp: session_ok_def set_used)
    then show "fd \<in> int ` {..<length (fdtab s)}"
      by (auto simp: fd_range_def image_iff intro!: bexI [of _ "nat fd"])
  qed
  then have "card (set (used (fds st))) \<le> length (fdtab s)"
    by (metis card_image card_lessThan card_mono finite_imageI finite_lessThan inj_on_of_nat)
  then show ?thesis
    using assms by (simp add: session_ok_def registry_ok_def slots_ok_def distinct_card)
qed

lemma session_ok_entered:
  assumes "session_ok st s" "registry_ok st'" "entered st p fd st'" "get_fd s' fd \<noteq> None"
    "\<And>fd'. get_fd s fd' \<noteq> None \<Longrightarrow> get_fd s' fd' \<noteq> None" "length (fdtab s') = length (fdtab s)"
  shows "session_ok st' s'"
proof -
  have "get_fd s' fd' \<noteq> None" if "fd' \<in> set (fds st')" "fd' \<noteq> -1" for fd'
  proof (cases "fd' = fd")
    case False
    then have "fd' \<in> set (fds st)"
      using that assms(3) get_file_mem [of st' fd'] get_file_mem [of st fd'] by (simp add: entered_def)
    then show ?thesis using that(2) assms(1,5) by (simp add: session_ok_def)
  qed (use assms(4) in simp)
  moreover have "length (fds st') \<le> 20 + 4 * length (fdtab s')"
    using assms(1,3,6) used_open [OF assms(1)] by (auto simp: entered_def session_ok_def)
  ultimately show ?thesis using assms(1,2,6) by (simp add: session_ok_def)
qed

lemma session_ok_left:
  assumes "session_ok st s" "registry_ok st'" "left st fd st'"
    "\<And>fd'. fd' \<noteq> fd \<Longrightarrow> fd' \<noteq> -1 \<Longrightarrow> get_fd s fd' \<noteq> None \<Longrightarrow> get_fd s' fd' \<noteq> None"
    "length (fdtab s') = length (fdtab s)"
  shows "session_ok st' s'"
proof -
  have "get_fd s' fd' \<noteq> None" if "fd' \<in> set (fds st')" "fd' \<noteq> -1" for fd'
  proof -
    have "fd' \<noteq> fd" using that(1) assms(3) get_file_mem [of st' fd] by (auto simp: left_def)
    moreover from this have "fd' \<in> set (fds st)"
      using that assms(3) get_file_mem [of st' fd'] get_file_mem [of st fd'] by (simp add: left_def)
    ultimately show ?thesis using that(2) assms(1,4) by (simp add: session_ok_def)
  qed
  then show ?thesis using assms(1-3,5) by (simp add: session_ok_def left_def)
qed

definition free_fds :: "os \<Rightarrow> nat" where
  "free_fds s = length (filter (\<lambda>x. x = None) (fdtab s))"

lemma free_fds_first: "first_free s \<noteq> None \<longleftrightarrow> 0 < free_fds s"
  by (simp add: first_free_def free_fds_def free_slot_None filter_empty_conv)

lemma free_fds_update:
  "i < length xs \<Longrightarrow> xs ! i = None \<Longrightarrow>
   Suc (length (filter (\<lambda>x. x = None) (xs[i := Some y]))) = length (filter (\<lambda>x. x = None) xs)"
proof (induction xs arbitrary: i)
  case (Cons x xs)
  then show ?case by (cases i) auto
qed simp

lemma free_fds_open: "first_free s = Some fd \<Longrightarrow> Suc (free_fds (upd_file s fd f c)) = free_fds s"
  using free_slot_Some [of "fdtab s"]
  by (auto simp: first_free_def free_fds_def upd_file_def set_fd_def free_fds_update)

subsection \<open>Creating\<close>

lemma create_file_new:
  assumes "ideal s" "names s p = None" "is_dir s (parent_of p)" "first_free s = Some fd"
  shows "cfs_create_file p s = (fd, upd_file (new_node p (Reg []) s) fd
    \<lparr>of_ino = next_ino s, of_pos = 23, of_rd = False, of_wr = True, of_lock = F_UNLCK\<rparr> (file_image 0 0 []))"
  using assms first_free_Some [OF assms(4)]
  by (simp add: cfs_create_file_def ideal_simps Let_def file_image_def)

lemma mknod_new:
  assumes "bb_fullpath bb path = Some p" "S_ISREG mode"
    and "ideal s" "names s p = None" "is_dir s (parent_of p)" "first_free s \<noteq> None"
  shows "bb_mknod mkfifo mknod bb path mode dev s = Some (0, new_node p (Reg (file_image 0 0 [])) s)"
proof -
  obtain fd where fd: "first_free s = Some fd" using assms(6) by blast
  note ff = first_free_Some [OF fd]
  show ?thesis
    using assms(1-5) fd ff create_file_new [OF assms(3-5) fd]
    by (simp add: bb_mknod_def ideal_simps Let_def upd_file_close new_node_overwrite)
qed

lemma closed_new_file:
  assumes "store_ok sha D bs s" "names s p = None" "p \<notin> block_of sha bs ` D"
  shows "closed_file sha D bs p 0 [] (new_node p (Reg (file_image 0 0 [])) s)"
proof -
  let ?s = "new_node p (Reg (file_image 0 0 [])) s"
  note ok = store_okD [OF assms(1)]
  have fresh: "names s q \<noteq> Some (next_ino s)" for q using ok(3) by (auto simp: os_wf_def)
  have nm: "names ?s = (names s)(p \<mapsto> next_ino s)" "inodes ?s = (inodes s)(next_ino s \<mapsto> Reg (file_image 0 0 []))"
    "next_ino ?s = Suc (next_ino s)" by (simp_all add: new_node_def)
  have wf: "os_wf ?s" using ok(3) by (fastforce simp: os_wf_def nm less_Suc_eq)
  have d: "is_dir ?s q" if "is_dir s q" for q
    using that assms(2) fresh [of q] by (auto simp: is_dir_def nm split: option.splits)
  have rc: "reg_content ?s q = reg_content s q" if "q \<noteq> p" for q
    using that fresh [of q] by (auto simp: reg_content_def nm split: option.split)
  have ne: "block_of sha bs d \<noteq> p" if "d \<in> D" for d using assms(3) that by blast
  have "ready bs ?s" using ok(1) d wf by (simp add: ready_def)
  moreover have "names ?s (block_of sha bs d) = None \<or> stored sha bs ?s d" if "d \<in> D" for d
    using ok(6) [OF that] ne [OF that] by (cases "names s (block_of sha bs d)") (auto simp: nm stored_def rc)
  ultimately have "store_ok sha D bs ?s" using ok(4) unfolding store_ok_def by blast
  then show ?thesis
    using assms(3) ne fresh by (auto simp: closed_file_def nm apart_def)
qed

subsection \<open>Opening\<close>

lemma open_existing:
  assumes "ideal s" "names s p = Some n" "inodes s n = Some (Reg c)" "first_free s = Some fd"
  shows "sys_open p O_RDWR s = (fd, upd_file s fd
    \<lparr>of_ino = n, of_pos = 0, of_rd = True, of_wr = True, of_lock = F_UNLCK\<rparr> c)"
  using assms by (simp add: ideal_simps)

lemma upd_file_fresh:
  assumes "first_free s = Some fd" "os_wf s" "inodes s (of_ino f) = Some (Reg c)" "of_ino f < next_ino s"
  shows "os_wf (upd_file s fd f c)" "inodes (upd_file s fd f c) = inodes s" "live (upd_file s fd f c) fd f c"
proof -
  note ff = first_free_Some [OF assms(1)]
  show l: "live (upd_file s fd f c) fd f c" using ff by simp
  show i: "inodes (upd_file s fd f c) = inodes s" using assms(3) by (simp add: fun_upd_idem)
  have "of_ino g < next_ino s" if "get_fd (upd_file s fd f c) fd' = Some g" for fd' g
    using that l ff assms(2,4) by (cases "fd' = fd") (auto simp: os_wf_def live_def)
  then show "os_wf (upd_file s fd f c)" using assms(2) by (simp add: os_wf_def)
qed

lemma store_ok_open:
  assumes "store_ok sha D bs s" "first_free s = Some fd" "2 \<le> free_fds s"
    "inodes s (of_ino f) = Some (Reg c)" "of_ino f < next_ino s"
  shows "store_ok sha D bs (upd_file s fd f c)"
proof -
  note ok = store_okD [OF assms(1)]
  note u = upd_file_fresh [OF assms(2) ok(3) assms(4,5)]
  have "first_free (upd_file s fd f c) \<noteq> None"
    using free_fds_open [OF assms(2), of f c] assms(3) unfolding free_fds_first by linarith
  moreover have nm: "names (upd_file s fd f c) = names s" by simp
  moreover have "is_dir (upd_file s fd f c) q = is_dir s q" for q
    by (simp only: is_dir_def u(2) nm)
  moreover have "reg_content (upd_file s fd f c) q = reg_content s q" for q
    by (simp only: reg_content_def u(2) nm)
  ultimately show ?thesis
    using assms(1) u(1) by (simp add: store_ok_def ready_def stored_def)
qed

lemma open_closed:
  assumes full: "bb_fullpath bb path = Some p" and ok: "session_ok (cfs bb) s" "2 \<le> free_fds s"
    and cl: "closed_file sha D (storage (cfs bb)) p sz af s"
  shows "\<exists>fd i st' s'. bb_open bb path s = Some ((0, fd, bb\<lparr>cfs := st'\<rparr>), s') \<and>
    cfs_get_file st' fd = Some i \<and> opened sha D st' i af s' \<and>
    files st' ! i = \<lparr>f_path = p, f_offset = 0, f_size = sz, f_total_blocks = of_nat (length af), f_fd = fd\<rparr> \<and>
    session_ok st' s' \<and> entered (cfs bb) p fd st' \<and> s32 fd = fd \<and> Suc (free_fds s') = free_fds s \<and>
    names s' = names s \<and> inodes s' = inodes s \<and> refs_valid s' = refs_valid s \<and>
    get_fd s fd = None \<and> (\<forall>fd'. fd' \<noteq> fd \<longrightarrow> get_fd s' fd' = get_fd s fd')"
proof -
  let ?c = "file_image sz (of_nat (length af)) (table_of sha af)"
  obtain n where n: "store_ok sha D (storage (cfs bb)) s" "names s p = Some n" "p \<notin> block_of sha (storage (cfs bb)) ` D"
    "inodes s n = Some (Reg ?c)" "distinct (map fst af)" "23 + 28 * length af < 2147483648"
    "\<forall>d \<in> snd ` set af. d \<in> D \<and> names s (block_of sha (storage (cfs bb)) d) \<noteq> None"
    "apart sha D (storage (cfs bb)) n s"
    using cl by (auto simp: closed_file_def)
  obtain fd where fd: "first_free s = Some fd" using ok(2) free_fds_first [of s] by auto
  note ff = first_free_Some [OF fd]
  let ?f = "\<lparr>of_ino = n, of_pos = 0, of_rd = True, of_wr = True, of_lock = F_UNLCK\<rparr>"
  let ?s = "upd_file s fd ?f ?c" and ?s' = "upd_file s fd (?f\<lparr>of_pos := 23\<rparr>) ?c"
  have id: "ideal s" using store_okD(2) [OF n(1)] .
  have nn: "n < next_ino s" using store_okD(3) [OF n(1)] n(2) by (auto simp: os_wf_def)
  have out: "fd \<notin> set (fds (cfs bb))" "fd \<noteq> -1"
    using ok(1) ff by (auto simp: session_ok_def)
  have pl: "length p < PATH_MAX" using full by (auto simp: bb_fullpath_def Let_def split: if_splits)
  have r: "registry_ok (cfs bb)" "length (fds (cfs bb)) < 2305843009213693952"
    using ok(1) session_bound by (simp_all add: session_ok_def)
  have l: "ideal ?s" "live ?s fd ?f ?c" "of_rd ?f" using id ff by simp_all
  obtain i st' where st': "cfs_register_file (cfs bb) p fd ?s = Some ((fd, st'), ?s')"
    "registry_ok st'" "entered (cfs bb) p fd st'" "cfs_get_file st' fd = Some i" "i < length (files st')"
    "files st' ! i = \<lparr>f_path = p, f_offset = 0, f_size = sz, f_total_blocks = of_nat (length af), f_fd = fd\<rparr>"
    using register_live [OF r(1) out r(2) l refl pl] by auto
  have sto: "storage st' = storage (cfs bb)" using st'(3) by (simp add: entered_def)
  have b: "fd < int (length (fdtab s))" "fd < 2147483648"
    using ff ok(1) by (auto simp: session_ok_def fd_range_def)
  have "bb_open bb path s = Some ((0, fd, bb\<lparr>cfs := st'\<rparr>), ?s')"
    using full id n(2,4) fd ff st'(1) b by (simp add: bb_open_def open_existing [where fd = fd] ideal_simps)
  moreover have "on_disk sha D st' i af (?f\<lparr>of_pos := 23\<rparr>) ?s'"
  proof -
    have "store_ok sha D (storage st') ?s'"
      using store_ok_open [OF n(1) fd ok(2), of "?f\<lparr>of_pos := 23\<rparr>" ?c] n(4) nn sto by simp
    then show ?thesis
      using n st'(2,5,6) ff sto by (simp add: on_disk_def registry_ok_def apart_def)
  qed
  moreover have "session_ok st' ?s'"
  proof (rule session_ok_entered [OF ok(1) st'(2,3)])
    show "get_fd ?s' fd \<noteq> None" using ff by (simp add: upd_file_def del: set_fd_push)
    show "get_fd ?s' fd' \<noteq> None" if "get_fd s fd' \<noteq> None" for fd'
      using that ff by (cases "fd' = fd") simp_all
    show "length (fdtab ?s') = length (fdtab s)" by (simp add: upd_file_def)
  qed
  moreover have "Suc (free_fds ?s') = free_fds s" using free_fds_open [OF fd] .
  moreover have "names ?s' = names s" "inodes ?s' = inodes s" "refs_valid ?s' = refs_valid s"
    using n(4) by (simp_all add: fun_upd_idem)
  moreover have "get_fd s fd = None \<and> (\<forall>fd'. fd' \<noteq> fd \<longrightarrow> get_fd ?s' fd' = get_fd s fd')" using ff by simp
  ultimately show ?thesis using st' ff b by (auto simp: opened_def)
qed

subsection \<open>Writing and reading\<close>

lemma chunks_index: "x \<in> fst ` set (chunks a bs) \<Longrightarrow> \<exists>k < length bs. x = of_nat (a + k)"
proof (induction a bs rule: chunks.induct)
  case (1 a bs)
  have ne: "bs \<noteq> []" using "1.prems" by (auto simp: chunks.simps [of a bs] split: if_splits)
  show ?case
  proof (cases "x = of_nat a")
    case False
    then have "x \<in> fst ` set (chunks (Suc a) (drop 4096 bs))"
      using "1.prems" ne by (simp add: chunks.simps [of a bs])
    then obtain k where "k < length (drop 4096 bs)" "x = of_nat (Suc a + k)" using "1.IH" ne by blast
    then show ?thesis by (intro exI [of _ "Suc k"]) simp
  qed (use ne in \<open>auto intro: exI [of _ 0]\<close>)
qed

lemma of_nat_index_inject:
  "m < 18446744073709551616 \<Longrightarrow> n < 18446744073709551616 \<Longrightarrow> (of_nat m :: w64) = of_nat n \<longleftrightarrow> m = n"
  by (simp add: word_of_nat_eq_iff take_bit_nat_eq_self)

lemma next_chunk: "bs \<noteq> [] \<Longrightarrow> a + length bs < n \<Longrightarrow> Suc a + length (drop 4096 bs) < n"
proof -
  assume "bs \<noteq> []" "a + length bs < n"
  moreover from this have "0 < length bs" by simp
  ultimately show ?thesis unfolding length_drop by linarith
qed

lemma chunks_distinct: "a + length bs < 18446744073709551616 \<Longrightarrow> distinct (map fst (chunks a bs))"
proof (induction a bs rule: chunks.induct)
  case (1 a bs)
  show ?case
  proof (cases "bs = []")
    case False
    have "of_nat a \<notin> fst ` set (chunks (Suc a) (drop 4096 bs))"
    proof
      assume "of_nat a \<in> fst ` set (chunks (Suc a) (drop 4096 bs))"
      then obtain k where "k < length (drop 4096 bs)" "(of_nat a :: w64) = of_nat (Suc a + k)"
        using chunks_index by blast
      moreover from this have "a < 18446744073709551616" "Suc a + k < 18446744073709551616"
        using "1.prems" by simp_all
      ultimately have "a = Suc a + k" using of_nat_index_inject by blast
      then show False by simp
    qed
    moreover note next_chunk [OF False "1.prems"]
    ultimately show ?thesis using "1.IH" False by (simp add: chunks.simps [of a bs])
  qed (simp add: chunks.simps [of a])
qed

lemma s32_small: "n < 2147483648 \<Longrightarrow> s32 (int n) = int n"
  by simp

text \<open>A write at a block boundary, of blocks the file does not have yet.\<close>

definition fresh_blocks :: "byte list set \<Rightarrow> blocks \<Rightarrow> nat \<Rightarrow> byte list \<Rightarrow> bool" where
  "fresh_blocks D af a bs \<longleftrightarrow> fst ` set af \<inter> fst ` set (chunks a bs) = {} \<and> snd ` set (chunks a bs) \<subseteq> D \<and>
     23 + 28 * (length af + length (chunks a bs)) < 2147483648 \<and>
     4096 * a + length bs < 9223372036854775808 \<and> length bs < 2147483648"

lemma opened_distinct: "opened sha D st i af s \<Longrightarrow> distinct (map fst af)"
  by (auto simp: opened_def on_disk_def)

lemma write_aligned:
  assumes "cfs_get_file (cfs bb) (s32 fh) = Some i" "opened sha D (cfs bb) i af s" "fresh_blocks D af a bs"
  shows "\<exists>st' s'. bb_write sha bb bs (int (length bs)) (4096 * int a) fh s = Some ((int (length bs), bb\<lparr>cfs := st'\<rparr>), s') \<and>
    opened sha D st' i (af @ chunks a bs) s' \<and> advanced i (length bs) (cfs bb) st' \<and>
    evolves sha D (storage (cfs bb)) (f_path (files (cfs bb) ! i)) (f_fd (files (cfs bb) ! i)) s s'"
proof -
  note fr = assms(3) [unfolded fresh_blocks_def]
  have "distinct (map fst (af @ chunks a bs))"
    using opened_distinct [OF assms(2)] chunks_distinct [of a bs] fr by auto
  then obtain st' s' where "bb_write_loop sha i ([] @ bs) (int (length bs)) (4096 * int a) (4096 * int a) (int (length [])) (cfs bb) s
      = Some ((s32 (int (length bs)), st'), s')"
    "opened sha D st' i (af @ chunks a bs) s'" "advanced i (length bs) (cfs bb) st'"
    "evolves sha D (storage (cfs bb)) (f_path (files (cfs bb) ! i)) (f_fd (files (cfs bb) ! i)) s s'"
    using bb_write_loop_aligned [OF assms(2), of a bs "4096 * int a" "4096 * int a" "[]" "int (length bs)"] fr by auto
  then show ?thesis using assms(1) fr s32_small [of "length bs"] by (auto simp: bb_write_def)
qed

lemma read_aligned:
  assumes "cfs_get_file (cfs bb) (s32 fh) = Some i" "opened sha D (cfs bb) i af s"
    and "length buf = 4096 * m" "4096 * (a + m) < 9223372036854775808" "4096 * m < 2147483648"
  shows "\<exists>s'. bb_read bb buf (int (length buf)) (4096 * int a) fh s =
      (if readable af a m s then Some ((int (length buf), pages af a buf, bb), s') else None) \<and>
    opened sha D (cfs bb) i af s' \<and> evolves sha D (storage (cfs bb)) (f_path (files (cfs bb) ! i)) (f_fd (files (cfs bb) ! i)) s s'"
proof -
  obtain s' where "bb_read_loop i (int (length buf)) (4096 * int a) (4096 * int a) (int (length [])) ([] @ buf) (cfs bb) s =
      (if readable af a m s then Some ((s32 (int (length buf)), [] @ pages af a buf, cfs bb), s') else None)"
    "opened sha D (cfs bb) i af s'"
    "evolves sha D (storage (cfs bb)) (f_path (files (cfs bb) ! i)) (f_fd (files (cfs bb) ! i)) s s'"
    using bb_read_loop_aligned [OF assms(2,3), of "4096 * int a" a "[]" "int (length buf)"] assms(3,4) by auto
  then show ?thesis using assms(1,3,5) s32_small [of "length buf"]
    by (intro exI [of _ s']) (simp add: bb_read_def)
qed

lemma pages_written:
  assumes "fst ` set af \<inter> fst ` set (chunks a bs) = {}" "a + length bs < 18446744073709551616" "length bs \<le> length buf"
  shows "take (length bs) (pages (af @ chunks a bs) a buf) = bs"
  using assms
proof (induction a bs arbitrary: af buf rule: chunks.induct)
  case (1 a bs)
  show ?case
  proof (cases "bs = []")
    case False
    then have ch: "chunks a bs = (of_nat a, take 4096 bs) # chunks (Suc a) (drop 4096 bs)"
      by (simp add: chunks.simps [of a bs])
    let ?af = "af @ [(of_nat a, take 4096 bs)]"
    have d: "distinct (map fst (chunks a bs))" using chunks_distinct "1.prems"(2) by blast
    have f: "fetch (af @ chunks a bs) a = take 4096 bs"
    proof -
      have "map_of af (of_nat a) = None" using "1.prems"(1) by (auto simp: ch map_of_eq_None_iff)
      then show ?thesis by (simp add: fetch_def ch map_add_def)
    qed
    have p: "pages (af @ chunks a bs) a buf =
        overlay (take 4096 buf) (take 4096 bs) @ pages (?af @ chunks (Suc a) (drop 4096 bs)) (Suc a) (drop 4096 buf)"
    proof -
      have "buf \<noteq> []" using False "1.prems"(3) by auto
      then show ?thesis using f by (simp add: pages.simps [of _ a buf] ch)
    qed
    have "take (length (drop 4096 bs)) (pages (?af @ chunks (Suc a) (drop 4096 bs)) (Suc a) (drop 4096 buf)) = drop 4096 bs"
      using "1.prems" d next_chunk [OF False "1.prems"(2)] by (intro "1.IH" [OF False]) (auto simp: ch)
    then show ?thesis
      using "1.prems"(3) unfolding p by (cases "length bs \<le> 4096") (simp_all add: overlay_def)
  qed simp
qed

subsection \<open>Releasing\<close>

lemma free_fds_close:
  assumes "get_fd s fd = Some f"
  shows "free_fds (set_fd s fd None) = Suc (free_fds s)"
proof -
  have i: "nat fd < length (fdtab s)" "fdtab s ! nat fd = Some f"
    using assms by (simp_all add: get_fd_def split: if_splits)
  then show ?thesis
    using free_fds_update [of "nat fd" "(fdtab s)[nat fd := None]" f]
    by (simp add: free_fds_def set_fd_def list_update_same_conv [THEN iffD2])
qed

lemma first_free_close: "get_fd s fd \<noteq> None \<Longrightarrow> first_free (set_fd s fd None) \<noteq> None"
  by (auto simp: first_free_def free_slot_None set_fd_def get_fd_def set_update_memI split: if_splits)

lemma close_files [simp]:
  "is_dir (set_fd s fd f) q = is_dir s q"
  "reg_content (set_fd s fd f) q = reg_content s q"
  by (simp_all add: is_dir_def reg_content_def cong: option.case_cong)

lemma store_ok_close:
  assumes "store_ok sha D bs s" "get_fd s fd \<noteq> None"
  shows "store_ok sha D bs (set_fd s fd None)"
proof -
  have rg: "fd_range s fd" "0 \<le> fd" using assms(2) get_fd_range by (auto simp: fd_range_def)
  have "of_ino g < next_ino s" if "get_fd (set_fd s fd None) fd' = Some g" for fd' g
    using that rg store_okD(3) [OF assms(1)] by (cases "fd' = fd") (auto simp: os_wf_def)
  then have "os_wf (set_fd s fd None)" using store_okD(3) [OF assms(1)] by (simp add: os_wf_def)
  then show ?thesis
    using assms(1) first_free_close [OF assms(2)]
    by (simp add: store_ok_def ready_def stored_def)
qed

lemma release_opened:
  assumes ok: "session_ok (cfs bb) s" and op: "opened sha D (cfs bb) i af s"
    and fd: "cfs_get_file (cfs bb) fd = Some i" "f_fd (files (cfs bb) ! i) = fd" "s32 fd = fd"
  defines "file \<equiv> files (cfs bb) ! i"
  shows "\<exists>st' s'. bb_release bb fd s = Some ((0, bb\<lparr>cfs := st'\<rparr>), s') \<and>
    closed_file sha D (storage st') (f_path file) (f_size file) af s' \<and> session_ok st' s' \<and> left (cfs bb) fd st' \<and>
    free_fds s' = Suc (free_fds s) \<and> names s' = names s \<and> inodes s' = inodes s \<and> refs_valid s' = refs_valid s \<and>
    (\<forall>fd'. fd' \<noteq> fd \<longrightarrow> get_fd s' fd' = get_fd s fd')"
proof -
  obtain f where f: "on_disk sha D (cfs bb) i af f s" using op by (auto simp: opened_def)
  note od = on_diskD [OF f]
  have g: "get_fd s fd = Some f" and id: "ideal s"
    using od(1,5) fd(2) store_okD(2) by (auto simp: live_def)
  have rg: "fd_range s fd" "0 \<le> fd" "fd \<noteq> -1" using get_fd_range [OF g] by (auto simp: fd_range_def)
  have mem: "fd \<in> set (fds (cfs bb))" using fd(1) get_file_mem by fastforce
  have r: "registry_ok (cfs bb)" using ok by (simp add: session_ok_def)
  obtain st' where st': "cfs_release_file (cfs bb) fd = Some (0, st')" "registry_ok st'" "left (cfs bb) fd st'"
    using release_keeps [OF r mem rg(3)] by blast
  let ?s' = "set_fd s fd None"
  have "bb_release bb fd s = Some ((0, bb\<lparr>cfs := st'\<rparr>), ?s')"
    using st'(1) fd(2,3) id od(5) by (simp add: bb_release_def ideal_simps)
  moreover have "closed_file sha D (storage st') (f_path file) (f_size file) af ?s'"
  proof -
    have "storage st' = storage (cfs bb)" using st'(3) by (simp add: left_def)
    moreover have "store_ok sha D (storage (cfs bb)) ?s'" using store_ok_close [OF od(1)] g by simp
    ultimately show ?thesis
      using f unfolding closed_file_def on_disk_def file_def live_def
      by (intro exI [of _ "of_ino f"]) (simp add: apart_def)
  qed
  moreover have "session_ok st' ?s'"
    using rg by (intro session_ok_left [OF ok st'(2,3)]) simp_all
  ultimately show ?thesis using st'(3) free_fds_close [OF g] rg by (intro exI [of _ st'] exI [of _ ?s']) simp
qed

subsection \<open>What a handler on one file leaves alone\<close>

lemma session_ok_evolves:
  assumes "session_ok st s" "evolves sha D bs p fd s s'" "advanced i n st st'"
  shows "session_ok st' s'"
  using assms(1,2) advanced_frame(1) [OF assms(3)]
  by (auto simp: session_ok_def registry_ok_def evolves_def)

lemma free_fds_evolves:
  assumes "evolves sha D bs p fd s s'"
  shows "free_fds s' = free_fds s"
proof -
  have l: "length (fdtab s') = length (fdtab s)" using assms by (simp add: evolves_def)
  have "map (\<lambda>x. x = None) (fdtab s') = map (\<lambda>x. x = None) (fdtab s)"
  proof (rule nth_equalityI)
    fix k
    assume "k < length (map (\<lambda>x. x = None) (fdtab s'))"
    then have k: "k < length (fdtab s)" using l by simp
    have "get_fd s' (int k) = None \<longleftrightarrow> get_fd s (int k) = None"
      using assms by (simp add: evolves_def)
    then show "map (\<lambda>x. x = None) (fdtab s') ! k = map (\<lambda>x. x = None) (fdtab s) ! k"
      using k l by (simp add: get_fd_def)
  qed (simp add: l)
  then have "filter id (map (\<lambda>x. x = None) (fdtab s')) = filter id (map (\<lambda>x. x = None) (fdtab s))" by simp
  then have "length (filter id (map (\<lambda>x. x = None) (fdtab s'))) = length (filter id (map (\<lambda>x. x = None) (fdtab s)))" by simp
  then show ?thesis by (simp add: free_fds_def filter_map comp_def)
qed

lemma closed_file_evolves:
  assumes "closed_file sha D bs q sz af s" "evolves sha D bs p fd s s'" "names s q \<noteq> names s p" "store_ok sha D bs s'"
  shows "closed_file sha D bs q sz af s'"
proof -
  obtain n where n: "store_ok sha D bs s" "names s q = Some n" "q \<notin> block_of sha bs ` D"
    "inodes s n = Some (Reg (file_image sz (of_nat (length af)) (table_of sha af)))"
    "distinct (map fst af)" "23 + 28 * length af < 2147483648"
    "\<forall>d \<in> snd ` set af. d \<in> D \<and> names s (block_of sha bs d) \<noteq> None" "apart sha D bs n s"
    using assms(1) by (auto simp: closed_file_def)
  have nn: "n < next_ino s" using store_okD(3) [OF n(1)] n(2) by (auto simp: os_wf_def)
  have keep: "names s' x = Some m" if "names s x = Some m" for x m
    using assms(2) that by (simp add: evolves_def)
  have new: "names s x = Some m \<or> next_ino s \<le> m" if "names s' x = Some m" for x m
    using assms(2) that unfolding evolves_def by blast
  have "inodes s' n = inodes s n"
    using assms(2,3) nn n(2) by (simp add: evolves_def)
  moreover have "apart sha D bs n s'"
    using n(8) new nn unfolding apart_def by (metis not_le)
  moreover have "names s' (block_of sha bs d) \<noteq> None" if "names s (block_of sha bs d) \<noteq> None" for d
    using keep that by fastforce
  ultimately show ?thesis
    using n assms(4) keep unfolding closed_file_def by (intro exI [of _ n]) auto
qed

lemma closed_file_same:
  assumes "closed_file sha D bs q sz af s" "names s' = names s" "inodes s' = inodes s" "store_ok sha D bs s'"
  shows "closed_file sha D bs q sz af s'"
  using assms by (simp add: closed_file_def apart_def)

lemma advanced_other: "advanced i n st st' \<Longrightarrow> j \<noteq> i \<Longrightarrow> files st' ! j = files st ! j"
  by (auto simp: advanced_def)

text \<open>Writing a file, with what it does to the rest.\<close>

lemma write_session:
  assumes "session_ok (cfs bb) s" "cfs_get_file (cfs bb) (s32 fh) = Some i"
    "opened sha D (cfs bb) i af s" "fresh_blocks D af a bs"
  shows "\<exists>st' s'. bb_write sha bb bs (int (length bs)) (4096 * int a) fh s = Some ((int (length bs), bb\<lparr>cfs := st'\<rparr>), s') \<and>
    opened sha D st' i (af @ chunks a bs) s' \<and> session_ok st' s' \<and> free_fds s' = free_fds s \<and>
    cfs_get_file st' (s32 fh) = Some i \<and> storage st' = storage (cfs bb) \<and>
    files st' ! i = (files (cfs bb) ! i)\<lparr>f_size := f_size (files (cfs bb) ! i) + of_nat (length bs),
      f_total_blocks := f_total_blocks (files st' ! i)\<rparr> \<and>
    evolves sha D (storage (cfs bb)) (f_path (files (cfs bb) ! i)) (f_fd (files (cfs bb) ! i)) s s'"
proof -
  obtain st' s' where w: "bb_write sha bb bs (int (length bs)) (4096 * int a) fh s = Some ((int (length bs), bb\<lparr>cfs := st'\<rparr>), s')"
    "opened sha D st' i (af @ chunks a bs) s'" "advanced i (length bs) (cfs bb) st'"
    "evolves sha D (storage (cfs bb)) (f_path (files (cfs bb) ! i)) (f_fd (files (cfs bb) ! i)) s s'"
    using write_aligned [OF assms(2-4)] by blast
  have "cfs_get_file st' (s32 fh) = Some i" "storage st' = storage (cfs bb)"
    using assms(2) advanced_frame(1) [OF w(3)] by (simp_all add: cfs_get_file_def)
  moreover have "files st' ! i = (files (cfs bb) ! i)\<lparr>f_size := f_size (files (cfs bb) ! i) + of_nat (length bs),
      f_total_blocks := f_total_blocks (files st' ! i)\<rparr>"
    using w(3) opened_range [OF assms(3)] by (auto simp: advanced_def)
  ultimately show ?thesis
    using w session_ok_evolves [OF assms(1) w(4,3)] free_fds_evolves [OF w(4)] by blast
qed

subsection \<open>A whole session\<close>

text \<open>Open, write, release; then open and read.\<close>

lemma write_session_closed:
  assumes "bb_fullpath bb path = Some p" "session_ok (cfs bb) s" "2 \<le> free_fds s"
    and "closed_file sha D (storage (cfs bb)) p sz af s" "fresh_blocks D af a bs"
  shows "\<exists>fd st1 s1 st2 s2 st3 s3.
    bb_open bb path s = Some ((0, fd, bb\<lparr>cfs := st1\<rparr>), s1) \<and>
    bb_write sha (bb\<lparr>cfs := st1\<rparr>) bs (int (length bs)) (4096 * int a) fd s1
      = Some ((int (length bs), bb\<lparr>cfs := st2\<rparr>), s2) \<and>
    bb_release (bb\<lparr>cfs := st2\<rparr>) fd s2 = Some ((0, bb\<lparr>cfs := st3\<rparr>), s3) \<and>
    closed_file sha D (storage (cfs bb)) p (sz + of_nat (length bs)) (af @ chunks a bs) s3 \<and>
    session_ok st3 s3 \<and> free_fds s3 = free_fds s \<and> storage st3 = storage (cfs bb) \<and> refs_valid s3 = refs_valid s \<and>
    (\<forall>q szq aq. names s q \<noteq> names s p \<longrightarrow> closed_file sha D (storage (cfs bb)) q szq aq s \<longrightarrow>
       closed_file sha D (storage (cfs bb)) q szq aq s3)"
proof -
  obtain fd i st1 s1 where o: "bb_open bb path s = Some ((0, fd, bb\<lparr>cfs := st1\<rparr>), s1)"
    "cfs_get_file st1 fd = Some i" "opened sha D st1 i af s1"
    "files st1 ! i = \<lparr>f_path = p, f_offset = 0, f_size = sz, f_total_blocks = of_nat (length af), f_fd = fd\<rparr>"
    "session_ok st1 s1" "entered (cfs bb) p fd st1" "s32 fd = fd" "Suc (free_fds s1) = free_fds s"
    "names s1 = names s" "inodes s1 = inodes s" "refs_valid s1 = refs_valid s"
    using open_closed [OF assms(1-4)] by blast
  have sto: "storage st1 = storage (cfs bb)" using o(6) by (simp add: entered_def)
  let ?bb1 = "bb\<lparr>cfs := st1\<rparr>"
  obtain st2 s2 where w: "bb_write sha ?bb1 bs (int (length bs)) (4096 * int a) fd s1 = Some ((int (length bs), ?bb1\<lparr>cfs := st2\<rparr>), s2)"
    "opened sha D st2 i (af @ chunks a bs) s2" "session_ok st2 s2" "free_fds s2 = free_fds s1"
    "cfs_get_file st2 fd = Some i" "storage st2 = storage st1"
    "files st2 ! i = (files st1 ! i)\<lparr>f_size := f_size (files st1 ! i) + of_nat (length bs),
      f_total_blocks := f_total_blocks (files st2 ! i)\<rparr>"
    "evolves sha D (storage st1) (f_path (files st1 ! i)) (f_fd (files st1 ! i)) s1 s2"
    using write_session [of ?bb1 s1 fd i sha D af a bs] o assms(5) by auto
  have fl: "f_path (files st2 ! i) = p" "f_fd (files st2 ! i) = fd" "f_size (files st2 ! i) = sz + of_nat (length bs)"
    by (subst w(7), simp add: o(4))+
  let ?bb2 = "bb\<lparr>cfs := st2\<rparr>"
  obtain st3 s3 where r: "bb_release ?bb2 fd s2 = Some ((0, ?bb2\<lparr>cfs := st3\<rparr>), s3)"
    "closed_file sha D (storage st3) p (sz + of_nat (length bs)) (af @ chunks a bs) s3" "session_ok st3 s3"
    "left st2 fd st3" "free_fds s3 = Suc (free_fds s2)" "names s3 = names s2" "inodes s3 = inodes s2" "refs_valid s3 = refs_valid s2"
    using release_opened [of ?bb2 s2 sha D i "af @ chunks a bs" fd] w(2,3,5) fl o(7) by auto
  have "storage st3 = storage (cfs bb)" using r(4) w(6) sto by (simp add: left_def)
  moreover have "free_fds s3 = free_fds s" using r(5) w(4) o(8) by simp
  moreover have "refs_valid s3 = refs_valid s" using r(8) evolves_refs [OF w(8)] o(11) by simp
  moreover have "closed_file sha D (storage (cfs bb)) q szq aq s3"
    if "names s q \<noteq> names s p" "closed_file sha D (storage (cfs bb)) q szq aq s" for q szq aq
  proof -
    have "closed_file sha D (storage (cfs bb)) q szq aq s1"
      using closed_file_same [OF that(2) o(9,10)] opened_store [OF o(3)] sto by simp
    then have "closed_file sha D (storage (cfs bb)) q szq aq s2"
      using closed_file_evolves [of sha D "storage (cfs bb)" q szq aq s1 p fd s2] w(8) that(1) o(4,9) opened_store [OF w(2)] w(6) sto
      by simp
    then show ?thesis
      using closed_file_same [OF _ r(6,7)] r(2) \<open>storage st3 = storage (cfs bb)\<close> by (auto simp: closed_file_def)
  qed
  ultimately show ?thesis
    using o(1) w(1) r(1-3)
    by (intro exI [of _ fd] exI [of _ st1] exI [of _ s1] exI [of _ st2] exI [of _ s2] exI [of _ st3] exI [of _ s3]) simp
qed

lemma read_session:
  assumes "bb_fullpath bb path = Some p" "session_ok (cfs bb) s" "2 \<le> free_fds s"
    and "closed_file sha D (storage (cfs bb)) p sz af s" "refs_valid s"
    and "length buf = 4096 * m" "4096 * (a + m) < 9223372036854775808" "4096 * m < 2147483648"
  shows "\<exists>fd st1 s1 s2. bb_open bb path s = Some ((0, fd, bb\<lparr>cfs := st1\<rparr>), s1) \<and>
    bb_read (bb\<lparr>cfs := st1\<rparr>) buf (int (length buf)) (4096 * int a) fd s1
      = Some ((int (length buf), pages af a buf, bb\<lparr>cfs := st1\<rparr>), s2)"
proof -
  obtain fd i st1 s1 where o: "bb_open bb path s = Some ((0, fd, bb\<lparr>cfs := st1\<rparr>), s1)"
    "cfs_get_file st1 fd = Some i" "opened sha D st1 i af s1" "s32 fd = fd" "refs_valid s1 = refs_valid s"
    using open_closed [OF assms(1-4)] by blast
  then show ?thesis
    using read_aligned [of "bb\<lparr>cfs := st1\<rparr>" fd i sha D af s1 buf m a] assms(5-8) by fastforce
qed

text \<open>From nothing: a file is made, then written; what is then read is what was written.\<close>

lemma session_ok_new_node: "session_ok st (new_node p nd s) = session_ok st s" "free_fds (new_node p nd s) = free_fds s"
  by (simp_all add: session_ok_def free_fds_def new_node_def get_fd_def)

lemma read_back:
  assumes "bb_fullpath bb path = Some p" "session_ok (cfs bb) s" "2 \<le> free_fds s"
    and "closed_file sha D (storage (cfs bb)) p sz (af @ chunks a bs) s" "refs_valid s" "fresh_blocks D af a bs"
    and "length buf = 4096 * m" "length bs \<le> 4096 * m" "4096 * (a + m) < 9223372036854775808" "4096 * m < 2147483648"
  shows "\<exists>fd st1 s1 data s2. bb_open bb path s = Some ((0, fd, bb\<lparr>cfs := st1\<rparr>), s1) \<and>
    bb_read (bb\<lparr>cfs := st1\<rparr>) buf (int (length buf)) (4096 * int a) fd s1
      = Some ((int (length buf), data, bb\<lparr>cfs := st1\<rparr>), s2) \<and> take (length bs) data = bs"
proof -
  have "take (length bs) (pages (af @ chunks a bs) a buf) = bs"
    using assms(6-8) by (intro pages_written) (simp_all add: fresh_blocks_def)
  then show ?thesis
    using read_session [OF assms(1-5,7,9,10)] by blast
qed

subsection \<open>Blocks that are there already\<close>

lemma store_ok_subset: "store_ok sha D bs s \<Longrightarrow> D' \<subseteq> D \<Longrightarrow> store_ok sha D' bs s"
  by (auto simp: store_ok_def keys_ok_def inj_on_def subset_iff)

lemma opened_subset:
  assumes "opened sha D st i af s" "D' \<subseteq> D" "snd ` set af \<subseteq> D'"
  shows "opened sha D' st i af s"
proof -
  obtain f where "on_disk sha D st i af f s" using assms(1) by (auto simp: opened_def)
  then have "on_disk sha D' st i af f s"
    using assms(2,3) store_ok_subset [OF _ assms(2)] unfolding on_disk_def apart_def by (fastforce simp: subset_iff)
  then show ?thesis by (auto simp: opened_def)
qed

lemma evolves_stored_names:
  assumes "evolves sha D bs p fd s s'" "\<forall>d \<in> D. names s (block_of sha bs d) \<noteq> None"
  shows "names s' = names s"
proof
  fix q
  show "names s' q = names s q"
  proof (cases "names s q")
    case (Some m)
    then show ?thesis using assms(1) by (simp add: evolves_def)
  next
    case None
    then have "names s' q = Some m \<Longrightarrow> False" for m
      using assms(1,2) unfolding evolves_def by (metis (no_types, lifting) image_iff option.distinct(1))
    then show ?thesis using None by (cases "names s' q") auto
  qed
qed

end
