(* ===== verification/Faults.thy ===== *)
theory Faults
  imports Bbfs_Session
begin

text \<open>
  How errors come back: the contract of a system call and what \<open>log_syscall\<close> makes of it, a block
  that cannot be stored, a search that cannot end.
\<close>

subsection \<open>System calls\<close>

text \<open>Every \<open>errno\<close> to come is positive.\<close>

definition sane :: "os \<Rightarrow> bool" where
  "sane s \<longleftrightarrow> (\<forall>c e. Fail e \<in> set (sched s c) \<longrightarrow> 0 < e)"

lemma sane_update [simp]:
  "sane (s\<lparr>errno := e\<rparr>) = sane s"
  "sane (s\<lparr>names := ns\<rparr>) = sane s"
  "sane (set_fd s fd f) = sane s"
  "sane (new_node p nd s) = sane s"
  by (simp_all add: sane_def new_node_def)

lemma sane_draw: "draw c s = (o1, s1) \<Longrightarrow> sane s \<Longrightarrow> sane s1 \<and> (\<forall>e. o1 = Fail e \<longrightarrow> 0 < e)"
  by (auto simp: draw_def sane_def split: list.splits if_splits) (metis list.set_intros(1,2))+

text \<open>A call returns a natural number, or fails and leaves a positive \<open>errno\<close>.\<close>

locale posix_call =
  fixes call :: "os \<Rightarrow> int \<times> os"
  assumes sane_call: "sane s \<Longrightarrow> call s = (r, s') \<Longrightarrow> sane s' \<and> (r < 0 \<longrightarrow> 0 < errno s')"
begin

lemma log_msg_sane: "sane s \<Longrightarrow> 0 < errno s \<Longrightarrow> sane (log_msg s) \<and> 0 < errno (log_msg s)"
  using sane_draw draw_cases(4) by (fastforce simp: log_msg_def split: prod.splits outcome.splits)

lemma log_msg_sane': "sane s \<Longrightarrow> sane (log_msg s)"
  using sane_draw by (fastforce simp: log_msg_def split: prod.splits outcome.splits)

text \<open>The handler's result is negative exactly when the call has failed, log or no log.\<close>

lemma reported:
  assumes "sane s" "call s = (r, s1)" "log_syscall r 0 s1 = (r', s2)"
  shows "sane s2 \<and> (r < 0 \<longleftrightarrow> r' < 0) \<and> (0 \<le> r \<longrightarrow> r' = r)"
proof -
  note c = sane_call [OF assms(1,2)]
  have l: "sane (log_retstat s1)" using c log_msg_sane' by (simp add: log_retstat_def Let_def)
  show ?thesis
  proof (cases "r < 0")
    case True
    then have "0 < errno (log_retstat s1)" using c by (simp add: log_retstat_errno)
    then show ?thesis
      using True assms(3) log_msg_sane [OF l] by (auto simp: log_syscall_def log_error_def Let_def)
  next
    case False
    then show ?thesis using assms(3) l by (auto simp: log_syscall_def Let_def)
  qed
qed

end

lemma sane_fail: "fail e s = (r, s') \<Longrightarrow> sane s \<Longrightarrow> 0 < e \<Longrightarrow> sane s' \<and> 0 < errno s'"
  by (auto simp: fail_def)

interpretation call_mkdir: posix_call "sys_mkdir p" for p
  by unfold_locales
    (auto simp: sys_mkdir_def fail_def split: prod.splits outcome.splits if_splits dest: sane_draw)

interpretation call_unlink: posix_call "sys_unlink p" for p
  by unfold_locales
    (auto simp: sys_unlink_def fail_def split: prod.splits outcome.splits if_splits option.splits dest: sane_draw)

interpretation call_access: posix_call "sys_access p" for p
  by unfold_locales
    (auto simp: sys_access_def fail_def split: prod.splits outcome.splits if_splits dest: sane_draw)

interpretation call_close: posix_call "sys_close fd" for fd
  by unfold_locales
    (auto simp: sys_close_def fail_def split: prod.splits outcome.splits option.splits dest: sane_draw)

interpretation call_open: posix_call "sys_open p fl" for p fl
  by unfold_locales
    (auto simp: sys_open_def install_def fail_def split: prod.splits outcome.splits option.splits if_splits dest: sane_draw)

subsection \<open>A block that cannot be stored\<close>

lemma register_block_store_failure:
  assumes "lock st = Unlocked" "r < 0"
    and "store_block (storage st) (b_data b) (unat (b_size b)) (sha (take (unat (b_size b)) (b_data b))) s = (r, s')"
  shows "cfs_file_register_block sha st i b s = Some ((r, st\<lparr>lock := Broken\<rparr>), s')"
  using assms by (simp add: cfs_file_register_block_def calculate_hash_def mutex_lock_def mutex_unlock_def)

lemma broken_mutex:
  assumes "lock st = Broken"
  shows "cfs_file_register_block sha st i b s = None" "cfs_file_read_block st i ix buff s = None"
    "cfs_register_file st p fd s = None" "cfs_release_file st fd = None"
  using assms
  by (simp_all add: cfs_file_register_block_def cfs_file_read_block_def cfs_register_file_def cfs_release_file_def
      calculate_hash_def mutex_lock_def)

subsection \<open>A search that does not end\<close>

lemma s_read_closed: "ideal s \<Longrightarrow> get_fd s fd = None \<Longrightarrow> s_read fd n s = ((-1, []), s\<lparr>errno := EBADF\<rparr>)"
  by (simp add: s_read_def s_read_loop.simps [of fd n s] sys_read_def ideal_simps)

lemma s_lseek_closed:
  "ideal s \<Longrightarrow> get_fd s fd = None \<Longrightarrow> s_lseek_decl fd off wh s = Some (-1, s\<lparr>errno := EBADF\<rparr>)"
  by (simp add: s_lseek_decl_def s_lseek.simps [of fd] sys_lseek_def fail_def ideal_simps)

lemma find_pair_closed:
  assumes "find_pair fd ix buf s = Some res" "ideal s" "get_fd s fd = None" "dec64 buf \<noteq> ix"
  shows False
  using assms(2-4)
proof (induction rule: find_pair.raw_induct [OF _ assms(1)])
  case (1 find fd ix buf s res)
  have "find fd ix buf (s\<lparr>errno := EBADF\<rparr>) = Some res"
    using "1.prems" "1"(2) by (simp add: s_read_closed s_lseek_closed)
  then show ?case using "1.prems" by (intro "1"(1) [of fd ix buf "s\<lparr>errno := EBADF\<rparr>" res]) simp_all
qed

end
