(* ===== verification/Startup.thy ===== *)
theory Startup
  imports Bbfs_Session
begin

text \<open>
  Mounting, attributes, listing directories, and the sizes of the path buffers.
\<close>

subsection \<open>Mounting\<close>

lemma sys_stat_ideal [ideal_simps]:
  "ideal s \<Longrightarrow> sys_stat p s = (if names s p = None then (-1, s\<lparr>errno := ENOENT\<rparr>) else (0, s))"
  by (simp add: sys_stat_def ideal_simps fail_def)

lemma sys_mkdir_ideal [ideal_simps]:
  "ideal s \<Longrightarrow> names s p = None \<Longrightarrow> is_dir s (parent_of p) \<Longrightarrow> sys_mkdir p s = (0, new_node p Dir s)"
  by (simp add: sys_mkdir_def ideal_simps)

definition mounted :: "string \<Rightarrow> os \<Rightarrow> os" where
  "mounted root s = (let p = root @ DIR_SEPARATOR # BLOCKS_DIRECTORY in
     if names s p = None then new_node p Dir (s\<lparr>errno := ENOENT\<rparr>) else s)"

lemma init_storage_ideal:
  assumes "ideal s" "is_dir s root" "root \<noteq> []" "last root \<noteq> DIR_SEPARATOR"
  shows "init_storage root s = ((1, \<lparr>root_path = root, blocks_path = root @ DIR_SEPARATOR # BLOCKS_DIRECTORY,
    block_fname_size = length root + 52\<rparr>), mounted root s)"
proof -
  have "combine root BLOCKS_DIRECTORY = root @ DIR_SEPARATOR # BLOCKS_DIRECTORY"
    using assms(3,4) by (simp add: combine_name)
  moreover have "parent_of (root @ DIR_SEPARATOR # BLOCKS_DIRECTORY) = root"
    using assms(3) by (simp add: parent_of_name)
  moreover have "is_dir (s\<lparr>errno := e\<rparr>) p = is_dir s p" for e p by (simp add: is_dir_def split: option.split)
  ultimately show ?thesis
    using assms(1,2) by (simp add: init_storage_def Let_def malloc_ideal ideal_simps mounted_def)
qed

lemma mounted_ready:
  assumes "ideal s" "os_wf s" "first_free s \<noteq> None" "root \<noteq> []"
    and "names s (root @ DIR_SEPARATOR # BLOCKS_DIRECTORY) = None \<or> is_dir s (root @ DIR_SEPARATOR # BLOCKS_DIRECTORY)"
    and "blocks_path bs = root @ DIR_SEPARATOR # BLOCKS_DIRECTORY"
  shows "ready bs (mounted root s)"
proof (cases "names s (root @ DIR_SEPARATOR # BLOCKS_DIRECTORY) = None")
  case True
  have "os_wf (new_node p Dir (s\<lparr>errno := e\<rparr>))" for p e
  proof -
    have "names (new_node p Dir (s\<lparr>errno := e\<rparr>)) = (names s)(p \<mapsto> next_ino s)"
      "next_ino (new_node p Dir (s\<lparr>errno := e\<rparr>)) = Suc (next_ino s)" by (simp_all add: new_node_def)
    then show ?thesis using assms(2) by (fastforce simp: os_wf_def less_Suc_eq)
  qed
  with True show ?thesis
    using assms by (simp add: ready_def mounted_def storage_dir_def is_dir_def new_node_def Let_def ideal_def first_free_def)
next
  case False
  with assms show ?thesis by (auto simp: ready_def mounted_def storage_dir_def Let_def)
qed

lemma init_ready:
  assumes "ideal s" "os_wf s" "first_free s \<noteq> None" "length (fdtab s) < 2147483648" "is_dir s root" "root \<noteq> []"
    "last root \<noteq> DIR_SEPARATOR" "0 \<le> open_max"
    and "names s (root @ DIR_SEPARATOR # BLOCKS_DIRECTORY) = None \<or> is_dir s (root @ DIR_SEPARATOR # BLOCKS_DIRECTORY)"
  shows "\<exists>st'. cfs_init open_max root st s = Some ((0, st'), mounted root s) \<and>
    ready (storage st') (mounted root s) \<and> session_ok st' (mounted root s) \<and>
    blocks_path (storage st') = root @ DIR_SEPARATOR # BLOCKS_DIRECTORY"
proof -
  have "ideal (mounted root s)" "fdtab (mounted root s) = fdtab s"
    using assms(1) by (simp_all add: mounted_def Let_def new_node_def ideal_def)
  moreover have "registry_ok st'" if "fds st' = replicate 20 (-1)" "length (files st') = 20" "n_fds st' = 0" "lock st' = Unlocked" for st'
    using that by (simp add: registry_ok_def slots_ok_def used_def)
  ultimately show ?thesis
    using assms mounted_ready [OF assms(1-3,6,9)]
    by (simp add: cfs_init_def init_storage_ideal malloc_ideal Let_def session_ok_def)
qed

subsection \<open>Sizes of the path buffers\<close>

lemma block_path_fits:
  assumes "bs = snd (fst (init_storage root s))" "fst (fst (init_storage root s)) = 1" "length h = HASH_LENGTH"
  shows "length (block_path bs h) + 1 \<le> block_fname_size bs" "length (blocks_path bs) + 1 \<le> length root + 9" "root_path bs = root"
proof -
  show "root_path bs = root" using assms(1,2) by (auto simp: init_storage_def Let_def split: prod.splits if_splits)
  have bs: "blocks_path bs = combine root BLOCKS_DIRECTORY" "block_fname_size bs = length root + 52"
    using assms(1,2) by (auto simp: init_storage_def Let_def split: prod.splits if_splits)
  have "length (blocks_path bs) \<le> length root + 8"
    using combine_length [of root BLOCKS_DIRECTORY] by (simp add: bs)
  moreover have "length (block_path bs h) \<le> length (blocks_path bs) + 1 + 38"
    using combine_length [of "blocks_path bs" "hex_bytes (take 19 h)"] assms(3)
    by (simp add: block_path_def hexify_name)
  ultimately show "length (block_path bs h) + 1 \<le> block_fname_size bs" "length (blocks_path bs) + 1 \<le> length root + 9"
    by (simp_all add: bs)
qed

subsection \<open>Attributes\<close>

lemma file_stat_truthy: "cfs_file_stat p buf s = ((r, buf'), s') \<Longrightarrow> r = -1 \<or> 0 < r"
  by (auto simp: cfs_file_stat_def Let_def split: prod.splits if_splits)

lemma magic_matches: "c_string (MAGIC @ [0]) = c_string MAGIC"
  by (simp add: c_string_def MAGIC_def)

lemma file_stat_closed:
  assumes "ideal s" "names s p = Some n" "inodes s n = Some (Reg (file_image sz k tbl))" "first_free s = Some fd"
  shows "cfs_file_stat p buf s = ((8, buf\<lparr>f_size := sz, f_total_blocks := k\<rparr>),
    upd_file s fd \<lparr>of_ino = n, of_pos = 23, of_rd = True, of_wr = False, of_lock = F_UNLCK\<rparr> (file_image sz k tbl))"
proof -
  let ?c = "file_image sz k tbl"
  note ff = first_free_Some [OF assms(4)]
  note h = header_fields [of sz k tbl]
  have m: "take 7 ?c = MAGIC" "min (length ?c) 7 = 7" "min (length ?c - 7) 8 = 8" "min (length ?c - 15) 8 = 8"
    using h(3) by (simp_all add: file_image_def)
  show ?thesis
    using assms ff h m magic_matches
    by (simp add: cfs_file_stat_def ideal_simps Let_def)
qed

lemma s_read_dir:
  "ideal s \<Longrightarrow> get_fd s fd = Some f \<Longrightarrow> inodes s (of_ino f) = Some Dir \<Longrightarrow> of_rd f \<Longrightarrow>
   s_read fd n s = ((-1, []), s\<lparr>errno := EISDIR\<rparr>)"
  by (simp add: s_read_def s_read_loop.simps [of fd n s] sys_read_def ideal_simps)

lemma dir_stat:
  assumes "ideal s" "names s p = Some n" "inodes s n = Some Dir" "first_free s = Some fd"
  shows "\<exists>s'. cfs_file_stat p buf s = ((-1, buf), s') \<and> Suc (free_fds s') = free_fds s"
proof -
  let ?f = "\<lparr>of_ino = n, of_pos = 0, of_rd = True, of_wr = False, of_lock = F_UNLCK\<rparr>"
  note ff = first_free_Some [OF assms(4)]
  let ?s = "set_fd s fd (Some ?f)"
  have o: "sys_open p O_RDONLY s = (fd, ?s)"
    using assms by (auto simp: sys_open_def install_def ideal_simps first_free_def)
  have id: "ideal ?s" using assms(1) by (simp add: ideal_def)
  have r: "s_read fd k (?s\<lparr>errno := e\<rparr>) = ((-1, []), ?s\<lparr>errno := EISDIR\<rparr>)" "s_read fd k ?s = ((-1, []), ?s\<lparr>errno := EISDIR\<rparr>)" for k e
    using s_read_dir [of "?s\<lparr>errno := e\<rparr>" fd ?f k] s_read_dir [of ?s fd ?f k] id assms(3) ff by simp_all
  have "cfs_file_stat p buf s = ((-1, buf), ?s\<lparr>errno := EISDIR\<rparr>)"
    using o r ff by (simp add: cfs_file_stat_def Let_def)
  moreover have "Suc (free_fds (?s\<lparr>errno := EISDIR\<rparr>)) = free_fds s"
    using free_slot_Some [of "fdtab s"] assms(4)
    by (auto simp: first_free_def free_fds_def set_fd_def free_fds_update)
  ultimately show ?thesis by blast
qed

subsection \<open>Listing a directory\<close>

text \<open>\<open>lists readdir dp s ns s'\<close>: from \<open>s\<close> on, \<open>readdir\<close> yields the names \<open>ns\<close> and then the end.\<close>

inductive lists :: "(int \<Rightarrow> os \<Rightarrow> string option \<times> os) \<Rightarrow> int \<Rightarrow> os \<Rightarrow> string list \<Rightarrow> os \<Rightarrow> bool"
  for readdir :: "int \<Rightarrow> os \<Rightarrow> string option \<times> os" and dp :: int where
  lists_end: "readdir dp s = (None, s') \<Longrightarrow> lists readdir dp s [] s'"
| lists_next: "readdir dp s = (Some n, s1) \<Longrightarrow> lists readdir dp s1 ns s' \<Longrightarrow> lists readdir dp s (n # ns) s'"

inductive_cases lists_ConsE: "lists readdir dp s (n # ns) s'"

text \<open>The names offered to \<open>filler\<close> one by one until it is full.\<close>

fun fill :: "('b \<Rightarrow> string \<Rightarrow> int \<times> 'b) \<Rightarrow> 'b \<Rightarrow> string list \<Rightarrow> int \<times> 'b" where
  "fill filler buf [] = (0, buf)"
| "fill filler buf (n # ns) = (let (full, buf) = filler buf n in
     if full \<noteq> 0 then (- ENOMEM, buf) else fill filler buf ns)"

lemma readdir_loop_fills:
  "lists readdir dp s ns s' \<Longrightarrow>
   \<exists>s''. bb_readdir_loop readdir filler dp n buf s = Some (fill filler buf (filter (\<lambda>n. n \<noteq> BLOCKS_DIRECTORY) (n # ns)), s'')"
proof (induction s ns s' arbitrary: n buf rule: lists.induct)
  case (lists_end s s')
  then show ?case by (subst bb_readdir_loop.simps) (auto split: prod.split)
next
  case (lists_next s m s1 ns s')
  show ?case
  proof (cases "n = BLOCKS_DIRECTORY")
    case True
    then show ?thesis
      using lists_next.IH [of m buf] lists_next.hyps(1) by (subst bb_readdir_loop.simps) simp
  next
    case False
    obtain full buf' where f: "filler buf n = (full, buf')" by fastforce
    then show ?thesis
      using lists_next.IH [of m buf'] lists_next.hyps(1) False by (subst bb_readdir_loop.simps) auto
  qed
qed

lemma readdir_fills:
  assumes "lists readdir (s64 fh) s (n # ns) s'" "log_msg (snd (readdir (s64 fh) s)) = snd (readdir (s64 fh) s)"
  shows "\<exists>s''. bb_readdir readdir filler buf fh s = Some (fill filler buf (filter (\<lambda>n. n \<noteq> BLOCKS_DIRECTORY) (n # ns)), s'')"
  using assms readdir_loop_fills [of readdir "s64 fh" _ ns s' filler n buf]
  by (elim lists_ConsE) (auto simp: bb_readdir_def)

end
