(* ===== verification/Programs.thy ===== *)
theory Programs
  imports Startup
begin

text \<open>
  The handlers that hand a buffer to a system call, and the program \<open>bbfs\<close>, which mounts the file system.
\<close>

subsection \<open>Statistics and extended attributes\<close>

text \<open>The system call yields its result and what it stores in the caller's buffer.\<close>

definition bb_statfs ::
  "(path \<Rightarrow> 'v \<Rightarrow> os \<Rightarrow> (int \<times> 'v) \<times> os) \<Rightarrow> bb_state \<Rightarrow> path \<Rightarrow> 'v \<Rightarrow> os \<Rightarrow> ((int \<times> 'v) \<times> os) option" where
  "bb_statfs statvfs bb path statv s = do {
     fpath \<leftarrow> bb_fullpath bb path;
     let ((r, statv), s) = statvfs fpath statv s;
     let (retstat, s) = log_syscall r 0 s;
     Some ((retstat, statv), s)
   }"

definition bb_setxattr ::
  "(path \<Rightarrow> string \<Rightarrow> byte list \<Rightarrow> int \<Rightarrow> int \<Rightarrow> os \<Rightarrow> int \<times> os) \<Rightarrow> bb_state \<Rightarrow> path \<Rightarrow> string \<Rightarrow> byte list \<Rightarrow> int
     \<Rightarrow> int \<Rightarrow> os \<Rightarrow> (int \<times> os) option" where
  "bb_setxattr lsetxattr bb path name value sz flags s = pass (\<lambda>p. lsetxattr p name value sz flags) bb path s"

definition bb_getxattr ::
  "(path \<Rightarrow> string \<Rightarrow> byte list \<Rightarrow> int \<Rightarrow> os \<Rightarrow> (int \<times> byte list) \<times> os) \<Rightarrow> bb_state \<Rightarrow> path \<Rightarrow> string \<Rightarrow> byte list
     \<Rightarrow> int \<Rightarrow> os \<Rightarrow> ((int \<times> byte list) \<times> os) option" where
  "bb_getxattr lgetxattr bb path name value sz s = do {
     fpath \<leftarrow> bb_fullpath bb path;
     let ((r, value), s) = lgetxattr fpath name value sz s;
     let (retstat, s) = log_syscall r 0 s;
     Some ((retstat, value), s)
   }"

definition bb_removexattr ::
  "(path \<Rightarrow> string \<Rightarrow> os \<Rightarrow> int \<times> os) \<Rightarrow> bb_state \<Rightarrow> path \<Rightarrow> string \<Rightarrow> os \<Rightarrow> (int \<times> os) option" where
  "bb_removexattr lremovexattr bb path name s = pass (\<lambda>p. lremovexattr p name) bb path s"

text \<open>
  The names that \<open>bb_listxattr\<close> logs: from \<open>ptr\<close> on, one after the other, each up to its NUL. A name
  without a NUL is read past the buffer.
\<close>

function logged_names :: "byte list \<Rightarrow> nat \<Rightarrow> nat \<Rightarrow> byte list list option" where
  "logged_names xs n ptr =
     (if ptr < n then
        (let name = takeWhile (\<lambda>b. b \<noteq> 0) (drop ptr xs) in
         if ptr + length name < length xs then map_option (Cons name) (logged_names xs n (ptr + length name + 1))
         else None)
      else Some [])"
  by pat_completeness auto
termination
  by (relation "measure (\<lambda>(xs, n, ptr). n - ptr)") auto

declare logged_names.simps [simp del]

text \<open>The buffer may be a null pointer, when only the length is asked for.\<close>

definition bb_listxattr ::
  "(path \<Rightarrow> byte list option \<Rightarrow> int \<Rightarrow> os \<Rightarrow> (int \<times> byte list option) \<times> os) \<Rightarrow> bb_state \<Rightarrow> path \<Rightarrow> byte list option
     \<Rightarrow> int \<Rightarrow> os \<Rightarrow> ((int \<times> byte list option) \<times> os) option" where
  "bb_listxattr llistxattr bb path xs sz s = do {
     fpath \<leftarrow> bb_fullpath bb path;
     let ((r, xs), s) = llistxattr fpath xs sz s;
     let (retstat, s) = log_syscall r 0 s;
     _ \<leftarrow> (case xs of
            Some ys \<Rightarrow> (if 0 \<le> retstat then logged_names ys (nat retstat) 0 else Some [])
          | None \<Rightarrow> Some []);
     Some ((retstat, xs), s)
   }"

lemma logged_names_from:
  assumes "\<forall>n \<in> set ns. 0 \<notin> set n"
  shows "logged_names (pre @ concat (map (\<lambda>n. n @ [0]) ns) @ post) (length (pre @ concat (map (\<lambda>n. n @ [0]) ns))) (length pre) = Some ns"
  using assms
proof (induction ns arbitrary: pre)
  case Nil
  then show ?case by (simp add: logged_names.simps)
next
  case (Cons n ns)
  have t: "takeWhile (\<lambda>b. b \<noteq> 0) (n @ 0 # ys) = n" for ys
    using Cons.prems by (subst takeWhile_append2) auto
  show ?case
    using Cons.IH [of "pre @ n @ [0]"] Cons.prems by (subst logged_names.simps) (simp add: t Let_def)
qed

text \<open>On what the kernel stores, names that end in NUL one after the other, the handler returns the length.\<close>

lemma listxattr_logs:
  assumes "bb_fullpath bb path = Some p" "ideal s" "\<forall>n \<in> set ns. 0 \<notin> set n"
    and "ys = concat (map (\<lambda>n. n @ [0]) ns)" "llistxattr p xs sz s = ((int (length ys), Some (ys @ rest)), s)"
  shows "bb_listxattr llistxattr bb path xs sz s = Some ((int (length ys), Some (ys @ rest)), s)"
  using assms logged_names_from [of ns "[]" rest] by (simp add: bb_listxattr_def ideal_simps)

subsection \<open>\<open>bbfs\<close>\<close>

text \<open>How a program ends: by returning from \<open>main\<close>, by \<open>exit\<close> or by \<open>abort\<close>.\<close>

datatype program_end = Returned int | Exited int | Aborted

definition bb_usage :: "os \<Rightarrow> program_end \<times> os" where
  "bb_usage s = (Aborted, s)"

text \<open>
  \<open>args\<close> is \<open>argv\<close>; \<open>realpath\<close> answers with a path or a null pointer, of which the code takes the
  length later. \<open>open_max\<close> and the memory \<open>st\<close> are as in \<open>cfs_init\<close>,
  whose result is not looked at. Before \<open>fuse_main\<close> nothing can be logged.
\<close>

definition bbfs_main ::
  "int \<Rightarrow> int \<Rightarrow> (string \<Rightarrow> os \<Rightarrow> string option \<times> os) \<Rightarrow> (string \<Rightarrow> os \<Rightarrow> int \<times> os) \<Rightarrow> int
     \<Rightarrow> (string list \<Rightarrow> bb_state \<Rightarrow> os \<Rightarrow> int \<times> os) \<Rightarrow> cfs_state \<Rightarrow> string list \<Rightarrow> os \<Rightarrow> (program_end \<times> os) option" where
  "bbfs_main uid euid realpath fopen open_max fuse_main st args s =
     (let argc = length args in
      if uid = 0 \<or> euid = 0 then Some (Returned 1, s)
      else if argc < 3 \<or> take 1 (args ! (argc - 2)) = ''-'' \<or> take 1 (args ! (argc - 1)) = ''-'' then Some (bb_usage s)
      else
        (let (ok1, s) = malloc_ok s in
         if \<not> ok1 then Some (Aborted, s)
         else
           (let (root, s) = realpath (args ! (argc - 2)) s;
                args = take (argc - 2) args @ [args ! (argc - 1)];
                (logfile, s) = log_open fopen s
            in if logfile = None then Some (Exited 1, s)
               else
                 (let (ok2, s) = malloc_ok s in
                  if \<not> ok2 then None
                  else do {
                    root \<leftarrow> root;
                    ((_, st), s) \<leftarrow> cfs_init open_max root st s;
                    let (fuse_stat, s) = fuse_main args \<lparr>rootdir = root, cfs = st\<rparr> s;
                    Some (Returned fuse_stat, s)
                  }))))"

lemma bbfs_mounting:
  assumes "ideal s" "os_wf s" "first_free s \<noteq> None" "length (fdtab s) < 2147483648" "is_dir s root" "root \<noteq> []"
    "last root \<noteq> DIR_SEPARATOR" "0 \<le> open_max"
    and "names s (root @ DIR_SEPARATOR # BLOCKS_DIRECTORY) = None \<or> is_dir s (root @ DIR_SEPARATOR # BLOCKS_DIRECTORY)"
    and "uid \<noteq> 0" "euid \<noteq> 0" "opts \<noteq> []" "take 1 arg \<noteq> ''-''" "take 1 mnt \<noteq> ''-''"
    and "realpath arg s = (Some root, s)" "fopen ''bbfs.log'' s = (lg, s)" "lg \<noteq> 0"
  shows "\<exists>st'. bbfs_main uid euid realpath fopen open_max fuse_main st (opts @ [arg, mnt]) s =
      (case fuse_main (opts @ [mnt]) \<lparr>rootdir = root, cfs = st'\<rparr> (mounted root s) of (r, s') \<Rightarrow> Some (Returned r, s')) \<and>
    ready (storage st') (mounted root s) \<and> session_ok st' (mounted root s) \<and>
    blocks_path (storage st') = root @ DIR_SEPARATOR # BLOCKS_DIRECTORY"
proof -
  obtain st' where st': "cfs_init open_max root st s = Some ((0, st'), mounted root s)"
    "ready (storage st') (mounted root s)" "session_ok st' (mounted root s)"
    "blocks_path (storage st') = root @ DIR_SEPARATOR # BLOCKS_DIRECTORY"
    using init_ready [OF assms(1-9)] by blast
  have "\<not> length (opts @ [arg, mnt]) < 3" using assms(12) by (cases opts) simp_all
  moreover have "(opts @ [arg, mnt]) ! (length (opts @ [arg, mnt]) - 2) = arg"
    "(opts @ [arg, mnt]) ! (length (opts @ [arg, mnt]) - 1) = mnt"
    "take (length (opts @ [arg, mnt]) - 2) (opts @ [arg, mnt]) = opts"
    by (simp_all add: nth_append)
  ultimately show ?thesis
    using assms(1,10,11,13-17) st'
    by (intro exI [of _ st']) (simp only: bbfs_main_def Let_def, simp add: malloc_ideal log_open_def)
qed

end
