(* ===== verification/Dumps.thy ===== *)
theory Dumps
  imports Bbfs
begin

text \<open>
  \<open>log.c\<close>: the dumps of FUSE's and the system's structures, as the messages that are passed to \<open>log_msg\<close>,
  and \<open>fakelog.c\<close>, the log of the tools. A field has the width of its C type; a pointer is its address.
\<close>

type_synonym w32 = "32 word"

subsection \<open>Conversions of \<open>printf\<close>\<close>

function digits :: "nat \<Rightarrow> nat \<Rightarrow> nat list" where
  "digits b n = (if b < 2 \<or> n < b then [n] else digits b (n div b) @ [n mod b])"
  by pat_completeness auto
termination
  by (relation "measure snd") auto

declare digits.simps [simp del]

definition show_unsigned :: "nat \<Rightarrow> nat \<Rightarrow> string" where
  "show_unsigned b n = map (\<lambda>d. hex_map ! d) (digits b n)"

definition show_signed :: "int \<Rightarrow> string" where
  "show_signed i = (if i < 0 then CHR ''-'' # show_unsigned 10 (nat (- i)) else show_unsigned 10 (nat i))"

definition zero_pad :: "nat \<Rightarrow> string \<Rightarrow> string" where
  "zero_pad k ds = replicate (k - length ds) (CHR ''0'') @ ds"

text \<open>
  An argument is passed in 64 bits: \<open>%d\<close>, \<open>%o\<close> and \<open>%x\<close> read the lower half of them, \<open>%ld\<close>, \<open>%lld\<close>, \<open>%lx\<close>
  and \<open>%llx\<close> all.
\<close>

definition fmt_d :: "w64 \<Rightarrow> string" where
  "fmt_d w = show_signed (s32 (uint w))"

definition fmt_ld :: "w64 \<Rightarrow> string" where
  "fmt_ld w = show_signed (sint w)"

definition fmt_o :: "nat \<Rightarrow> w64 \<Rightarrow> string" where
  "fmt_o k w = zero_pad k (show_unsigned 8 (nat (u32 (uint w))))"

definition fmt_x :: "nat \<Rightarrow> w64 \<Rightarrow> string" where
  "fmt_x k w = zero_pad k (show_unsigned 16 (nat (u32 (uint w))))"

definition fmt_lx :: "nat \<Rightarrow> w64 \<Rightarrow> string" where
  "fmt_lx k w = zero_pad k (show_unsigned 16 (unat w))"

definition log_struct :: "string \<Rightarrow> string \<Rightarrow> string" where
  "log_struct field value = ''    '' @ field @ '' = '' @ value @ [CHR 0x0A]"

subsection \<open>The dumps\<close>

text \<open>\<open>logfile\<close> and \<open>rootdir\<close> are those of the \<open>bb_state\<close> that \<open>private_data\<close> points to.\<close>

record fuse_context =
  fc_fuse :: w64
  fc_uid :: w32
  fc_gid :: w32
  fc_pid :: w32
  fc_private_data :: w64
  fc_logfile :: w64
  fc_rootdir :: string
  fc_umask :: w32

definition log_fuse_context :: "fuse_context \<Rightarrow> string list" where
  "log_fuse_context context =
     [''    context:'' @ [CHR 0x0A],
      log_struct ''fuse'' (fmt_x 8 (fc_fuse context)),
      log_struct ''uid'' (fmt_d (ucast (fc_uid context))),
      log_struct ''gid'' (fmt_d (ucast (fc_gid context))),
      log_struct ''pid'' (fmt_d (ucast (fc_pid context))),
      log_struct ''private_data'' (fmt_x 8 (fc_private_data context)),
      log_struct ''logfile'' (fmt_x 8 (fc_logfile context)),
      log_struct ''rootdir'' (fc_rootdir context),
      log_struct ''umask'' (fmt_o 5 (ucast (fc_umask context)))]"

record fuse_conn_info =
  ci_proto_major :: w32
  ci_proto_minor :: w32
  ci_async_read :: w32
  ci_max_write :: w32
  ci_max_readahead :: w32
  ci_capable :: w32
  ci_want :: w32
  ci_max_background :: w32
  ci_congestion_threshold :: w32

definition log_conn :: "fuse_conn_info \<Rightarrow> string list" where
  "log_conn conn =
     [''    conn:'' @ [CHR 0x0A],
      log_struct ''proto_major'' (fmt_d (ucast (ci_proto_major conn))),
      log_struct ''proto_minor'' (fmt_d (ucast (ci_proto_minor conn))),
      log_struct ''async_read'' (fmt_d (ucast (ci_async_read conn))),
      log_struct ''max_write'' (fmt_d (ucast (ci_max_write conn))),
      log_struct ''max_readahead'' (fmt_d (ucast (ci_max_readahead conn))),
      log_struct ''capable'' (fmt_x 8 (ucast (ci_capable conn))),
      log_struct ''want'' (fmt_x 8 (ucast (ci_want conn))),
      log_struct ''max_background'' (fmt_d (ucast (ci_max_background conn))),
      log_struct ''congestion_threshold'' (fmt_d (ucast (ci_congestion_threshold conn)))]"

text \<open>\<open>direct_io\<close> and \<open>keep_cache\<close> are bit fields of one bit.\<close>

record fuse_file_info =
  fi_flags :: w32
  fi_fh_old :: w64
  fi_writepage :: w32
  fi_direct_io :: bool
  fi_keep_cache :: bool
  fi_fh :: w64
  fi_lock_owner :: w64

definition log_fi :: "fuse_file_info \<Rightarrow> string list" where
  "log_fi fi =
     [''    fi:'' @ [CHR 0x0A],
      log_struct ''flags'' (''0x'' @ fmt_x 8 (ucast (fi_flags fi))),
      log_struct ''fh_old'' (''0x'' @ fmt_lx 8 (fi_fh_old fi)),
      log_struct ''writepage'' (fmt_d (ucast (fi_writepage fi))),
      log_struct ''direct_io'' (fmt_d (of_bool (fi_direct_io fi))),
      log_struct ''keep_cache'' (fmt_d (of_bool (fi_keep_cache fi))),
      log_struct ''fh'' (''0x'' @ fmt_lx 16 (fi_fh fi)),
      log_struct ''lock_owner'' (''0x'' @ fmt_lx 16 (fi_lock_owner fi))]"

record struct_stat =
  si_dev :: w64
  si_ino :: w64
  si_mode :: w32
  si_nlink :: w64
  si_uid :: w32
  si_gid :: w32
  si_rdev :: w64
  si_size :: w64
  si_blksize :: w64
  si_blocks :: w64
  si_atime :: w64
  si_mtime :: w64
  si_ctime :: w64

definition log_stat :: "struct_stat \<Rightarrow> string list" where
  "log_stat si =
     [''    si:'' @ [CHR 0x0A],
      log_struct ''st_dev'' (fmt_ld (si_dev si)),
      log_struct ''st_ino'' (fmt_ld (si_ino si)),
      log_struct ''st_mode'' (''0'' @ fmt_o 0 (ucast (si_mode si))),
      log_struct ''st_nlink'' (fmt_d (si_nlink si)),
      log_struct ''st_uid'' (fmt_d (ucast (si_uid si))),
      log_struct ''st_gid'' (fmt_d (ucast (si_gid si))),
      log_struct ''st_rdev'' (fmt_ld (si_rdev si)),
      log_struct ''st_size'' (fmt_ld (si_size si)),
      log_struct ''st_blksize'' (fmt_ld (si_blksize si)),
      log_struct ''st_blocks'' (fmt_ld (si_blocks si)),
      log_struct ''st_atime'' (''0x'' @ fmt_lx 8 (si_atime si)),
      log_struct ''st_mtime'' (''0x'' @ fmt_lx 8 (si_mtime si)),
      log_struct ''st_ctime'' (''0x'' @ fmt_lx 8 (si_ctime si))]"

record struct_statvfs =
  sv_bsize :: w64
  sv_frsize :: w64
  sv_blocks :: w64
  sv_bfree :: w64
  sv_bavail :: w64
  sv_files :: w64
  sv_ffree :: w64
  sv_favail :: w64
  sv_fsid :: w64
  sv_flag :: w64
  sv_namemax :: w64

definition log_statvfs :: "struct_statvfs \<Rightarrow> string list" where
  "log_statvfs sv =
     [''    sv:'' @ [CHR 0x0A],
      log_struct ''f_bsize'' (fmt_ld (sv_bsize sv)),
      log_struct ''f_frsize'' (fmt_ld (sv_frsize sv)),
      log_struct ''f_blocks'' (fmt_ld (sv_blocks sv)),
      log_struct ''f_bfree'' (fmt_ld (sv_bfree sv)),
      log_struct ''f_bavail'' (fmt_ld (sv_bavail sv)),
      log_struct ''f_files'' (fmt_ld (sv_files sv)),
      log_struct ''f_ffree'' (fmt_ld (sv_ffree sv)),
      log_struct ''f_favail'' (fmt_ld (sv_favail sv)),
      log_struct ''f_fsid'' (fmt_ld (sv_fsid sv)),
      log_struct ''f_flag'' (''0x'' @ fmt_lx 8 (sv_flag sv)),
      log_struct ''f_namemax'' (fmt_ld (sv_namemax sv))]"

record utimbuf =
  ut_actime :: w64
  ut_modtime :: w64

definition log_utime :: "utimbuf \<Rightarrow> string list" where
  "log_utime buf =
     [''    buf:'' @ [CHR 0x0A],
      log_struct ''actime'' (''0x'' @ fmt_lx 8 (ut_actime buf)),
      log_struct ''modtime'' (''0x'' @ fmt_lx 8 (ut_modtime buf))]"

text \<open>The messages of \<open>bb_init\<close>, which returns the private data it finds, and of \<open>bb_destroy\<close>.\<close>

definition log_all :: "string list \<Rightarrow> os \<Rightarrow> string list \<times> os" where
  "log_all msgs s = (msgs, (log_msg ^^ length msgs) s)"

definition bb_init :: "fuse_conn_info \<Rightarrow> fuse_context \<Rightarrow> os \<Rightarrow> (w64 \<times> string list) \<times> os" where
  "bb_init conn context s =
     (let (msgs, s) = log_all ([[CHR 0x0A] @ ''bb_init()'' @ [CHR 0x0A]] @ log_conn conn @ log_fuse_context context) s
      in ((fc_private_data context, msgs), s))"

definition bb_destroy :: "w64 \<Rightarrow> os \<Rightarrow> string list \<times> os" where
  "bb_destroy userdata s =
     log_all [[CHR 0x0A] @ ''bb_destroy(userdata=0x'' @ fmt_x 8 userdata @ '')'' @ [CHR 0x0A]] s"

subsection \<open>\<open>fakelog.c\<close>\<close>

text \<open>
  The log of the tools is standard output: each function yields, besides, what it prints there. \<open>strerror\<close> is
  the library's.
\<close>

definition fakelog_open :: "(string \<Rightarrow> os \<Rightarrow> int \<times> os) \<Rightarrow> os \<Rightarrow> int \<times> os" where
  "fakelog_open fopen s = fopen ''/dev/random'' s"

definition fakelog_msg :: "string \<Rightarrow> os \<Rightarrow> string \<times> os" where
  "fakelog_msg text s = (case draw C_log s of (Fail e, s1) \<Rightarrow> ('''', s1\<lparr>errno := e\<rparr>) | (_, s1) \<Rightarrow> (text, s1))"

definition fakelog_error :: "(int \<Rightarrow> string) \<Rightarrow> string \<Rightarrow> os \<Rightarrow> (int \<times> string) \<times> os" where
  "fakelog_error strerror func s =
     (let ret = - errno s;
          (out, s) = fakelog_msg (''    ERROR '' @ func @ '': '' @ strerror (errno s) @ [CHR 0x0A]) s
      in ((ret, out), s))"

definition fakelog_retstat :: "string \<Rightarrow> int \<Rightarrow> os \<Rightarrow> string \<times> os" where
  "fakelog_retstat func retstat s =
     (let errsave = errno s;
          (out, s) = fakelog_msg (''    '' @ func @ '' returned '' @ show_signed retstat @ [CHR 0x0A]) s
      in (out, s\<lparr>errno := errsave\<rparr>))"

definition fakelog_syscall :: "(int \<Rightarrow> string) \<Rightarrow> string \<Rightarrow> int \<Rightarrow> int \<Rightarrow> os \<Rightarrow> (int \<times> string) \<times> os" where
  "fakelog_syscall strerror func retstat min_ret s =
     (let (out, s) = fakelog_retstat func retstat s in
      if retstat < min_ret then
        (let ((_, out'), s) = fakelog_error strerror func s in ((- errno s, out @ out'), s))
      else ((retstat, out), s))"

text \<open>The callers cannot tell the two logs apart: results and states are the same.\<close>

lemma fakelog_msg_same: "snd (fakelog_msg text s) = log_msg s"
  by (auto simp: fakelog_msg_def log_msg_def split: prod.splits outcome.splits)

lemma fakelog_same:
  "apfst fst (fakelog_error strerror func s) = log_error s"
  "snd (fakelog_retstat func r s) = log_retstat s"
  "apfst fst (fakelog_syscall strerror func r m s) = log_syscall r m s"
  by (simp_all add: fakelog_error_def log_error_def fakelog_retstat_def log_retstat_def fakelog_syscall_def
      log_syscall_def Let_def case_prod_unfold fakelog_msg_same)

subsection \<open>What the numbers tell\<close>

text \<open>A printed number reads back, with leading zeros or without.\<close>

definition digit_value :: "char \<Rightarrow> nat" where
  "digit_value c = (if of_char c < (58 :: nat) then of_char c - 48 else of_char c - 87)"

definition read_unsigned :: "nat \<Rightarrow> string \<Rightarrow> nat" where
  "read_unsigned b ds = foldl (\<lambda>n c. n * b + digit_value c) 0 ds"

lemma hex_map_value: "d < 16 \<Longrightarrow> digit_value (hex_map ! d) = d"
proof -
  have "map (\<lambda>d. digit_value (hex_map ! d)) [0..<16] = [0..<16]"
    by code_simp
  then show "d < 16 \<Longrightarrow> digit_value (hex_map ! d) = d"
    by (metis (no_types, lifting) add_0 diff_zero length_upt nth_map nth_upt)
qed

lemma read_append: "read_unsigned b (xs @ [c]) = read_unsigned b xs * b + digit_value c"
  by (simp add: read_unsigned_def)

lemma read_show: "2 \<le> b \<Longrightarrow> b \<le> 16 \<Longrightarrow> read_unsigned b (show_unsigned b n) = n"
proof (induction b n rule: digits.induct)
  case (1 b n)
  show ?case
  proof (cases "n < b")
    case True
    then show ?thesis
      using "1.prems" by (simp add: show_unsigned_def digits.simps [of b n] read_unsigned_def hex_map_value)
  next
    case False
    have "n mod b < b" using "1.prems" by simp
    then have "n mod b < 16" using "1.prems" by linarith
    then show ?thesis
      using "1.IH" "1.prems" False
      by (simp add: show_unsigned_def digits.simps [of b n] read_append hex_map_value)
  qed
qed

lemma read_pad: "read_unsigned b (zero_pad k ds) = read_unsigned b ds"
proof -
  have "foldl (\<lambda>n c. n * b + digit_value c) 0 (replicate j (CHR ''0'')) = 0" for j
    by (induction j) (simp_all add: digit_value_def)
  then show ?thesis by (simp add: read_unsigned_def zero_pad_def)
qed

lemma show_inject:
  assumes "2 \<le> b" "b \<le> 16"
  shows "zero_pad k (show_unsigned b m) = zero_pad k (show_unsigned b n) \<longleftrightarrow> m = n"
    "show_unsigned b m = show_unsigned b n \<longleftrightarrow> m = n"
  by (metis read_show [OF assms] read_pad) (metis read_show [OF assms])

lemma show_digits: "2 \<le> b \<Longrightarrow> b \<le> 16 \<Longrightarrow> set (show_unsigned b m) \<subseteq> set hex_map"
proof (induction b m rule: digits.induct)
  case (1 b n)
  have k: "hex_map ! k \<in> set hex_map" if "k < b" for k using "1.prems" that by (intro nth_mem) (simp add: hex_map_def)
  show ?case
  proof (cases "n < b")
    case True
    then show ?thesis using "1.prems" k by (simp add: show_unsigned_def digits.simps [of b n])
  next
    case False
    have "n mod b < b" using "1.prems" by simp
    then show ?thesis
      using "1.IH" "1.prems" False k [of "n mod b"] by (simp add: show_unsigned_def digits.simps [of b n])
  qed
qed

lemma show_no_sign: "show_unsigned 10 m \<noteq> CHR ''-'' # ds"
  using show_digits [of 10 m] by (auto simp: hex_map_def)

lemma show_signed_inject: "show_signed i = show_signed j \<longleftrightarrow> i = j"
  using show_no_sign show_no_sign [symmetric] by (auto simp: show_signed_def show_inject(2))

lemma signed_inject:
  "s32 (uint (v :: w64)) = s32 (uint w) \<longleftrightarrow> take_bit 32 v = take_bit 32 w" "sint (v :: w64) = sint w \<longleftrightarrow> v = w"
proof -
  have "s32 x = s32 y \<longleftrightarrow> take_bit 32 x = take_bit 32 y" for x y
    using signed_take_bit_eq_iff_take_bit_eq [of 31 x y] by (simp add: s32_def)
  moreover have "take_bit 32 (uint v) = take_bit 32 (uint w) \<longleftrightarrow> take_bit 32 v = take_bit 32 w"
    by (simp add: word_uint_eq_iff flip: unsigned_take_bit_eq)
  ultimately show "s32 (uint (v :: w64)) = s32 (uint w) \<longleftrightarrow> take_bit 32 v = take_bit 32 w" by simp
  show "sint (v :: w64) = sint w \<longleftrightarrow> v = w" by (auto intro: signed_word_eqI)
qed

lemma unsigned_inject: "nat (u32 (uint (v :: w64))) = nat (u32 (uint w)) \<longleftrightarrow> take_bit 32 v = take_bit 32 w"
proof -
  have "nat (u32 (uint v)) = nat (u32 (uint w)) \<longleftrightarrow> take_bit 32 (uint v) = take_bit 32 (uint w)"
    by (simp add: u32_def eq_nat_nat_iff)
  also have "\<dots> \<longleftrightarrow> take_bit 32 v = take_bit 32 w" by (simp add: word_uint_eq_iff flip: unsigned_take_bit_eq)
  finally show ?thesis .
qed

lemma half_arg: "take_bit 32 (ucast (v :: w32) :: w64) = take_bit 32 (ucast w) \<longleftrightarrow> v = w"
proof
  assume h: "take_bit 32 (ucast v :: w64) = take_bit 32 (ucast w)"
  show "v = w"
  proof (rule bit_word_eqI)
    fix n assume "n < LENGTH(32)"
    then show "bit v n = bit w n" using arg_cong [OF h, of "\<lambda>x. bit x n"] by (simp add: bit_simps)
  qed
qed simp

lemma fmt_inject [simp]:
  "fmt_d v = fmt_d w \<longleftrightarrow> take_bit 32 v = take_bit 32 w"
  "fmt_ld v = fmt_ld w \<longleftrightarrow> v = w"
  "fmt_o k v = fmt_o k w \<longleftrightarrow> take_bit 32 v = take_bit 32 w"
  "fmt_x k v = fmt_x k w \<longleftrightarrow> take_bit 32 v = take_bit 32 w"
  "fmt_lx k v = fmt_lx k w \<longleftrightarrow> v = w"
  by (simp_all add: fmt_d_def fmt_ld_def fmt_o_def fmt_x_def fmt_lx_def show_signed_inject show_inject signed_inject
      unsigned_inject word_unat_eq_iff)

lemma log_struct_inject [simp]: "log_struct f v = log_struct f w \<longleftrightarrow> v = w"
  by (simp add: log_struct_def)

text \<open>
  The dump of a \<open>stat\<close> structure tells all of it but the upper half of the number of links, those of the other
  system structures all.
\<close>

lemma log_stat_tells:
  "log_stat a = log_stat b \<longleftrightarrow> a\<lparr>si_nlink := take_bit 32 (si_nlink a)\<rparr> = b\<lparr>si_nlink := take_bit 32 (si_nlink b)\<rparr>"
  by (cases a, cases b) (auto simp: log_stat_def half_arg)

lemma log_statvfs_tells: "log_statvfs a = log_statvfs b \<longleftrightarrow> a = b"
  by (cases a, cases b) (auto simp: log_statvfs_def)

lemma log_utime_tells: "log_utime a = log_utime b \<longleftrightarrow> a = b"
  by (cases a, cases b) (auto simp: log_utime_def)

lemma log_conn_tells: "log_conn a = log_conn b \<longleftrightarrow> a = b"
  by (cases a, cases b) (auto simp: log_conn_def half_arg)

lemma log_fi_tells: "log_fi a = log_fi b \<longleftrightarrow> a = b"
proof -
  have "take_bit 32 (of_bool x :: w64) = take_bit 32 (of_bool y) \<longleftrightarrow> x = y" for x y
    by (cases x; cases y) simp_all
  then show ?thesis by (cases a, cases b) (auto simp: log_fi_def half_arg)
qed

text \<open>Pointers are printed with \<open>%08x\<close>: addresses that differ in the upper half look the same.\<close>

lemma log_context_halves:
  "log_fuse_context (c\<lparr>fc_private_data := p\<rparr>) = log_fuse_context (c\<lparr>fc_private_data := take_bit 32 p\<rparr>)"
  by (simp add: log_fuse_context_def)

end
