(* ===== verification/Descriptors.thy ===== *)
theory Descriptors
  imports Storage
begin

text \<open>
  Which descriptors are open after a call, whatever the environment does: the block operations
  close what they open, on every path but one.
\<close>

text \<open>
  What every call keeps: a name stands for an inode that exists (\<open>names_ok\<close>), and a descriptor for
  reading and writing a regular file (\<open>regular_fd\<close>) stays one until it is closed.
\<close>

definition names_ok :: "os \<Rightarrow> bool" where
  "names_ok s \<longleftrightarrow> (\<forall>p n. names s p = Some n \<longrightarrow> n < next_ino s \<and> inodes s n \<noteq> None)"

definition regular_fd :: "os \<Rightarrow> int \<Rightarrow> bool" where
  "regular_fd s fd \<longleftrightarrow> (\<exists>f c. live s fd f c \<and> of_rd f \<and> of_wr f \<and> of_ino f < next_ino s)"

lemma names_ok_update [simp]:
  "names_ok (s\<lparr>errno := e\<rparr>) = names_ok s"
  "names_ok (s\<lparr>sched := sc\<rparr>) = names_ok s"
  "names_ok (s\<lparr>fdtab := t\<rparr>) = names_ok s"
  "names_ok (set_fd s fd f) = names_ok s"
  by (simp_all add: names_ok_def)

lemma names_ok_change:
  "names_ok s \<Longrightarrow> names_ok (s\<lparr>names := (names s)(p := None)\<rparr>)"
  "names_ok s \<Longrightarrow> names_ok (s\<lparr>inodes := (inodes s)(n \<mapsto> nd)\<rparr>)"
  "names_ok s \<Longrightarrow> names_ok (new_node p nd s)"
  by (auto simp: names_ok_def new_node_def less_Suc_eq)

lemma regular_update [simp]:
  "regular_fd (s\<lparr>errno := e\<rparr>) = regular_fd s"
  "regular_fd (s\<lparr>sched := sc\<rparr>) = regular_fd s"
  "regular_fd (s\<lparr>names := ns\<rparr>) = regular_fd s"
  by (simp_all add: fun_eq_iff regular_fd_def live_def)

lemma regular_change:
  "regular_fd s fd \<Longrightarrow> regular_fd (s\<lparr>inodes := (inodes s)(n \<mapsto> Reg c)\<rparr>) fd"
  "regular_fd s fd \<Longrightarrow> regular_fd (new_node p nd s) fd"
  by (auto simp: regular_fd_def live_def new_node_def)

lemma regular_open: "regular_fd s fd \<Longrightarrow> get_fd s fd \<noteq> None"
  by (auto simp: regular_fd_def live_def)

text \<open>
  \<open>drawn\<close>: the table of descriptors has its size, and nothing new is to come from the environment.
  \<open>same_fds\<close>: besides, the same descriptors are open, and \<open>refs_valid\<close> is as before.
\<close>

definition drawn :: "os \<Rightarrow> os \<Rightarrow> bool" where
  "drawn s s' \<longleftrightarrow> length (fdtab s') = length (fdtab s) \<and> (\<forall>c. set (sched s' c) \<subseteq> set (sched s c)) \<and>
     (names_ok s \<longrightarrow> names_ok s')"

definition same_fds :: "os \<Rightarrow> os \<Rightarrow> bool" where
  "same_fds s s' \<longleftrightarrow> (\<forall>fd. get_fd s' fd = None \<longleftrightarrow> get_fd s fd = None) \<and> drawn s s' \<and>
     (\<forall>fd. regular_fd s fd \<longrightarrow> regular_fd s' fd) \<and> refs_valid s' = refs_valid s"

text \<open>\<open>plus_fd\<close>: one more, \<open>fd\<close>, is.\<close>

definition plus_fd :: "os \<Rightarrow> int \<Rightarrow> os \<Rightarrow> bool" where
  "plus_fd s fd s' \<longleftrightarrow> get_fd s fd = None \<and> get_fd s' fd \<noteq> None \<and>
     (\<forall>fd'. fd' \<noteq> fd \<longrightarrow> get_fd s' fd' = None \<longleftrightarrow> get_fd s fd' = None) \<and> drawn s s' \<and>
     (\<forall>fd'. regular_fd s fd' \<longrightarrow> regular_fd s' fd') \<and> refs_valid s' = refs_valid s"

lemma drawn_refl [simp, intro]: "drawn s s"
  by (simp add: drawn_def)

lemma drawn_trans: "drawn s s1 \<Longrightarrow> drawn s1 s2 \<Longrightarrow> drawn s s2"
  unfolding drawn_def by (metis subset_trans)

lemma drawn_update [simp]:
  "drawn s (s'\<lparr>errno := e\<rparr>) = drawn s s'"
  "drawn s (set_fd s' fd f) = drawn s s'"
  "length fs = length (fdtab s') \<Longrightarrow> drawn s (s'\<lparr>fdtab := fs\<rparr>) = drawn s s'"
  by (simp_all add: drawn_def)

lemma drawn_change [intro]:
  "drawn s s' \<Longrightarrow> drawn s (s'\<lparr>names := (names s')(p := None)\<rparr>)"
  "drawn s s' \<Longrightarrow> drawn s (s'\<lparr>inodes := (inodes s')(n \<mapsto> nd)\<rparr>)"
  "drawn s s' \<Longrightarrow> drawn s (new_node p nd s')"
  by (simp_all add: drawn_def names_ok_change) (simp add: new_node_def)

lemma draw_cases': "draw c s = (o1, s1) \<Longrightarrow> s1 = s \<or> (\<exists>sc. s1 = s\<lparr>sched := sc\<rparr>)"
  by (auto simp: draw_def split: list.splits if_splits)

lemma draw_refs: "draw c s = (o1, s1) \<Longrightarrow> refs_valid s1 = refs_valid s"
  by (auto dest: draw_cases')

lemma draw_drawn: "draw c s = (o1, s1) \<Longrightarrow> drawn s s1"
  by (auto simp: draw_def drawn_def split: list.splits if_splits)

lemma draw_regular: "draw c s = (o1, s1) \<Longrightarrow> regular_fd s1 = regular_fd s"
  by (auto dest: draw_cases')

lemma same_fds_refl [simp, intro]: "same_fds s s"
  by (simp add: same_fds_def)

lemma same_fds_trans [trans]: "same_fds s s1 \<Longrightarrow> same_fds s1 s2 \<Longrightarrow> same_fds s s2"
  by (auto simp: same_fds_def intro: drawn_trans)

lemma plus_fd_same: "plus_fd s fd s1 \<Longrightarrow> same_fds s1 s2 \<Longrightarrow> plus_fd s fd s2"
  by (auto simp: same_fds_def plus_fd_def intro: drawn_trans)

lemma same_fds_update [simp]:
  "same_fds s (s'\<lparr>errno := e\<rparr>) = same_fds s s'"
  by (simp add: same_fds_def)

lemma same_fds_change [intro]:
  "same_fds s s' \<Longrightarrow> same_fds s (s'\<lparr>names := (names s')(p := None)\<rparr>)"
  "same_fds s s' \<Longrightarrow> same_fds s (s'\<lparr>inodes := (inodes s')(n \<mapsto> Reg c)\<rparr>)"
  "same_fds s s' \<Longrightarrow> same_fds s (new_node p nd s')"
  by (simp_all add: same_fds_def drawn_change regular_change) (simp add: new_node_def)

lemma draw_fds: "draw c s = (o1, s1) \<Longrightarrow> get_fd s1 fd = get_fd s fd"
  by (auto simp: draw_def split: list.splits)

lemma draw_same_fds: "draw c s = (o1, s1) \<Longrightarrow> same_fds s s1"
  by (simp add: same_fds_def draw_fds draw_drawn draw_regular draw_refs)

text \<open>A call that changes the position of a description or its lock.\<close>

definition same_access :: "ofile \<Rightarrow> ofile \<Rightarrow> bool" where
  "same_access f g \<longleftrightarrow> of_ino g = of_ino f \<and> of_rd g = of_rd f \<and> of_wr g = of_wr f"

lemma same_access_update [simp]: "same_access f (f\<lparr>of_pos := p\<rparr>)" "same_access f (f\<lparr>of_lock := l\<rparr>)"
  by (simp_all add: same_access_def)

lemma get_fd_set: "get_fd s fd = Some f \<Longrightarrow> get_fd (set_fd s fd (Some g)) fd' = (if fd' = fd then Some g else get_fd s fd')"
  by (auto simp: get_fd_def set_fd_def nth_list_update nat_eq_iff split: if_splits)

lemma set_fd_regular:
  assumes "get_fd s fd = Some f" "same_access f g" "regular_fd s fd'"
  shows "regular_fd (set_fd s fd (Some g)) fd'"
proof -
  obtain f' c where f': "live s fd' f' c" "of_rd f'" "of_wr f'" "of_ino f' < next_ino s"
    using assms(3) by (auto simp: regular_fd_def)
  show ?thesis
  proof (cases "fd' = fd")
    case True
    then show ?thesis
      using f' assms by (auto simp: regular_fd_def live_def same_access_def get_fd_set)
  next
    case False
    then show ?thesis using f' assms(1) by (auto simp: regular_fd_def live_def get_fd_set)
  qed
qed

lemma set_fd_same: "get_fd s fd = Some f \<Longrightarrow> same_access f g \<Longrightarrow> same_fds s (set_fd s fd (Some g))"
  using set_fd_regular by (auto simp: same_fds_def get_fd_set)

lemma draw_set_fd_same:
  "draw c s = (o1, s1) \<Longrightarrow> get_fd s1 fd = Some f \<Longrightarrow> same_access f g \<Longrightarrow> same_fds s (set_fd s1 fd (Some g))"
  by (rule same_fds_trans [OF draw_same_fds set_fd_same])

lemma draw_write_same:
  "draw c s = (o1, s1) \<Longrightarrow> get_fd s1 fd = Some f \<Longrightarrow> same_access f g \<Longrightarrow>
   same_fds s ((set_fd s1 fd (Some g))\<lparr>inodes := (inodes s1)(n \<mapsto> Reg c')\<rparr>)"
  using same_fds_change(2) [OF draw_set_fd_same, of c s o1 s1 fd f g n c'] by simp

lemma sys_read_fds: "sys_read fd n s = (res, s') \<Longrightarrow> same_fds s s'"
  by (auto simp: sys_read_def Let_def split: prod.splits outcome.splits option.splits if_splits node.splits
      dest: draw_same_fds intro: draw_set_fd_same)

lemma sys_write_fds: "sys_write fd bs s = (res, s') \<Longrightarrow> same_fds s s'"
  by (auto simp: sys_write_def fail_def Let_def split: prod.splits outcome.splits option.splits if_splits node.splits
      dest: draw_same_fds intro: draw_write_same)

lemma sys_lseek_fds: "sys_lseek fd off wh s = (res, s') \<Longrightarrow> same_fds s s'"
  by (auto simp: sys_lseek_def fail_def Let_def split: prod.splits outcome.splits option.splits if_splits
      dest: draw_same_fds intro: draw_set_fd_same)

lemma sys_fcntl_lock_fds: "sys_fcntl_lock fd lt s = (res, s') \<Longrightarrow> same_fds s s'"
  by (auto simp: sys_fcntl_lock_def fail_def split: prod.splits outcome.splits option.splits if_splits
      dest: draw_same_fds intro: draw_set_fd_same)

lemma sys_unlink_fds: "sys_unlink p s = (res, s') \<Longrightarrow> same_fds s s'"
  by (auto simp: sys_unlink_def fail_def split: prod.splits outcome.splits option.splits if_splits
      dest: draw_same_fds intro!: same_fds_change)

lemma file_exists_fds: "file_exists p s = (res, s') \<Longrightarrow> same_fds s s'"
  by (auto simp: file_exists_def sys_access_def fail_def Let_def split: prod.splits outcome.splits if_splits
      dest: draw_same_fds)

lemma get_fd_new:
  "fd_range s fd \<Longrightarrow> get_fd (set_fd s fd (Some g)) fd' = (if fd' = fd then Some g else get_fd s fd')"
  by (auto simp: get_fd_def set_fd_def fd_range_def nth_list_update nat_eq_iff)

lemma install_fds:
  assumes "install n fl s = (fd, s')"
  shows "fd = -1 \<and> same_fds s s' \<or> 0 \<le> fd \<and> plus_fd s fd s'"
proof (cases "free_slot (fdtab s)")
  case (Some i)
  let ?g = "\<lparr>of_ino = n, of_pos = 0, of_rd = o_rd fl, of_wr = o_wr fl, of_lock = F_UNLCK\<rparr>"
  have i: "fd_range s (int i)" "get_fd s (int i) = None"
    using free_slot_Some [OF Some] by (simp_all add: fd_range_def get_fd_def)
  have r: "fd = int i" "s' = set_fd s (int i) (Some ?g)" using assms Some by (auto simp: install_def)
  have "regular_fd s' fd'" if "regular_fd s fd'" for fd'
    using that i r regular_open [OF that] by (auto simp: regular_fd_def live_def get_fd_new)
  then show ?thesis using i r by (auto simp: plus_fd_def get_fd_new)
qed (use assms in \<open>auto simp: install_def fail_def\<close>)

lemma sys_open_fds:
  assumes "sys_open p fl s = (fd, s')"
  shows "fd = -1 \<and> same_fds s s' \<or> 0 \<le> fd \<and> plus_fd s fd s'"
proof -
  obtain o1 s1 where d: "draw C_open s = (o1, s1)" by fastforce
  note s1 = draw_same_fds [OF d]
  have i: "fd = -1 \<and> same_fds s s' \<or> 0 \<le> fd \<and> plus_fd s fd s'" if "install n fl s2 = (fd, s')" "same_fds s s2"
    for n s2
    using install_fds [OF that(1)] that(2) same_fds_trans [OF that(2)] by (auto simp: plus_fd_def same_fds_def intro: drawn_trans)
  show ?thesis
    using assms d i s1
    by (auto simp: sys_open_def fail_def split: outcome.splits option.splits if_splits)
qed

lemma get_fd_closed: "get_fd s fd \<noteq> None \<Longrightarrow> get_fd (set_fd s fd None) fd' = (if fd' = fd then None else get_fd s fd')"
  by (auto simp: get_fd_def set_fd_def nth_list_update nat_eq_iff split: if_splits)

text \<open>Closing a descriptor touches no other.\<close>

lemma sys_close_others:
  assumes "sys_close fd s = (r, s')"
  shows "drawn s s'" "get_fd s fd \<noteq> None \<Longrightarrow> get_fd s' fd' = (if fd' = fd then None else get_fd s fd')"
    "regular_fd s fd' \<Longrightarrow> fd' \<noteq> fd \<Longrightarrow> regular_fd s' fd'" "refs_valid s' = refs_valid s"
proof -
  obtain o1 s1 where d: "draw C_close s = (o1, s1)" by fastforce
  have n: "s' = s\<lparr>errno := EBADF\<rparr>" if "get_fd s fd = None"
    using assms that by (simp add: sys_close_def fail_def)
  have r: "s' = set_fd s1 fd None \<or> (\<exists>e. s' = (set_fd s1 fd None)\<lparr>errno := e\<rparr>)" if "get_fd s fd \<noteq> None"
    using assms d that by (auto simp: sys_close_def fail_def split: outcome.splits)
  show "drawn s s'" using n r draw_drawn [OF d] by (cases "get_fd s fd = None") fastforce+
  show "refs_valid s' = refs_valid s" using n r draw_refs [OF d] by (cases "get_fd s fd = None") fastforce+
  have g: "get_fd s fd \<noteq> None \<Longrightarrow> get_fd (set_fd s1 fd None) fd' = (if fd' = fd then None else get_fd s fd')" for fd'
    using draw_fds [OF d] get_fd_closed [of s1 fd] by simp
  then show k: "get_fd s fd \<noteq> None \<Longrightarrow> get_fd s' fd' = (if fd' = fd then None else get_fd s fd')" for fd'
    using r by fastforce
  assume f: "regular_fd s fd'" "fd' \<noteq> fd"
  show "regular_fd s' fd'"
  proof (cases "get_fd s fd = None")
    case False
    have "regular_fd s1 fd'" using f(1) draw_regular [OF d] by simp
    then have "regular_fd (set_fd s1 fd None) fd'"
      using g [OF False, of fd'] f(2) draw_fds [OF d] by (simp add: regular_fd_def live_def)
    then show ?thesis using r [OF False] by auto
  qed (use n f in simp)
qed

lemma sys_close_fds:
  assumes "sys_close fd s' = (r, s'')" "plus_fd s fd s'"
  shows "same_fds s s''"
proof -
  have n: "get_fd s' fd \<noteq> None" "get_fd s fd = None" using assms(2) by (simp_all add: plus_fd_def)
  note c = sys_close_others [OF assms(1)]
  have "regular_fd s'' fd'" if "regular_fd s fd'" for fd'
    using assms(2) n(2) regular_open [OF that] by (intro c(3)) (auto simp: plus_fd_def that)
  then show ?thesis
    using assms(2) c(1,4) c(2) [OF n(1)] by (auto simp: plus_fd_def same_fds_def intro: drawn_trans)
qed

lemma s_read_loop_fds: "s_read_loop fd n s = (res, s') \<Longrightarrow> same_fds s s'"
proof (induction fd n s arbitrary: res s' rule: s_read_loop.induct)
  case (1 fd n s)
  obtain r bs s1 where sr: "sys_read fd n s = ((r, bs), s1)" by (metis prod.exhaust)
  have s1: "same_fds s s1" using sys_read_fds [OF sr] .
  show ?case
  proof (cases "r = -1")
    case True
    show ?thesis
    proof (cases "errno s1 = EINTR \<and> 0 < n")
      case T: True
      then have "s_read_loop fd n s1 = (res, s')" using True "1.prems" sr by (simp add: s_read_loop.simps [of fd n s])
      then show ?thesis using "1.IH"(1) [OF sr [symmetric] refl True] T s1 same_fds_trans by blast
    next
      case False
      then show ?thesis using True "1.prems" sr s1 by (auto simp: s_read_loop.simps [of fd n s] split: if_splits)
    qed
  next
    case False
    show ?thesis
    proof (cases "0 < n - nat r \<and> r \<noteq> 0")
      case T: True
      obtain res2 bs2 s2 where rc: "s_read_loop fd (n - nat r) s1 = ((res2, bs2), s2)" by (metis prod.exhaust)
      then have "same_fds s1 s2" using "1.IH"(2) [OF sr [symmetric] refl False refl T] by blast
      moreover have "s' = s2" using False T rc "1.prems" sr by (simp add: s_read_loop.simps [of fd n s])
      ultimately show ?thesis using s1 same_fds_trans by blast
    next
      case F: False
      then have "s' = s1" using False "1.prems" sr by (auto simp: s_read_loop.simps [of fd n s] split: if_splits)
      then show ?thesis using s1 by simp
    qed
  qed
qed

lemma s_read_fds: "s_read fd n s = (res, s') \<Longrightarrow> same_fds s s'"
  by (auto simp: s_read_def Let_def split: prod.splits dest: s_read_loop_fds)

lemma s_write_fds: "s_write fd bs s = (r, s') \<Longrightarrow> same_fds s s'"
proof (induction fd bs s arbitrary: r s' rule: s_write.induct)
  case (1 fd bs s)
  obtain r1 s1 where sw: "sys_write fd bs s = (r1, s1)" by fastforce
  have s1: "same_fds s s1" using sys_write_fds [OF sw] .
  have "s' = s1 \<or> same_fds s1 s'"
    using "1.prems" "1.IH"(1) [OF sw [symmetric]] "1.IH"(2) [OF sw [symmetric] _ refl] sw
    by (auto simp: s_write.simps [of fd bs s] Let_def split: if_splits)
  then show ?case using s1 same_fds_trans by blast
qed

lemma s_lseek_fds: "s_lseek fd off wh s = Some (r, s') \<Longrightarrow> same_fds s s'"
proof -
  have "same_fds s (snd res)" if "s_lseek fd off wh s = Some res" for res
  proof (rule s_lseek.raw_induct [where P = "\<lambda>fd off wh s res. same_fds s (snd res)", OF _ that])
    fix lseek fd off wh s y
    assume 1: "\<And>fd off wh s y. lseek fd off wh s = Some y \<Longrightarrow> same_fds s (snd y)"
      "(let (r, s1) = sys_lseek fd off wh s; ret = s32 r
        in if ret = -1 \<and> errno s1 = EINTR then lseek fd off wh s1 else Some (ret, s1)) = Some y"
    obtain r1 s1 where sl: "sys_lseek fd off wh s = (r1, s1)" by fastforce
    have "y = (s32 r1, s1) \<or> lseek fd off wh s1 = Some y"
      using 1(2) sl by (auto simp: Let_def split: if_splits)
    then show "same_fds s (snd y)"
      using 1(1) [of fd off wh s1 y] sys_lseek_fds [OF sl] same_fds_trans by auto
  qed
  then show "s_lseek fd off wh s = Some (r, s') \<Longrightarrow> same_fds s s'" by fastforce
qed

lemma s_lseek_decl_fds: "s_lseek_decl fd off wh s = Some (r, s') \<Longrightarrow> same_fds s s'"
  by (auto simp: s_lseek_decl_def dest: s_lseek_fds)

text \<open>On a descriptor that was opened, each step keeps it the one more.\<close>

lemmas plus_steps =
  plus_fd_same [OF _ s_read_fds, rotated] plus_fd_same [OF _ s_write_fds, rotated]
  plus_fd_same [OF _ s_lseek_decl_fds, rotated] plus_fd_same [OF _ sys_fcntl_lock_fds, rotated]
  plus_fd_same [OF _ sys_unlink_fds, rotated]

lemma opened_fd: "sys_open p fl s = (fd, s1) \<Longrightarrow> fd \<noteq> -1 \<Longrightarrow> plus_fd s fd s1"
  "sys_open p fl s = (-1, s1) \<Longrightarrow> same_fds s s1"
  using sys_open_fds [of p fl s fd s1] sys_open_fds [of p fl s "-1" s1] by simp_all

text \<open>\<open>keeps s r\<close>: when the operation returns, the descriptors of \<open>s\<close> are open, no others.\<close>

definition keeps :: "os \<Rightarrow> ('a \<times> os) option \<Rightarrow> bool" where
  "keeps s r \<longleftrightarrow> (\<forall>x s'. r = Some (x, s') \<longrightarrow> same_fds s s')"

lemma keeps_Some: "same_fds s s' \<Longrightarrow> keeps s (Some (x, s'))"
  and keeps_None: "keeps s None"
  and keeps_if: "(b \<Longrightarrow> keeps s r1) \<Longrightarrow> (\<not> b \<Longrightarrow> keeps s r2) \<Longrightarrow> keeps s (if b then r1 else r2)"
  and keeps_let: "keeps s (f y) \<Longrightarrow> keeps s (Let y f)"
  and keeps_bind: "(\<And>z. m = Some z \<Longrightarrow> keeps s (g z)) \<Longrightarrow> keeps s (Option.bind m g)"
  by (auto simp: keeps_def elim: Option.bind_split_asm [THEN iffD1, elim_format] split: Option.bind_split_asm)

lemma keeps_case: "(\<And>a b. q = (a, b) \<Longrightarrow> keeps s (h a b)) \<Longrightarrow> keeps s (case q of (a, b) \<Rightarrow> h a b)"
  by (cases q) simp

text \<open>One rule per call, carrying which descriptors are open.\<close>

lemma keeps_read: "plus_fd s fd s1 \<Longrightarrow> (\<And>r s2. plus_fd s fd s2 \<Longrightarrow> keeps s (h r s2)) \<Longrightarrow>
    keeps s (case s_read fd n s1 of (r, s2) \<Rightarrow> h r s2)"
  and keeps_write: "plus_fd s fd s1 \<Longrightarrow> (\<And>r s2. plus_fd s fd s2 \<Longrightarrow> keeps s (g r s2)) \<Longrightarrow>
    keeps s (case s_write fd bs s1 of (r, s2) \<Rightarrow> g r s2)"
  and keeps_lock: "plus_fd s fd s1 \<Longrightarrow> (\<And>r s2. plus_fd s fd s2 \<Longrightarrow> keeps s (g r s2)) \<Longrightarrow>
    keeps s (case sys_fcntl_lock fd lt s1 of (r, s2) \<Rightarrow> g r s2)"
  and keeps_seek: "plus_fd s fd s1 \<Longrightarrow> (\<And>r s2. plus_fd s fd s2 \<Longrightarrow> keeps s (k (r, s2))) \<Longrightarrow>
    keeps s (Option.bind (s_lseek_decl fd off wh s1) k)"
  and keeps_close: "plus_fd s fd s1 \<Longrightarrow> (\<And>r s2. same_fds s s2 \<Longrightarrow> keeps s (g r s2)) \<Longrightarrow>
    keeps s (case sys_close fd s1 of (r, s2) \<Rightarrow> g r s2)"
  and keeps_exists: "same_fds s s1 \<Longrightarrow> (\<And>r s2. same_fds s s2 \<Longrightarrow> keeps s (x r s2)) \<Longrightarrow>
    keeps s (case file_exists p s1 of (r, s2) \<Rightarrow> x r s2)"
  by (auto intro!: keeps_case keeps_bind intro: plus_steps sys_close_fds same_fds_trans [OF _ file_exists_fds])

lemma keeps_case_app: "(\<And>a b. keeps s (h a b c)) \<Longrightarrow> keeps s ((case q of (a, b) \<Rightarrow> h a b) c)"
  by (cases q) simp

lemma keeps_open:
  assumes "same_fds s s1" "\<And>s2. same_fds s s2 \<Longrightarrow> keeps s (h (-1) s2)"
    "\<And>fd s2. fd \<noteq> -1 \<Longrightarrow> plus_fd s fd s2 \<Longrightarrow> keeps s (h fd s2)"
  shows "keeps s (case sys_open p fl s1 of (fd, s2) \<Rightarrow> h fd s2)"
proof (rule keeps_case)
  fix fd s2
  assume "sys_open p fl s1 = (fd, s2)"
  from sys_open_fds [OF this] show "keeps s (h fd s2)"
  proof
    assume "fd = -1 \<and> same_fds s1 s2"
    then show ?thesis using assms(1,2) same_fds_trans by blast
  next
    assume "0 \<le> fd \<and> plus_fd s1 fd s2"
    moreover from this have "plus_fd s fd s2"
      using assms(1) by (auto simp: plus_fd_def same_fds_def intro: drawn_trans)
    ultimately show ?thesis using assms(3) by simp
  qed
qed

lemmas keeps_calls = keeps_read keeps_write keeps_lock keeps_seek keeps_close keeps_exists
lemmas keeps_flow = keeps_let keeps_if keeps_case_app keeps_case keeps_None

lemma block_operations_keep:
  shows "keeps s (Some (store_block st data sz h s))" and "keeps s (load_block st h data w refs s)"
    and "keeps s (block_get_size st h s)" and "keeps s (block_inc_ref st h s)"
  unfolding store_block_def load_block_def block_get_size_def block_inc_ref_def
    Let_def if_distrib [of Some] prod.case_distrib [of Some]
  by ((erule notE, rule refl) | (erule notE, assumption) | simp only: prod.case | rule keeps_let
      | (rule keeps_calls, (rule same_fds_refl | assumption)) | (rule keeps_open, (rule same_fds_refl | assumption))
      | rule keeps_flow | (rule keeps_Some, (rule same_fds_refl | assumption)))+

end
