(* ===== verification/Steady.thy ===== *)
theory Steady
  imports Faults Descriptors
begin

text \<open>
  What the operations of \<open>cfs.c\<close> and the loops of \<open>bb_read\<close> and \<open>bb_write\<close> leave alone, whatever fails:
  the open descriptors and the registry.
\<close>

subsection \<open>Descriptors over the operations of \<open>cfs.c\<close>\<close>

lemma keepsD: "keeps s r \<Longrightarrow> r = Some (x, s') \<Longrightarrow> same_fds s s'"
  by (simp add: keeps_def)

lemma store_block_fds: "store_block st data sz h s = (r, s') \<Longrightarrow> same_fds s s'"
  using keepsD [OF block_operations_keep(1)] by fastforce

lemma malloc_ok_fds: "malloc_ok s = (b, s') \<Longrightarrow> same_fds s s'"
  by (auto simp: malloc_ok_def split: prod.splits outcome.splits dest: draw_same_fds)

lemma log_msg_fds: "same_fds s (log_msg s)"
  by (auto simp: log_msg_def split: prod.splits outcome.splits dest: draw_same_fds)

lemma log_error_fds: "log_error s = (r, s') \<Longrightarrow> same_fds s s'"
  using log_msg_fds by (auto simp: log_error_def Let_def)

lemma log_retstat_fds: "same_fds s (log_retstat s)"
  using log_msg_fds [of s] by (simp add: log_retstat_def Let_def)

lemma log_syscall_fds: "log_syscall r m s = (r', s') \<Longrightarrow> same_fds s s'"
  using same_fds_trans [OF log_retstat_fds log_error_fds] log_retstat_fds [of s]
  by (auto simp: log_syscall_def Let_def split: if_splits prod.splits)

text \<open>One rule per call, between states with the same descriptors.\<close>

lemma steady_read: "same_fds s s1 \<Longrightarrow> (\<And>r s2. same_fds s s2 \<Longrightarrow> keeps s (h r s2)) \<Longrightarrow>
    keeps s (case s_read fd n s1 of (r, s2) \<Rightarrow> h r s2)"
  and steady_write: "same_fds s s1 \<Longrightarrow> (\<And>r s2. same_fds s s2 \<Longrightarrow> keeps s (g r s2)) \<Longrightarrow>
    keeps s (case s_write fd bs s1 of (r, s2) \<Rightarrow> g r s2)"
  and steady_seek: "same_fds s s1 \<Longrightarrow> (\<And>r s2. same_fds s s2 \<Longrightarrow> keeps s (k (r, s2))) \<Longrightarrow>
    keeps s (Option.bind (s_lseek_decl fd off wh s1) k)"
  and steady_malloc: "same_fds s s1 \<Longrightarrow> (\<And>r s2. same_fds s s2 \<Longrightarrow> keeps s (m r s2)) \<Longrightarrow>
    keeps s (case malloc_ok s1 of (r, s2) \<Rightarrow> m r s2)"
  and steady_store: "same_fds s s1 \<Longrightarrow> (\<And>r s2. same_fds s s2 \<Longrightarrow> keeps s (g r s2)) \<Longrightarrow>
    keeps s (case store_block st data sz hs s1 of (r, s2) \<Rightarrow> g r s2)"
  and steady_bind: "same_fds s s1 \<Longrightarrow> keeps s1 q \<Longrightarrow> (\<And>r s2. same_fds s s2 \<Longrightarrow> keeps s (l (r, s2))) \<Longrightarrow>
    keeps s (Option.bind q l)"
  by (auto intro!: keeps_case keeps_bind dest: same_fds_trans [OF _ s_read_fds] same_fds_trans [OF _ s_write_fds]
      same_fds_trans [OF _ s_lseek_decl_fds] same_fds_trans [OF _ malloc_ok_fds] same_fds_trans [OF _ store_block_fds]
      same_fds_trans [OF _ keepsD])

lemmas steady_calls = steady_read steady_write steady_seek steady_malloc steady_store

lemma keeps_all: "keeps s r \<longleftrightarrow> (\<forall>y. r = Some y \<longrightarrow> same_fds s (snd y))"
  by (auto simp: keeps_def)

lemma keeps_from: "same_fds s s1 \<Longrightarrow> keeps s1 r \<Longrightarrow> keeps s r"
  by (auto simp: keeps_def intro: same_fds_trans)

lemma find_pair_fds: "keeps s (find_pair fd ix buf s)"
proof -
  have "same_fds s (snd res)" if "find_pair fd ix buf s = Some res" for res
  proof (rule find_pair.raw_induct [where P = "\<lambda>fd ix buf s res. same_fds s (snd res)", OF _ that])
    fix find fd ix buf s y
    assume IH: "\<And>fd ix buf s y. find fd ix buf s = Some y \<Longrightarrow> same_fds s (snd y)"
      and y: "(let ((n, bs), s1) = s_read fd 8 s; buf1 = overlay buf bs in
        if n = 0 then Some (0, s1) else if dec64 buf1 = ix then Some (1, s1)
        else Option.bind (s_lseek_decl fd 20 SEEK_CUR s1) (\<lambda>(r, s2). find fd ix buf1 s2)) = Some y"
    have "keeps s (find fd ix buf s)" for fd ix buf s using IH [of fd ix buf s] unfolding keeps_all by blast
    note again = keeps_from [OF _ this]
    have "keeps s (let ((n, bs), s1) = s_read fd 8 s; buf1 = overlay buf bs in
        if n = 0 then Some (0, s1) else if dec64 buf1 = ix then Some (1, s1)
        else Option.bind (s_lseek_decl fd 20 SEEK_CUR s1) (\<lambda>(r, s2). find fd ix buf1 s2))"
      by ((simp only: prod.case Let_def | (rule steady_calls again, (rule same_fds_refl | assumption))
        | rule keeps_flow | (rule keeps_Some, assumption))+)
    then show "same_fds s (snd y)" using y unfolding keeps_all by blast
  qed
  then show ?thesis unfolding keeps_all by blast
qed

lemma find_index_fds: "keeps s (cfs_file_find_index file ix s)"
  unfolding cfs_file_find_index_def Let_def
  by ((simp only: prod.case | (rule steady_calls keeps_from [OF _ find_pair_fds], (rule same_fds_refl | assumption))
    | rule keeps_flow | (rule keeps_Some, (rule same_fds_refl | assumption)))+)

lemmas steady_parts = steady_bind [OF _ find_index_fds] steady_bind [OF _ block_operations_keep(2)]
  steady_bind [OF _ block_operations_keep(3)]

lemma read_block_fds: "keeps s (cfs_file_read_block st i ix buff s)"
  unfolding cfs_file_read_block_def Let_def
  by ((simp only: prod.case | (rule steady_calls steady_parts, (rule same_fds_refl | assumption))
    | rule keeps_flow keeps_bind | (rule keeps_Some, (rule same_fds_refl | assumption)))+)

text \<open>A step that returns more than one component beside the state: the rest is moved into its branches.\<close>

lemma keeps_bind_if: "keeps s (if c then Option.bind q1 k else Option.bind q2 k) \<Longrightarrow> keeps s (Option.bind (if c then q1 else q2) k)"
  and keeps_bind_bind: "keeps s (Option.bind q (\<lambda>x. Option.bind (f x) k)) \<Longrightarrow> keeps s (Option.bind (Option.bind q f) k)"
  and keeps_bind_case: "keeps s (case p of (a, b) \<Rightarrow> Option.bind (h a b) k) \<Longrightarrow> keeps s (Option.bind (case p of (a, b) \<Rightarrow> h a b) k)"
  and keeps_bind_Some: "keeps s (k x) \<Longrightarrow> keeps s (Option.bind (Some x) k)"
  and keeps_bind_None: "keeps s (Option.bind None k)"
  by (auto simp: keeps_None split: prod.splits)

lemma keeps_bind_app: "keeps s (case p of (a, b) \<Rightarrow> Option.bind (h a b c) k) \<Longrightarrow> keeps s (Option.bind ((case p of (a, b) \<Rightarrow> h a b) c) k)"
  by (auto split: prod.splits)

lemmas keeps_inward = keeps_bind_if keeps_bind_bind keeps_bind_case keeps_bind_app keeps_bind_Some keeps_bind_None

lemma register_block_fds: "keeps s (cfs_file_register_block sha st i b s)"
  unfolding cfs_file_register_block_def Let_def
  by ((simp only: prod.case | (rule steady_calls steady_parts, (rule same_fds_refl | assumption)) | rule keeps_inward
    | rule keeps_flow keeps_bind | (rule keeps_Some, (rule same_fds_refl | assumption)))+)

lemma keeps_option: "keeps s r \<Longrightarrow> (\<And>x. keeps s (f x)) \<Longrightarrow> keeps s (case q of None \<Rightarrow> r | Some x \<Rightarrow> f x)"
  by (cases q) simp_all

lemma register_file_fds: "keeps s (cfs_register_file st path fd s)"
  unfolding cfs_register_file_def Let_def
  by ((simp only: prod.case | (rule steady_calls, (rule same_fds_refl | assumption)) | rule keeps_inward keeps_option
    | rule keeps_flow keeps_bind | (rule keeps_Some, (rule same_fds_refl | assumption)))+)

subsection \<open>The registry over reading and writing\<close>

text \<open>
  \<open>same_registry\<close>: entries of \<open>files\<close> differ only in other fields than the descriptor, and the mutex may
  have been broken.
\<close>

definition same_registry :: "cfs_state \<Rightarrow> cfs_state \<Rightarrow> bool" where
  "same_registry st st' \<longleftrightarrow> fds st' = fds st \<and> n_fds st' = n_fds st \<and> map f_fd (files st') = map f_fd (files st) \<and>
     (lock st' = lock st \<or> lock st = Unlocked \<and> lock st' = Broken)"

lemma same_registry_refl [simp]: "same_registry st st"
  by (simp add: same_registry_def)

lemma map_f_fd: "i < length xs \<Longrightarrow> f_fd x = f_fd (xs ! i) \<Longrightarrow> map f_fd (xs[i := x]) = map f_fd xs"
  by (simp add: map_update list_update_same_conv)

lemma same_registry_trans: "same_registry st st1 \<Longrightarrow> same_registry st1 st2 \<Longrightarrow> same_registry st st2"
  by (auto simp: same_registry_def)

lemma register_block_registry:
  assumes "cfs_file_register_block sha st i b s = Some ((r, st'), s')"
  shows "same_registry st st' \<and> same_fds s s'"
proof -
  have "same_registry st st'"
    using assms
    by (auto simp: cfs_file_register_block_def same_registry_def mutex_lock_def mutex_unlock_def map_f_fd Let_def
        split: prod.splits if_splits Option.bind_splits)
  then show ?thesis using keepsD [OF register_block_fds assms] by simp
qed

lemma read_block_registry:
  "cfs_file_read_block st i ix buff s = Some ((r, buff', st'), s') \<Longrightarrow> same_registry st st' \<and> same_fds s s'"
  using keepsD [OF read_block_fds]
  by (auto simp: cfs_file_read_block_def same_registry_def mutex_lock_def mutex_unlock_def Let_def
      split: prod.splits if_splits Option.bind_splits)

text \<open>Both loops.\<close>

definition undisturbed :: "cfs_state \<Rightarrow> os \<Rightarrow> cfs_state \<Rightarrow> os \<Rightarrow> bool" where
  "undisturbed st s st' s' \<longleftrightarrow> same_registry st st' \<and> same_fds s s'"

lemma undisturbed_refl [simp]: "undisturbed st s st s"
  by (simp add: undisturbed_def)

lemma undisturbed_trans: "undisturbed st s st1 s1 \<Longrightarrow> undisturbed st1 s1 st2 s2 \<Longrightarrow> undisturbed st s st2 s2"
  unfolding undisturbed_def using same_registry_trans same_fds_trans by blast

lemma block_undisturbed:
  "cfs_file_register_block sha st i b s = Some ((r, st'), s') \<Longrightarrow> undisturbed st s st' s'"
  "cfs_file_read_block st i ix buff s = Some ((r, buff', st'), s') \<Longrightarrow> undisturbed st s st' s'"
  using register_block_registry read_block_registry unfolding undisturbed_def by blast+

lemma write_loop_undisturbed:
  assumes "bb_write_loop sha i buf sz off cur bi st s = Some ((r, st'), s')"
  shows "undisturbed st s st' s'"
proof -
  have "undisturbed st s (snd (fst res)) (snd res)" if "bb_write_loop sha i buf sz off cur bi st s = Some res" for res
  proof (rule bb_write_loop.raw_induct [where P = "\<lambda>sha i buf sz off cur bi st s res. undisturbed st s (snd (fst res)) (snd res)", OF _ that],
      goal_cases)
    case (1 loop sha i buf sz off cur bi st s y)
    show ?case
    proof (cases "u64 cur < u64 (off + sz)")
      case True
      let ?ix = "word_of_int (cur sdiv 4096)"
      let ?q = "if cur smod 4096 \<noteq> 0 then cfs_file_read_block st i ?ix zero_block s else Some ((0, zero_block, st), s)"
      obtain r1 blk st1 s1 where q: "?q = Some ((r1, blk, st1), s1)"
        using 1(2) True by (cases ?q) (auto simp: Let_def)
      have u1: "undisturbed st s st1 s1"
        using q block_undisturbed(2) [of st i ?ix zero_block s r1 blk st1 s1] by (auto split: if_splits)
      obtain b r2 st2 s2 cur' bi' where rg: "cfs_file_register_block sha st1 i b s1 = Some ((r2, st2), s2)"
        and lp: "loop sha i buf sz off cur' bi' st2 s2 = Some y"
        using 1(2) True q by (auto simp: Let_def split: Option.bind_splits)
      show ?thesis
        using undisturbed_trans [OF u1] undisturbed_trans [OF block_undisturbed(1) [OF rg] 1(1) [OF lp]] by blast
    qed (use 1(2) in auto)
  qed
  then show ?thesis using assms by fastforce
qed

lemma read_loop_undisturbed:
  assumes "bb_read_loop i sz off cur bi buf st s = Some ((r, buf', st'), s')"
  shows "undisturbed st s st' s'"
proof -
  have "undisturbed st s (snd (snd (fst res))) (snd res)" if "bb_read_loop i sz off cur bi buf st s = Some res" for res
  proof (rule bb_read_loop.raw_induct [where P = "\<lambda>i sz off cur bi buf st s res. undisturbed st s (snd (snd (fst res))) (snd res)", OF _ that],
      goal_cases)
    case (1 loop i sz off cur bi buf st s y)
    show ?case
    proof (cases "u64 cur < u64 (off + sz)")
      case True
      let ?ix = "word_of_int (cur sdiv 4096)"
      obtain r1 blk st1 s1 where q: "cfs_file_read_block st i ?ix zero_block s = Some ((r1, blk, st1), s1)"
        using 1(2) True by (cases "cfs_file_read_block st i ?ix zero_block s") (auto simp: Let_def)
      then obtain cur' bi' buf1 where lp: "loop i sz off cur' bi' buf1 st1 s1 = Some y"
        using 1(2) True by (auto simp: Let_def split: Option.bind_splits)
      show ?thesis using undisturbed_trans [OF block_undisturbed(2) [OF q] 1(1) [OF lp]] .
    qed (use 1(2) in auto)
  qed
  then show ?thesis using assms by fastforce
qed

end
