(* ===== verification/Dispatch.thy ===== *)
theory Dispatch
  imports Programs Dumps Steady
begin

text \<open>
  \<open>bb_oper\<close>, the table of \<open>bbfs.c\<close> that tells FUSE which handler serves which request, and what every request
  keeps of the open descriptors.
\<close>

subsection \<open>The table\<close>

text \<open>The calls that handlers only pass their arguments to, and FUSE's \<open>filler\<close>.\<close>

record calls =
  c_lstat :: "path \<Rightarrow> stat_buf \<Rightarrow> os \<Rightarrow> (int \<times> stat_buf) \<times> os"
  c_fstat :: "int \<Rightarrow> stat_buf \<Rightarrow> os \<Rightarrow> (int \<times> stat_buf) \<times> os"
  c_readlink :: "path \<Rightarrow> int \<Rightarrow> os \<Rightarrow> (int \<times> string) \<times> os"
  c_mkfifo :: "path \<Rightarrow> int \<Rightarrow> os \<Rightarrow> int \<times> os"
  c_mknod :: "path \<Rightarrow> int \<Rightarrow> int \<Rightarrow> os \<Rightarrow> int \<times> os"
  c_rmdir :: "path \<Rightarrow> os \<Rightarrow> int \<times> os"
  c_symlink :: "path \<Rightarrow> path \<Rightarrow> os \<Rightarrow> int \<times> os"
  c_rename :: "path \<Rightarrow> path \<Rightarrow> os \<Rightarrow> int \<times> os"
  c_link :: "path \<Rightarrow> path \<Rightarrow> os \<Rightarrow> int \<times> os"
  c_chmod :: "path \<Rightarrow> int \<Rightarrow> os \<Rightarrow> int \<times> os"
  c_chown :: "path \<Rightarrow> int \<Rightarrow> int \<Rightarrow> os \<Rightarrow> int \<times> os"
  c_truncate :: "path \<Rightarrow> int \<Rightarrow> os \<Rightarrow> int \<times> os"
  c_utime :: "path \<Rightarrow> int \<times> int \<Rightarrow> os \<Rightarrow> int \<times> os"
  c_statvfs :: "path \<Rightarrow> struct_statvfs \<Rightarrow> os \<Rightarrow> (int \<times> struct_statvfs) \<times> os"
  c_fdatasync :: "int \<Rightarrow> os \<Rightarrow> int \<times> os"
  c_fsync :: "int \<Rightarrow> os \<Rightarrow> int \<times> os"
  c_ftruncate :: "int \<Rightarrow> int \<Rightarrow> os \<Rightarrow> int \<times> os"
  c_lsetxattr :: "path \<Rightarrow> string \<Rightarrow> byte list \<Rightarrow> int \<Rightarrow> int \<Rightarrow> os \<Rightarrow> int \<times> os"
  c_lgetxattr :: "path \<Rightarrow> string \<Rightarrow> byte list \<Rightarrow> int \<Rightarrow> os \<Rightarrow> (int \<times> byte list) \<times> os"
  c_llistxattr :: "path \<Rightarrow> byte list option \<Rightarrow> int \<Rightarrow> os \<Rightarrow> (int \<times> byte list option) \<times> os"
  c_lremovexattr :: "path \<Rightarrow> string \<Rightarrow> os \<Rightarrow> int \<times> os"
  c_opendir :: "path \<Rightarrow> os \<Rightarrow> int \<times> os"
  c_readdir :: "int \<Rightarrow> os \<Rightarrow> string option \<times> os"
  c_closedir :: "int \<Rightarrow> os \<Rightarrow> int \<times> os"
  c_filler :: "string list \<Rightarrow> string \<Rightarrow> int \<times> string list"

text \<open>A request has the arguments that its handler reads; \<open>getdir\<close> is not in the table.\<close>

datatype request =
    Getattr path stat_buf
  | Readlink path string int
  | Mknod path int int
  | Mkdir path int
  | Unlink path
  | Rmdir path
  | Symlink path path
  | Rename path path
  | Link path path
  | Chmod path int
  | Chown path int int
  | Truncate path int
  | Utime path "int \<times> int"
  | Open path
  | Read "byte list" int int int
  | Write "byte list" int int int
  | Statfs path struct_statvfs
  | Flush
  | Release int
  | Fsync int int
  | Setxattr path string "byte list" int int
  | Getxattr path string "byte list" int
  | Listxattr path "byte list option" int
  | Removexattr path string
  | Opendir path int
  | Readdir "string list" int
  | Releasedir int
  | Fsyncdir
  | Init fuse_conn_info fuse_context
  | Destroy w64
  | Access path int
  | Ftruncate int int
  | Fgetattr path stat_buf int

datatype reply =
    Status int
  | Attributes int stat_buf
  | Target int string
  | Handle int int
  | Data int "byte list"
  | Statistics int struct_statvfs
  | Names int "byte list option"
  | Entries int "string list"
  | Private w64

text \<open>From \<open>config.h\<close>, where \<open>HAVE_SYS_XATTR_H\<close> is defined too.\<close>

definition HAVE_FDATASYNC :: bool where
  "HAVE_FDATASYNC = True"

text \<open>A handler that leaves the state of the file system alone.\<close>

definition replies :: "bb_state \<Rightarrow> ('a \<Rightarrow> reply) \<Rightarrow> ('a \<times> os) option \<Rightarrow> ((reply \<times> bb_state) \<times> os) option" where
  "replies bb f r = map_option (apfst (\<lambda>x. (f x, bb))) r"

fun bb_oper ::
  "(byte list \<Rightarrow> byte list) \<Rightarrow> calls \<Rightarrow> request \<Rightarrow> bb_state \<Rightarrow> os \<Rightarrow> ((reply \<times> bb_state) \<times> os) option" where
  "bb_oper sha c (Getattr path buf) bb s = replies bb (case_prod Attributes) (bb_getattr (c_lstat c) bb path buf s)"
| "bb_oper sha c (Readlink path link sz) bb s = replies bb (case_prod Target) (bb_readlink (c_readlink c) bb path link sz s)"
| "bb_oper sha c (Mknod path mode dev) bb s = replies bb Status (bb_mknod (c_mkfifo c) (c_mknod c) bb path mode dev s)"
| "bb_oper sha c (Mkdir path mode) bb s = replies bb Status (bb_mkdir bb path mode s)"
| "bb_oper sha c (Unlink path) bb s = replies bb Status (bb_unlink bb path s)"
| "bb_oper sha c (Rmdir path) bb s = replies bb Status (bb_rmdir (c_rmdir c) bb path s)"
| "bb_oper sha c (Symlink path link) bb s = replies bb Status (bb_symlink (c_symlink c) bb path link s)"
| "bb_oper sha c (Rename path newpath) bb s = replies bb Status (bb_rename (c_rename c) bb path newpath s)"
| "bb_oper sha c (Link path newpath) bb s = replies bb Status (bb_link (c_link c) bb path newpath s)"
| "bb_oper sha c (Chmod path mode) bb s = replies bb Status (bb_chmod (c_chmod c) bb path mode s)"
| "bb_oper sha c (Chown path uid gid) bb s = replies bb Status (bb_chown (c_chown c) bb path uid gid s)"
| "bb_oper sha c (Truncate path newsize) bb s = replies bb Status (bb_truncate (c_truncate c) bb path newsize s)"
| "bb_oper sha c (Utime path ubuf) bb s = replies bb Status (bb_utime (c_utime c) bb path ubuf s)"
| "bb_oper sha c (Open path) bb s = map_option (\<lambda>((r, fh, bb), s). ((Handle r fh, bb), s)) (bb_open bb path s)"
| "bb_oper sha c (Read buf sz offset fh) bb s =
     map_option (\<lambda>((r, buf, bb), s). ((Data r buf, bb), s)) (bb_read bb buf sz offset fh s)"
| "bb_oper sha c (Write buf sz offset fh) bb s =
     map_option (\<lambda>((r, bb), s). ((Status r, bb), s)) (bb_write sha bb buf sz offset fh s)"
| "bb_oper sha c (Statfs path statv) bb s = replies bb (case_prod Statistics) (bb_statfs (c_statvfs c) bb path statv s)"
| "bb_oper sha c Flush bb s = replies bb Status (Some (bb_flush s))"
| "bb_oper sha c (Release fh) bb s = map_option (\<lambda>((r, bb), s). ((Status r, bb), s)) (bb_release bb fh s)"
| "bb_oper sha c (Fsync datasync fh) bb s =
     replies bb Status (Some (bb_fsync HAVE_FDATASYNC (c_fdatasync c) (c_fsync c) datasync fh s))"
| "bb_oper sha c (Setxattr path name value sz flags) bb s =
     replies bb Status (bb_setxattr (c_lsetxattr c) bb path name value sz flags s)"
| "bb_oper sha c (Getxattr path name value sz) bb s =
     replies bb (case_prod Data) (bb_getxattr (c_lgetxattr c) bb path name value sz s)"
| "bb_oper sha c (Listxattr path xs sz) bb s = replies bb (case_prod Names) (bb_listxattr (c_llistxattr c) bb path xs sz s)"
| "bb_oper sha c (Removexattr path name) bb s = replies bb Status (bb_removexattr (c_lremovexattr c) bb path name s)"
| "bb_oper sha c (Opendir path fh) bb s = replies bb (case_prod Handle) (bb_opendir (c_opendir c) bb path fh s)"
| "bb_oper sha c (Readdir buf fh) bb s = replies bb (case_prod Entries) (bb_readdir (c_readdir c) (c_filler c) buf fh s)"
| "bb_oper sha c (Releasedir fh) bb s = replies bb Status (Some (bb_releasedir (c_closedir c) fh s))"
| "bb_oper sha c Fsyncdir bb s = replies bb Status (Some (bb_fsyncdir s))"
| "bb_oper sha c (Init conn context) bb s = replies bb (Private \<circ> fst) (Some (bb_init conn context s))"
| "bb_oper sha c (Destroy userdata) bb s = replies bb (\<lambda>_. Status 0) (Some (bb_destroy userdata s))"
| "bb_oper sha c (Access path mode) bb s = replies bb Status (bb_access bb path mode s)"
| "bb_oper sha c (Ftruncate offset fh) bb s = replies bb Status (Some (bb_ftruncate (c_ftruncate c) offset fh s))"
| "bb_oper sha c (Fgetattr path buf fh) bb s =
     replies bb (case_prod Attributes) (bb_fgetattr (c_lstat c) (c_fstat c) bb path buf fh s)"

subsection \<open>What a request keeps\<close>

text \<open>
  \<open>kept\<close>: a descriptor for reading and writing a regular file stays one, and nothing new is to come from the
  environment. Others, such as those of directories, may come and go.
\<close>

definition kept :: "os \<Rightarrow> os \<Rightarrow> bool" where
  "kept s s' \<longleftrightarrow> drawn s s' \<and> (\<forall>fd. regular_fd s fd \<longrightarrow> regular_fd s' fd)"

lemma kept_refl [simp, intro]: "kept s s"
  by (simp add: kept_def)

lemma kept_trans: "kept s s1 \<Longrightarrow> kept s1 s2 \<Longrightarrow> kept s s2"
  by (auto simp: kept_def intro: drawn_trans)

lemma kept_same: "same_fds s s' \<Longrightarrow> kept s s'"
  by (simp add: kept_def same_fds_def)

lemma kept_plus: "plus_fd s fd s' \<Longrightarrow> kept s s'"
  by (simp add: kept_def plus_fd_def)

lemma kept_open: "kept s (snd (sys_open p fl s))"
  using sys_open_fds [of p fl s] kept_same kept_plus by (metis prod.collapse)

text \<open>The calls that are parameters do as much.\<close>

definition calls_keep :: "calls \<Rightarrow> bool" where
  "calls_keep c \<longleftrightarrow> (\<forall>s. (\<forall>p b. kept s (snd (c_lstat c p b s))) \<and> (\<forall>fd b. kept s (snd (c_fstat c fd b s))) \<and>
     (\<forall>p n. kept s (snd (c_readlink c p n s))) \<and> (\<forall>p m. kept s (snd (c_mkfifo c p m s))) \<and>
     (\<forall>p m d. kept s (snd (c_mknod c p m d s))) \<and> (\<forall>p. kept s (snd (c_rmdir c p s))) \<and>
     (\<forall>p q. kept s (snd (c_symlink c p q s))) \<and> (\<forall>p q. kept s (snd (c_rename c p q s))) \<and>
     (\<forall>p q. kept s (snd (c_link c p q s))) \<and> (\<forall>p m. kept s (snd (c_chmod c p m s))) \<and>
     (\<forall>p u g. kept s (snd (c_chown c p u g s))) \<and> (\<forall>p n. kept s (snd (c_truncate c p n s))) \<and>
     (\<forall>p t. kept s (snd (c_utime c p t s))) \<and> (\<forall>p b. kept s (snd (c_statvfs c p b s))) \<and>
     (\<forall>fd. kept s (snd (c_fdatasync c fd s))) \<and> (\<forall>fd. kept s (snd (c_fsync c fd s))) \<and>
     (\<forall>fd n. kept s (snd (c_ftruncate c fd n s))) \<and> (\<forall>p a v n f. kept s (snd (c_lsetxattr c p a v n f s))) \<and>
     (\<forall>p a v n. kept s (snd (c_lgetxattr c p a v n s))) \<and> (\<forall>p l n. kept s (snd (c_llistxattr c p l n s))) \<and>
     (\<forall>p a. kept s (snd (c_lremovexattr c p a s))) \<and> (\<forall>p. kept s (snd (c_opendir c p s))) \<and>
     (\<forall>d. kept s (snd (c_readdir c d s))) \<and> (\<forall>d. kept s (snd (c_closedir c d s))))"

definition keeping :: "os \<Rightarrow> ('a \<times> os) option \<Rightarrow> bool" where
  "keeping s r \<longleftrightarrow> (\<forall>x. r = Some x \<longrightarrow> kept s (snd x))"

lemma keeping_Some: "kept s (snd x) \<Longrightarrow> keeping s (Some x)"
  by (simp add: keeping_def)

lemma keeping_path: "(\<And>p. keeping s (f p)) \<Longrightarrow> keeping s (Option.bind q f)"
  by (cases q) (simp_all add: keeping_def)

lemma keeping_replies: "keeping s r \<Longrightarrow> replies bb f r = Some ((rep, bb'), s') \<Longrightarrow> bb' = bb \<and> kept s s'"
  by (auto simp: keeping_def replies_def)

lemma kept_logs:
  "kept s s1 \<Longrightarrow> kept s (log_msg s1)"
  "kept s s1 \<Longrightarrow> kept s (snd (log_error s1))"
  "kept s s1 \<Longrightarrow> kept s (snd (log_syscall r m s1))"
  using kept_trans [OF _ kept_same] log_msg_fds log_error_fds log_syscall_fds by (metis prod.collapse)+

lemma kept_log_often: "kept s s1 \<Longrightarrow> kept s ((log_msg ^^ n) s1)"
  by (induction n) (simp_all add: kept_logs)

lemma kept_read: "kept s s1 \<Longrightarrow> kept s (snd (s_read fd n s1))"
  using kept_trans [OF _ kept_same] s_read_fds by (metis prod.collapse)

lemma kept_file_stat: "kept s s1 \<Longrightarrow> kept s (snd (cfs_file_stat p buf s1))"
  using kept_trans [OF _ kept_open [of s1 p O_RDONLY]]
  by (simp add: cfs_file_stat_def Let_def case_prod_unfold kept_read)

lemmas keeping_flow = keeping_path keeping_Some kept_logs kept_log_often kept_file_stat

lemma sys_mkdir_fds: "sys_mkdir p s = (r, s') \<Longrightarrow> same_fds s s'"
  by (auto simp: sys_mkdir_def fail_def split: prod.splits outcome.splits if_splits dest: draw_same_fds intro: same_fds_change)

lemma sys_access_fds: "sys_access p s = (r, s') \<Longrightarrow> same_fds s s'"
  by (auto simp: sys_access_def fail_def split: prod.splits outcome.splits if_splits dest: draw_same_fds)

lemma access_fds: "bb_access bb path mode s = Some (r, s') \<Longrightarrow> same_fds s s'"
  using same_fds_trans [OF sys_access_fds log_error_fds]
  by (auto simp: bb_access_def split: Option.bind_splits prod.splits if_splits dest: sys_access_fds)

text \<open>What a new file's descriptor goes through before it is closed.\<close>

lemma create_file_fds:
  assumes "sane s" "cfs_create_file p s = (fd, s')"
  shows "fd < 0 \<and> same_fds s s' \<or> 0 \<le> fd \<and> plus_fd s fd s'"
proof -
  obtain r1 s1 where op: "sys_open p O_CREAT_EXCL_WRONLY s = (r1, s1)" by fastforce
  obtain f s2 where ls: "log_syscall r1 0 s1 = (f, s2)" by fastforce
  note rep = call_open.reported [OF assms(1) op ls]
  show ?thesis
  proof (cases "f < 0")
    case True
    then have "same_fds s s1" using rep sys_open_fds [OF op] by auto
    then have "same_fds s s2" using log_syscall_fds [OF ls] same_fds_trans by blast
    then have "same_fds s (log_msg s2)" "\<And>e s3. log_error s2 = (e, s3) \<Longrightarrow> same_fds s s3"
      using same_fds_trans log_msg_fds log_error_fds by blast+
    then show ?thesis
      using assms(2) op ls True by (auto simp: cfs_create_file_def split: if_splits prod.splits)
  next
    case False
    then have "f = r1" "0 \<le> r1" using rep by auto
    then have "plus_fd s f s2" using sys_open_fds [OF op] plus_fd_same [OF _ log_syscall_fds [OF ls]] by auto
    then show ?thesis
      using assms(2) op ls False
      by (auto simp: cfs_create_file_def split: prod.splits intro!: plus_fd_same [OF _ log_msg_fds] elim!: plus_steps(2))
  qed
qed

lemma mknod_fds:
  assumes "sane s" "bb_mknod mkfifo mknod bb path mode dev s = Some (r, s')" "S_ISREG mode"
  shows "same_fds s s'"
proof -
  obtain p where p: "bb_fullpath bb path = Some p" using assms(2) by (auto simp: bb_mknod_def split: Option.bind_splits)
  obtain fd s1 where cr: "cfs_create_file p s = (fd, s1)" by fastforce
  obtain r2 s2 where cl: "sys_close fd s1 = (r2, s2)" by fastforce
  from create_file_fds [OF assms(1) cr] show ?thesis
  proof
    assume "0 \<le> fd \<and> plus_fd s fd s1"
    then show ?thesis
      using assms(2,3) p cr cl same_fds_trans [OF sys_close_fds [OF cl] log_syscall_fds [of r2 0 s2 r s']]
      by (simp add: bb_mknod_def)
  qed (use assms(2,3) p cr in \<open>simp add: bb_mknod_def\<close>)
qed

lemma kept_passing:
  assumes "calls_keep c"
  shows "keeping s (bb_getattr (c_lstat c) bb p buf s)" "keeping s (bb_readlink (c_readlink c) bb p l n s)"
    "keeping s (bb_rmdir (c_rmdir c) bb p s)" "keeping s (bb_symlink (c_symlink c) bb p q s)"
    "keeping s (bb_rename (c_rename c) bb p q s)" "keeping s (bb_link (c_link c) bb p q s)"
    "keeping s (bb_chmod (c_chmod c) bb p m s)" "keeping s (bb_chown (c_chown c) bb p u g s)"
    "keeping s (bb_truncate (c_truncate c) bb p n s)" "keeping s (bb_utime (c_utime c) bb p t s)"
    "keeping s (bb_statfs (c_statvfs c) bb p sv s)" "keeping s (bb_setxattr (c_lsetxattr c) bb p a v n f s)"
    "keeping s (bb_getxattr (c_lgetxattr c) bb p a v n s)" "keeping s (bb_removexattr (c_lremovexattr c) bb p a s)"
    "keeping s (bb_listxattr (c_llistxattr c) bb p xs n s)" "keeping s (bb_opendir (c_opendir c) bb p fh s)"
  using assms
  by (auto simp: calls_keep_def bb_getattr_def bb_readlink_def bb_rmdir_def bb_symlink_def bb_rename_def bb_link_def
      bb_chmod_def bb_chown_def bb_truncate_def bb_utime_def bb_statfs_def bb_setxattr_def bb_getxattr_def
      bb_removexattr_def bb_listxattr_def bb_opendir_def pass_def pass2_def Let_def case_prod_unfold
      simp del: split_paired_All intro!: keeping_flow)

lemma kept_handles:
  assumes "calls_keep c"
  shows "kept s (snd (bb_fsync have (c_fdatasync c) (c_fsync c) datasync fh s))"
    "kept s (snd (bb_ftruncate (c_ftruncate c) n fh s))" "kept s (snd (bb_releasedir (c_closedir c) fh s))"
    "kept s (snd (bb_init conn context s))" "kept s (snd (bb_destroy userdata s))"
    "keeping s (bb_fgetattr (c_lstat c) (c_fstat c) bb p buf fh s)"
  using assms kept_passing(1) [OF assms]
  by (auto simp: calls_keep_def bb_fsync_def bb_ftruncate_def bb_releasedir_def bb_init_def bb_destroy_def bb_fgetattr_def
      log_all_def Let_def case_prod_unfold intro!: keeping_flow)

lemma kept_here: "keeping s (bb_mkdir bb p m s)" "keeping s (bb_unlink bb p s)" "keeping s (bb_access bb p m s)"
proof -
  have "kept s (snd (sys_mkdir q s))" "kept s (snd (sys_unlink q s))" for q
    using kept_same sys_mkdir_fds sys_unlink_fds by (metis prod.collapse)+
  then show "keeping s (bb_mkdir bb p m s)" "keeping s (bb_unlink bb p s)"
    by (auto simp: bb_mkdir_def bb_unlink_def pass_def Let_def case_prod_unfold intro!: keeping_flow)
  show "keeping s (bb_access bb p m s)"
    using kept_same access_fds by (fastforce simp: keeping_def)
qed

lemma kept_mknod:
  assumes "sane s" "calls_keep c"
  shows "keeping s (bb_mknod (c_mkfifo c) (c_mknod c) bb p m d s)"
proof (cases "S_ISREG m")
  case True
  then show ?thesis using kept_same mknod_fds [OF assms(1)] by (fastforce simp: keeping_def)
qed (use assms(2) in \<open>auto simp: calls_keep_def bb_mknod_def Let_def case_prod_unfold intro!: keeping_flow\<close>)

lemma kept_readdir_loop:
  assumes "calls_keep c" "bb_readdir_loop (c_readdir c) fl dp de buf s = Some res"
  shows "kept s (snd res)"
proof -
  have rd: "kept s (snd (c_readdir c d s))" for d s using assms(1) by (simp add: calls_keep_def)
  have "c_readdir c = c_readdir c \<longrightarrow> kept s (snd res)"
  proof (rule bb_readdir_loop.raw_induct [where P = "\<lambda>readdir fl dp de buf s res. readdir = c_readdir c \<longrightarrow> kept s (snd res)",
        OF _ assms(2)], goal_cases)
    case (1 loop readdir fl dp de buf s y)
    have IH: "kept s (snd y)" if "loop (c_readdir c) fl dp de buf s = Some y" for fl dp de buf s y
      using 1(1) [OF that] by simp
    show ?case
      using 1(2) kept_trans [OF rd IH] rd
      by (cases y) (auto simp: Let_def case_prod_unfold split: if_splits option.splits)
  qed
  then show ?thesis by simp
qed

lemma kept_readdir:
  assumes "calls_keep c"
  shows "keeping s (bb_readdir (c_readdir c) fl buf fh s)"
proof -
  have rd: "kept s (log_msg (snd (c_readdir c d s)))" for d s using assms by (simp add: calls_keep_def kept_logs)
  then show ?thesis
    using kept_trans [OF rd kept_readdir_loop [OF assms]]
    by (auto simp: keeping_def bb_readdir_def Let_def case_prod_unfold intro: kept_logs split: option.splits)
qed

text \<open>The requests that do not work on the registry.\<close>

fun aside :: "request \<Rightarrow> bool" where
  "aside (Open path) = False"
| "aside (Read buf sz offset fh) = False"
| "aside (Write buf sz offset fh) = False"
| "aside (Release fh) = False"
| "aside _ = True"

lemma aside_kept:
  assumes "calls_keep c" "sane s" "aside rq" "bb_oper sha c rq bb s = Some ((rep, bb'), s')"
  shows "bb' = bb \<and> kept s s'"
proof -
  note k = kept_passing [OF assms(1)] kept_handles(6) [OF assms(1)] kept_here kept_mknod [OF assms(2,1)] kept_readdir [OF assms(1)]
    keeping_Some [OF kept_handles(1) [OF assms(1)]] keeping_Some [OF kept_handles(2) [OF assms(1)]]
    keeping_Some [OF kept_handles(3) [OF assms(1)]] keeping_Some [OF kept_handles(4) [OF assms(1)]]
    keeping_Some [OF kept_handles(5) [OF assms(1)]]
  note r = k [THEN keeping_replies]
  have "keeping s (Some (bb_flush s))" "keeping s (Some (bb_fsyncdir s))"
    by (simp_all add: keeping_def bb_flush_def bb_fsyncdir_def)
  then show ?thesis
    using assms(3,4) by (cases rq) (auto dest: r keeping_replies)
qed

end
