(* ===== verification/Samples.thy ===== *)
theory Samples
  imports Faults Dispatch
begin

text \<open>
  Concrete systems: a mounted directory \<open>/r\<close> with a file \<open>f\<close> of one block of two bytes, and
  an empty file \<open>g\<close>. They show that the hypotheses of the theorems can be met.
\<close>

definition sample_sha :: "byte list \<Rightarrow> byte list" where
  "sample_sha d = take 20 (d @ replicate 20 0)"

definition sample_tail :: "byte list" where
  "sample_tail = replicate 4095 0 @ [2]"

definition sample_D :: "byte list set" where
  "sample_D = {[1, 3], [2], sample_tail}"

definition sample_store :: blk_store where
  "sample_store = \<lparr>root_path = ''/r'', blocks_path = ''/r/.BLOCKS'', block_fname_size = 54\<rparr>"

definition sample_block :: path where
  "sample_block = block_of sample_sha sample_store [1, 3]"

definition sample_os :: os where
  "sample_os = \<lparr>
     names = [''/r'' \<mapsto> 0, ''/r/.BLOCKS'' \<mapsto> 1, ''/r/f'' \<mapsto> 2, sample_block \<mapsto> 3, ''/r/g'' \<mapsto> 4],
     inodes = [0 \<mapsto> Dir, 1 \<mapsto> Dir, 2 \<mapsto> Reg (file_image 2 1 [(0, sample_sha [1, 3])]), 3 \<mapsto> Reg (enc64 1 @ [1, 3]),
       4 \<mapsto> Reg (file_image 0 0 [])],
     next_ino = 5, fdtab = [None, None, None, None], errno = 0, sched = (\<lambda>_. []), junk = (\<lambda>_ _. 0), sext = True, refs_valid = True\<rparr>"

definition sample_file :: cfs_file where
  "sample_file = \<lparr>f_path = ''/r/f'', f_offset = 0, f_size = 2, f_total_blocks = 1, f_fd = 0\<rparr>"

definition sample_st :: cfs_state where
  "sample_st = \<lparr>max_fds = 1024, storage = sample_store, files = replicate 20 sample_file, fds = replicate 20 (-1),
     n_fds = 0, lock = Unlocked\<rparr>"

definition sample_bb :: bb_state where
  "sample_bb = \<lparr>rootdir = ''/r'', cfs = sample_st\<rparr>"

abbreviation (input) sample_table :: table where "sample_table \<equiv> [(0, sample_sha [1, 3])]"
abbreviation (input) sample_blocks :: blocks where "sample_blocks \<equiv> [(0, [1, 3])]"

text \<open>The same with \<open>f\<close> open as descriptor 0.\<close>

definition sample_ofile :: ofile where
  "sample_ofile = \<lparr>of_ino = 2, of_pos = 23, of_rd = True, of_wr = True, of_lock = F_UNLCK\<rparr>"

definition opened_os :: os where
  "opened_os = sample_os\<lparr>fdtab := [Some sample_ofile, None, None, None]\<rparr>"

definition opened_st :: cfs_state where
  "opened_st = sample_st\<lparr>fds := 0 # replicate 19 (-1), n_fds := 1\<rparr>"

definition opened_bb :: bb_state where
  "opened_bb = sample_bb\<lparr>cfs := opened_st\<rparr>"

lemma length_sample_sha [simp]: "length (sample_sha d) = 20"
  by (simp add: sample_sha_def)

lemma sample_store_simps [simp]:
  "storage_dir sample_store" "blocks_path sample_store = ''/r/.BLOCKS''"
  by (simp_all add: sample_store_def storage_dir_def)

lemma sample_block_of:
  "block_of sample_sha sample_store d = ''/r/.BLOCKS/'' @ hex_bytes (take 19 (sample_sha d))"
  by (simp add: block_of_def block_path_eq)

lemma sample_block_ne [simp]:
  "block_of sample_sha sample_store d \<noteq> ''/r''" "block_of sample_sha sample_store d \<noteq> ''/r/.BLOCKS''"
  "block_of sample_sha sample_store d \<noteq> ''/r/f''" "block_of sample_sha sample_store d \<noteq> ''/r/g''"
  by (simp_all add: sample_block_of)

lemma sample_tail_simps [simp]:
  "length sample_tail = 4096" "sample_tail \<noteq> []" "sample_sha sample_tail = replicate 20 0"
  "sample_tail \<noteq> [2]" "sample_tail \<noteq> [1, 3]"
  by (simp_all add: sample_tail_def sample_sha_def)

lemma sample_keys: "keys_ok sample_sha sample_D"
proof -
  have "sample_sha [1, 3] = 1 # 3 # replicate 18 0" "sample_sha [2] = 2 # replicate 19 0"
    by (simp_all add: sample_sha_def numeral_eq_Suc)
  then have "map (\<lambda>d. hd (take 19 (sample_sha d))) [[1, 3], [2], sample_tail] = [1, 2, 0]" by simp
  then have "inj_on (\<lambda>d. hd (take 19 (sample_sha d))) sample_D" by (auto simp: sample_D_def inj_on_def)
  then have "inj_on (\<lambda>d. take 19 (sample_sha d)) sample_D" unfolding inj_on_def by metis
  then show ?thesis by (simp add: keys_ok_def sample_D_def)
qed

lemma sample_two: "block_of sample_sha sample_store [2] \<noteq> sample_block"
  "block_of sample_sha sample_store sample_tail \<noteq> sample_block"
  using block_of_inject [OF _ sample_keys, of sample_store _ "[1, 3]"]
  by (simp_all add: sample_block_def sample_D_def)

lemma sample_names [simp]:
  "names sample_os ''/r'' = Some 0" "names sample_os ''/r/.BLOCKS'' = Some 1" "names sample_os ''/r/f'' = Some 2"
  "names sample_os sample_block = Some 3" "names sample_os ''/r/g'' = Some 4"
  "names sample_os (block_of sample_sha sample_store [1, 3]) = Some 3"
  "names sample_os (block_of sample_sha sample_store [2]) = None"
  "names sample_os (block_of sample_sha sample_store sample_tail) = None"
  using sample_two sample_block_ne [of "[1, 3]", folded sample_block_def]
  by (simp_all add: sample_os_def flip: sample_block_def)

lemma sample_os_simps [simp]:
  "ideal sample_os" "next_ino sample_os = 5" "sext sample_os" "refs_valid sample_os" "fdtab sample_os = [None, None, None, None]"
  "errno sample_os = 0" "junk sample_os v k = 0"
  by (simp_all add: sample_os_def ideal_def)

lemma sample_inodes [simp]:
  "inodes sample_os 0 = Some Dir" "inodes sample_os 1 = Some Dir" "inodes sample_os (Suc 0) = Some Dir"
  "inodes sample_os 2 = Some (Reg (file_image 2 1 [(0, sample_sha [1, 3])]))"
  "inodes sample_os 3 = Some (Reg (enc64 1 @ [1, 3]))" "inodes sample_os 4 = Some (Reg (file_image 0 0 []))"
  by (simp_all add: sample_os_def)

lemma sample_get_fd [simp]: "get_fd sample_os fd = None"
  by (auto simp: get_fd_def numeral_eq_Suc less_Suc_eq)

lemma sample_wf: "os_wf sample_os"
  by (simp add: os_wf_def) (auto simp: sample_os_def)

lemma sample_first_free [simp]: "first_free sample_os = Some 0"
  by (simp add: first_free_def)

lemma sample_store_ok: "store_ok sample_sha sample_D sample_store sample_os"
  using sample_keys sample_wf
  by (auto simp: store_ok_def ready_def sample_D_def stored_def reg_content_def is_dir_def)

lemma sample_apart: "apart sample_sha sample_D sample_store 2 sample_os" "apart sample_sha sample_D sample_store 4 sample_os"
  by (simp_all add: apart_def sample_D_def)

lemma sample_not_block: "''/r/f'' \<notin> block_of sample_sha sample_store ` sample_D" "''/r/g'' \<notin> block_of sample_sha sample_store ` sample_D"
  using sample_block_ne by (metis image_iff)+

lemma sample_closed: "closed_file sample_sha sample_D sample_store ''/r/f'' 2 [(0, [1, 3])] sample_os"
  using sample_store_ok sample_apart sample_not_block by (simp add: closed_file_def) (simp add: sample_D_def)

lemma sample_closed_g: "closed_file sample_sha sample_D sample_store ''/r/g'' 0 [] sample_os"
  using sample_store_ok sample_apart sample_not_block by (simp add: closed_file_def)

lemma sample_st_simps [simp]:
  "storage sample_st = sample_store" "fds sample_st = replicate 20 (-1)" "files sample_st = replicate 20 sample_file"
  "n_fds sample_st = 0" "lock sample_st = Unlocked" "cfs sample_bb = sample_st" "rootdir sample_bb = ''/r''"
  by (simp_all add: sample_st_def sample_bb_def)

lemma sample_registry: "registry_ok sample_st"
  by (simp add: registry_ok_def slots_ok_def used_def)

lemma sample_session: "session_ok sample_st sample_os"
  using sample_registry by (simp add: session_ok_def)

lemma sample_free: "free_fds sample_os = 4"
  by (simp add: free_fds_def)

lemma sample_fullpath: "bb_fullpath sample_bb ''/f'' = Some ''/r/f''" "bb_fullpath sample_bb ''/g'' = Some ''/r/g''"
  "bb_fullpath sample_bb ''/h'' = Some ''/r/h''"
  by (simp_all add: bb_fullpath_def)

lemma opened_frame [simp]:
  "names opened_os = names sample_os" "inodes opened_os = inodes sample_os" "next_ino opened_os = 5" "ideal opened_os"
  "sext opened_os" "refs_valid opened_os" "storage opened_st = sample_store" "files opened_st = replicate 20 sample_file" "lock opened_st = Unlocked"
  "cfs opened_bb = opened_st" "fds opened_st = 0 # replicate 19 (-1)" "n_fds opened_st = 1"
  by (simp_all add: opened_os_def opened_st_def opened_bb_def)

lemma opened_get_fd: "get_fd opened_os 0 = Some sample_ofile" "get_fd opened_os fd = (if fd = 0 then Some sample_ofile else None)"
  by (auto simp: get_fd_def opened_os_def numeral_eq_Suc less_Suc_eq nth_Cons' nat_eq_iff)

lemma opened_store_ok: "store_ok sample_sha sample_D sample_store opened_os"
proof -
  have "os_wf opened_os" using sample_wf by (auto simp: os_wf_def opened_get_fd sample_ofile_def)
  moreover have "first_free opened_os = Some 1" by (simp add: first_free_def opened_os_def)
  moreover have "reg_content opened_os = reg_content sample_os" "is_dir opened_os = is_dir sample_os"
    by (simp_all add: fun_eq_iff reg_content_def is_dir_def cong: option.case_cong)
  ultimately show ?thesis
    using sample_store_ok by (simp add: store_ok_def ready_def stored_def)
qed

lemma opened_live: "live opened_os 0 sample_ofile (file_image 2 1 sample_table)" "of_rd sample_ofile" "of_wr sample_ofile"
  using opened_get_fd(1) by (simp_all add: live_def) (simp_all add: sample_ofile_def)

lemma sample_opened: "opened sample_sha sample_D opened_st 0 [(0, [1, 3])] opened_os"
proof -
  have "on_disk sample_sha sample_D opened_st 0 [(0, [1, 3])] sample_ofile opened_os"
    using opened_store_ok sample_apart(1) sample_not_block(1)
    by (simp add: on_disk_def live_def opened_get_fd) (simp add: sample_ofile_def sample_file_def apart_def sample_D_def)
  then show ?thesis by (auto simp: opened_def)
qed

lemma opened_session: "session_ok opened_st opened_os"
proof -
  have "registry_ok opened_st"
    by (simp add: registry_ok_def slots_ok_def used_def nth_Cons')
  then show ?thesis by (simp add: session_ok_def opened_get_fd) (simp add: opened_os_def)
qed

lemma opened_get_file: "cfs_get_file opened_st 0 = Some 0"
  by (simp add: cfs_get_file_def)

lemma chunks_two: "chunks a [x, y] = [(of_nat a, [x, y])]"
  by (simp add: chunks.simps [of a] chunks.simps [of "Suc a"])

text \<open>A name that is free.\<close>

lemma sample_h: "names sample_os ''/r/h'' = None" "is_dir sample_os (parent_of ''/r/h'')"
  "''/r/h'' \<notin> block_of sample_sha sample_store ` D"
proof -
  have "sample_block \<noteq> ''/r/h''" by (simp add: sample_block_def sample_block_of)
  then show "names sample_os ''/r/h'' = None" by (simp add: sample_os_def)
qed (auto simp: is_dir_def parent_of_def sample_block_of)

lemma sample_fresh: "fresh_blocks sample_D [(0, [1, 3])] 1 [2]"
  by (simp add: fresh_blocks_def chunks.simps [of 1] chunks.simps [of "Suc 1"] sample_D_def)
    (simp add: chunks.simps)

lemma sample_fresh0: "fresh_blocks sample_D [] 0 [1, 3]"
  by (simp add: fresh_blocks_def chunks_two sample_D_def)

text \<open>Both files open, \<open>f\<close> as descriptor 0 and \<open>g\<close> as descriptor 1.\<close>

definition both_os :: os where
  "both_os = sample_os\<lparr>fdtab := [Some sample_ofile, Some (sample_ofile\<lparr>of_ino := 4\<rparr>), None, None]\<rparr>"

definition both_bb :: bb_state where
  "both_bb = sample_bb\<lparr>cfs := sample_st\<lparr>fds := 0 # 1 # replicate 18 (-1), n_fds := 2,
     files := sample_file # \<lparr>f_path = ''/r/g'', f_offset = 0, f_size = 0, f_total_blocks = 0, f_fd = 1\<rparr> # replicate 18 sample_file\<rparr>\<rparr>"

lemma both_simps [simp]:
  "names both_os = names sample_os" "inodes both_os = inodes sample_os" "next_ino both_os = 5" "ideal both_os"
  "storage (cfs both_bb) = sample_store" "lock (cfs both_bb) = Unlocked"
  "files (cfs both_bb) =
    sample_file # \<lparr>f_path = ''/r/g'', f_offset = 0, f_size = 0, f_total_blocks = 0, f_fd = 1\<rparr> # replicate 18 sample_file"
  "cfs_get_file (cfs both_bb) 1 = Some 1"
  by (simp_all add: both_os_def both_bb_def cfs_get_file_def)

lemma both_get_fd: "get_fd both_os fd =
    (if fd = 0 then Some sample_ofile else if fd = 1 then Some (sample_ofile\<lparr>of_ino := 4\<rparr>) else None)"
  by (auto simp: get_fd_def both_os_def numeral_eq_Suc less_Suc_eq nth_Cons' nat_eq_iff)

lemma both_store_ok: "store_ok sample_sha sample_D sample_store both_os"
proof -
  have "os_wf both_os" using sample_wf by (auto simp: os_wf_def both_get_fd sample_ofile_def)
  moreover have "first_free both_os = Some 2" by (simp add: first_free_def both_os_def)
  moreover have "reg_content both_os = reg_content sample_os" "is_dir both_os = is_dir sample_os"
    by (simp_all add: fun_eq_iff reg_content_def is_dir_def cong: option.case_cong)
  ultimately show ?thesis
    using sample_store_ok by (simp add: store_ok_def ready_def stored_def)
qed

lemma both_opened: "opened sample_sha sample_D (cfs both_bb) 0 sample_blocks both_os"
  "opened sample_sha sample_D (cfs both_bb) 1 [] both_os"
proof -
  have "on_disk sample_sha sample_D (cfs both_bb) 0 sample_blocks sample_ofile both_os"
    using both_store_ok sample_apart(1) sample_not_block(1)
    by (simp add: on_disk_def live_def both_get_fd) (simp add: sample_ofile_def sample_file_def apart_def sample_D_def)
  then show "opened sample_sha sample_D (cfs both_bb) 0 sample_blocks both_os" by (auto simp: opened_def)
  have "on_disk sample_sha sample_D (cfs both_bb) 1 [] (sample_ofile\<lparr>of_ino := 4\<rparr>) both_os"
    using both_store_ok sample_apart(2) sample_not_block(2)
    by (simp add: on_disk_def live_def both_get_fd) (simp add: sample_ofile_def apart_def sample_D_def)
  then show "opened sample_sha sample_D (cfs both_bb) 1 [] both_os" by (auto simp: opened_def)
qed

text \<open>Calls that do nothing.\<close>

definition idle_calls :: calls where
  "idle_calls = \<lparr>c_lstat = \<lambda>p b s. ((0, b), s), c_fstat = \<lambda>fd b s. ((0, b), s), c_readlink = \<lambda>p n s. ((0, ''''), s),
     c_mkfifo = \<lambda>p m s. (0, s), c_mknod = \<lambda>p m d s. (0, s), c_rmdir = \<lambda>p s. (0, s), c_symlink = \<lambda>p q s. (0, s),
     c_rename = \<lambda>p q s. (0, s), c_link = \<lambda>p q s. (0, s), c_chmod = \<lambda>p m s. (0, s), c_chown = \<lambda>p u g s. (0, s),
     c_truncate = \<lambda>p n s. (0, s), c_utime = \<lambda>p t s. (0, s), c_statvfs = \<lambda>p b s. ((0, b), s),
     c_fdatasync = \<lambda>fd s. (0, s), c_fsync = \<lambda>fd s. (0, s), c_ftruncate = \<lambda>fd n s. (0, s),
     c_lsetxattr = \<lambda>p a v n f s. (0, s), c_lgetxattr = \<lambda>p a v n s. ((0, v), s), c_llistxattr = \<lambda>p l n s. ((0, l), s),
     c_lremovexattr = \<lambda>p a s. (0, s), c_opendir = \<lambda>p s. (1, s), c_readdir = \<lambda>d s. (None, s),
     c_closedir = \<lambda>d s. (0, s), c_filler = \<lambda>b n. (0, b @ [n])\<rparr>"

lemma idle_keep: "calls_keep idle_calls"
  by (simp add: calls_keep_def idle_calls_def)

end
