(* ===== verification/Storage_Properties.thy ===== *)
theory Storage_Properties
  imports Samples Descriptors
begin

text \<open>
  Properties of \<open>io.c\<close>, \<open>util.c\<close> and \<open>storage.c\<close>.
\<close>

subsection \<open>Transfers that are interrupted or cut short\<close>

definition flaky_os :: os where
  "flaky_os = opened_os\<lparr>sched := (\<lambda>_. [])(C_read := [Fail EINTR, Short 2, Fail EINTR], C_write := [Fail EINTR, Short 0])\<rparr>"

lemma flaky_live: "live flaky_os 0 sample_ofile (file_image 2 1 [(0, sample_sha [1, 3])])"
  using opened_get_fd(1) by (simp add: live_def flaky_os_def) (simp add: sample_ofile_def)

lemma flaky_mode: "of_rd sample_ofile" "of_wr sample_ofile" "retryable C_read flaky_os" "retryable C_write flaky_os"
  by (simp_all add: sample_ofile_def retryable_def flaky_os_def)

text \<open>C34. However often reading is interrupted or returns fewer bytes than asked,
  \<open>s_read\<close> returns the bytes the file has at the offset, up to the count asked for, says how many
  they are, and leaves the file alone but for the offset.\<close>

theorem s_read_complete:
  assumes "live s fd f c" "of_rd f" "retryable C_read s"
  shows "\<exists>s'. s_read fd n s = ((int (length (take n (drop (of_pos f) c))), take n (drop (of_pos f) c)), s') \<and>
    view s' = upd_file (view s) fd (f\<lparr>of_pos := of_pos f + length (take n (drop (of_pos f) c))\<rparr>) c"
proof -
  obtain res bs s' where r: "s_read_loop fd n s = ((res, bs), s')" by (metis prod.exhaust)
  note l = s_read_loop_retries [OF assms r]
  then have "length bs \<le> n" by simp
  then show ?thesis using l r by (intro exI [of _ s']) (simp add: s_read_def of_nat_diff)
qed

theorem s_read_complete_witness:
  "\<exists>s'. s_read 0 8 flaky_os = ((int (length (take 8 (drop (of_pos sample_ofile) (file_image 2 1 [(0, sample_sha [1, 3])])))),
      take 8 (drop (of_pos sample_ofile) (file_image 2 1 [(0, sample_sha [1, 3])]))), s') \<and>
    view s' = upd_file (view flaky_os) 0 (sample_ofile\<lparr>of_pos := of_pos sample_ofile
      + length (take 8 (drop (of_pos sample_ofile) (file_image 2 1 [(0, sample_sha [1, 3])])))\<rparr>) (file_image 2 1 [(0, sample_sha [1, 3])])"
  by (rule s_read_complete [OF flaky_live flaky_mode(1,3)])

text \<open>C35. However often writing is interrupted or cut short, \<open>s_write\<close> puts all the
  bytes at the offset, in chunks (\<open>moved\<close>) that together are as long as the buffer; but its result is the size of the
  last chunk only, so it is the number of bytes just when there is one chunk, as there is when no write was cut short.\<close>

theorem s_write_complete:
  assumes "live s fd f c" "of_wr f" "retryable C_write s" "bs \<noteq> []"
  shows "\<exists>r s'. s_write fd bs s = (r, s') \<and> r = int (last (moved (length bs) (sched s C_write))) \<and>
    sum_list (moved (length bs) (sched s C_write)) = length bs \<and>
    (r = int (length bs) \<longleftrightarrow> moved (length bs) (sched s C_write) = [length bs]) \<and>
    ((\<forall>m. Short m \<notin> set (sched s C_write)) \<longrightarrow> r = int (length bs)) \<and>
    view s' = upd_file (view s) fd (f\<lparr>of_pos := of_pos f + length bs\<rparr>) (write_at c (of_pos f) bs)"
proof -
  obtain r s' where w: "s_write fd bs s = (r, s')" by fastforce
  then show ?thesis
    using s_write_retries [OF assms(1-3) w assms(4)] s_write_last [OF assms(1-3) w assms(4)] moved_sum moved_one [of "length bs"] assms(4)
    by auto
qed

theorem s_write_complete_witness:
  "\<exists>s'. s_write 0 [7, 8] flaky_os = (1, s') \<and> moved (length [7, 8 :: byte]) (sched flaky_os C_write) = [1, 1] \<and>
    view s' = upd_file (view flaky_os) 0 (sample_ofile\<lparr>of_pos := of_pos sample_ofile + length [7, 8 :: byte]\<rparr>)
      (write_at (file_image 2 1 [(0, sample_sha [1, 3])]) (of_pos sample_ofile) [7, 8])"
proof -
  have "sched flaky_os C_write = [Fail EINTR, Short 0]" by (simp add: flaky_os_def)
  then have m: "moved (length [7, 8 :: byte]) (sched flaky_os C_write) = [1, 1]" by simp
  show ?thesis using s_write_complete [OF flaky_live flaky_mode(2,4), of "[7, 8]"] m by (auto simp: numeral_2_eq_2)
qed

definition short_os :: os where
  "short_os = sample_os\<lparr>sched := (\<lambda>_. [])(C_write := [Okay, Short 0])\<rparr>"

text \<open>A block whose data were written in two chunks is on disk with its
  reference counter and all its data, and yet \<open>store_block\<close> reports failure.\<close>

lemma short_write_is_an_error:
  "fst (store_block sample_store [2, 3] 2 (sample_sha [2, 3]) short_os) = -1 \<and>
   reg_content (snd (store_block sample_store [2, 3] 2 (sample_sha [2, 3]) short_os))
     (block_path sample_store (sample_sha [2, 3])) = Some (enc64 1 @ [2, 3])"
  by code_simp

subsection \<open>Names of blocks\<close>

text \<open>\<open>hexify\<close> prints as many bytes as leave room for the terminating NUL, two digits
  each; what it printed reads back as those bytes, and it never writes past the buffer.\<close>

lemma hexify_prints:
  assumes "inp \<noteq> []" "0 < n" "hexify inp out n = (k, hex)"
  shows "unhex hex = take ((n - 1) div 2) inp \<and> k = int (length hex) \<and> length hex + 1 \<le> n \<and>
    DIR_SEPARATOR \<notin> set hex"
  using assms hex_bytes_no_separator by (auto simp: hexify_nonempty unhex_hex_bytes min_def)

text \<open>C32. Two hashes name the same block file exactly when their first 19 bytes
  agree: the name leaves out the last byte of the hash.\<close>

theorem block_names_by_19_bytes:
  assumes "storage_dir st" "length h = HASH_LENGTH" "length h' = HASH_LENGTH"
  shows "block_path st h = block_path st h' \<longleftrightarrow> take 19 h = take 19 h'"
  using assms by (rule block_path_inject)

theorem block_names_by_19_bytes_witness:
  "block_path sample_store (replicate 19 7 @ [1]) = block_path sample_store (replicate 19 7 @ [2])"
  by (subst block_names_by_19_bytes) simp_all

text \<open>C33. When \<open>init_storage\<close> succeeds, the path of every block fits, with its NUL, the array
  of \<open>block_fname_size\<close> characters each operation declares; the path of the block directory fits the
  \<open>root_len + sizeof(BLOCKS_DIRECTORY) + 1\<close> characters allocated for it, and that of the root its \<open>root_len + 1\<close>.\<close>

theorem paths_fit:
  assumes "init_storage root s = ((1, bs), s')" "length h = HASH_LENGTH"
  shows "length (block_path bs h) + 1 \<le> block_fname_size bs \<and>
    length (blocks_path bs) + 1 \<le> length root + (length BLOCKS_DIRECTORY + 1) + 1 \<and> length (root_path bs) + 1 \<le> length root + 1"
  using assms block_path_fits [of bs root s h] by simp

theorem paths_fit_witness:
  "\<exists>bs s'. init_storage ''/r'' (boot 2) = ((1, bs), s') \<and>
     length (block_path bs (replicate 20 255)) + 1 \<le> block_fname_size bs \<and>
     length (blocks_path bs) + 1 \<le> length ''/r'' + (length BLOCKS_DIRECTORY + 1) + 1 \<and> length (root_path bs) + 1 \<le> length ''/r'' + 1"
proof -
  obtain r bs s' where i: "init_storage ''/r'' (boot 2) = ((r, bs), s')" by (metis prod.exhaust)
  have "fst (fst (init_storage ''/r'' (boot 2))) = 1" by code_simp
  then have "r = 1" using i by simp
  then show ?thesis using i paths_fit [of "''/r''" "boot 2" bs s' "replicate 20 255"] by auto
qed

subsection \<open>The block store\<close>

text \<open>C16. After storing any blocks in any order, \<open>load_block\<close> finds under a block's hash
  that block if it was stored, and what it found before otherwise. The hash need only tell the
  blocks in question apart.\<close>

theorem store_then_load:
  assumes "store_ok sha D st s" "set ds \<subseteq> D" "e \<in> D"
  shows "get_block st (sha e) (fold (put_block sha st) ds s) =
    (if e \<in> set ds then Some e else get_block st (sha e) s)"
  using assms by (rule bs.get_puts)

theorem store_then_load_witness:
  "get_block sample_store (sample_sha [2]) (fold (put_block sample_sha sample_store) [[2], [1, 3], [2]] sample_os) =
    (if [2] \<in> set [[2], [1, 3], [2 :: byte]] then Some [2] else get_block sample_store (sample_sha [2]) sample_os)"
  by (rule store_then_load [OF sample_store_ok]) (simp_all add: sample_D_def)

text \<open>Storing blocks that are stored already changes nothing at all: no second
  copy is made, and no reference is counted either.\<close>

lemma store_deduplicates:
  assumes "store_ok sha D st s" "set ds \<subseteq> D" "set es \<subseteq> set ds"
  shows "fold (put_block sha st) (ds @ es) s = fold (put_block sha st) ds s"
  using assms by (rule bs.puts_again)

text \<open>C29. Whatever fails on the way, \<open>store_block\<close>, \<open>load_block\<close>,
  \<open>block_get_size\<close> and \<open>block_inc_ref\<close> leave exactly the descriptors open that were.\<close>

theorem block_operations_close:
  "(\<forall>r s'. store_block st data sz h s = (r, s') \<longrightarrow> same_fds s s') \<and>
   (\<forall>r s'. load_block st h data w refs s = Some (r, s') \<longrightarrow> same_fds s s') \<and>
   (\<forall>r s'. block_get_size st h s = Some (r, s') \<longrightarrow> same_fds s s') \<and>
   (\<forall>r s'. block_inc_ref st h s = Some (r, s') \<longrightarrow> same_fds s s')"
  using block_operations_keep unfolding keeps_def by fast

theorem block_operations_close_witness:
  "same_fds short_os (snd (store_block sample_store [2, 3] 2 (sample_sha [2, 3]) short_os))"
  using block_operations_close [of sample_store "[2, 3]" 2 "sample_sha [2, 3]" short_os] by (metis prod.collapse)

definition unlock_os :: os where
  "unlock_os = sample_os\<lparr>sched := (\<lambda>_. [])(C_fcntl := [Okay, Fail EINTR])\<rparr>"

text \<open>When the unlocking at its end fails, \<open>block_dec_ref\<close> has removed the block,
  reports failure, and leaves its descriptor open.\<close>

lemma dec_ref_leaks:
  "(case block_dec_ref sample_store (sample_sha [1, 3]) unlock_os of
      Some (r, s') \<Rightarrow> r = -1 \<and> get_fd s' 0 \<noteq> None \<and> get_fd unlock_os 0 = None \<and> names s' sample_block = None
    | None \<Rightarrow> False)"
  by code_simp

lemma reg_content_set_content: "reg_content s p \<noteq> None \<Longrightarrow> reg_content (set_content s p c) p = Some c"
  by (auto simp: reg_content_def set_content_def split: option.splits)

lemma set_content_same:
  "reg_content s p = Some c \<Longrightarrow> set_content (set_content s p d) p c = s"
  by (auto simp: reg_content_Some set_content_def fun_upd_idem)

text \<open>Counting a reference and dropping it again.\<close>

lemma inc_then_dec:
  assumes "ideal s" "reg_content s (block_path st h) = Some (enc64 refs @ d)" "first_free s \<noteq> None" "refs \<noteq> 0"
  shows "\<exists>s1. block_inc_ref st h s = Some (s32 (uint (refs + 1)), s1) \<and>
    reg_content s1 (block_path st h) = Some (enc64 (refs + 1) @ d) \<and>
    block_dec_ref st h s1 = Some (s32 (uint refs), s)"
proof -
  obtain fd where fd: "first_free s = Some fd" using assms(3) by blast
  let ?s1 = "set_content s (block_path st h) (enc64 (refs + 1) @ d)"
  have r: "reg_content ?s1 (block_path st h) = Some (enc64 (refs + 1) @ d)"
    using assms(2) by (simp add: reg_content_set_content)
  have i: "ideal ?s1" "first_free ?s1 = Some fd"
    using assms(1) fd by (simp_all add: set_content_def split: option.split)
  have "refs + 1 \<noteq> 1" using assms(4) by simp
  then have "block_dec_ref st h ?s1 = Some (s32 (uint refs), s)"
    using block_dec_ref_live [OF i(1) r i(2)] set_content_same [OF assms(2)] by simp
  then show ?thesis using r block_inc_ref_live [OF assms(1,2) fd] by blast
qed

lemma last_reference_removes:
  assumes "ideal s" "reg_content s (block_path st h) = Some (enc64 1 @ d)" "first_free s \<noteq> None"
  shows "\<exists>s'. block_dec_ref st h s = Some (0, s') \<and> block_exists st h s' = (False, s'\<lparr>errno := ENOENT\<rparr>) \<and>
    (\<forall>p. p \<noteq> block_path st h \<longrightarrow> reg_content s' p = reg_content s p)"
proof -
  obtain fd where fd: "first_free s = Some fd" using assms(3) by blast
  show ?thesis
    using block_dec_ref_live [OF assms(1,2) fd] assms(1)
    by (simp add: block_exists_def ideal_simps) (simp add: reg_content_def cong: option.case_cong)
qed

text \<open>C30. Counting a reference to a block that has some and dropping it again restores the block
  store, and the results are the counter's new values; dropping the last reference removes the
  block's file, no other, and returns 0.\<close>

theorem reference_counting:
  assumes "ideal s" "reg_content s (block_path st h) = Some (enc64 refs @ d)" "first_free s \<noteq> None" "refs \<noteq> 0"
  shows "(\<exists>s1. block_inc_ref st h s = Some (s32 (uint (refs + 1)), s1) \<and>
      reg_content s1 (block_path st h) = Some (enc64 (refs + 1) @ d) \<and>
      block_dec_ref st h s1 = Some (s32 (uint refs), s)) \<and>
    (refs = 1 \<longrightarrow> (\<exists>s'. block_dec_ref st h s = Some (0, s') \<and> block_exists st h s' = (False, s'\<lparr>errno := ENOENT\<rparr>) \<and>
      (\<forall>p. p \<noteq> block_path st h \<longrightarrow> reg_content s' p = reg_content s p)))"
  using inc_then_dec [OF assms] last_reference_removes [OF assms(1) _ assms(3)] assms(2) by blast

theorem reference_counting_witness:
  "(\<exists>s1. block_inc_ref sample_store (sample_sha [1, 3]) sample_os = Some (s32 (uint (1 + 1 :: w64)), s1) \<and>
      reg_content s1 (block_path sample_store (sample_sha [1, 3])) = Some (enc64 (1 + 1) @ [1, 3]) \<and>
      block_dec_ref sample_store (sample_sha [1, 3]) s1 = Some (s32 (uint (1 :: w64)), sample_os)) \<and>
    (\<exists>s'. block_dec_ref sample_store (sample_sha [1, 3]) sample_os = Some (0, s') \<and>
      block_exists sample_store (sample_sha [1, 3]) s' = (False, s'\<lparr>errno := ENOENT\<rparr>) \<and>
      (\<forall>p. p \<noteq> block_path sample_store (sample_sha [1, 3]) \<longrightarrow> reg_content s' p = reg_content sample_os p))"
proof -
  have h: "ideal sample_os" "reg_content sample_os (block_path sample_store (sample_sha [1, 3])) = Some (enc64 1 @ [1, 3])"
    "first_free sample_os \<noteq> None" "(1 :: w64) \<noteq> 0"
    by (simp_all add: reg_content_def flip: block_of_def)
  show ?thesis using reference_counting [OF h] by blast
qed

end
