(* ===== verification/Memory.thy ===== *)
theory Memory
  imports Cfs
begin

text \<open>
  The memory that \<open>cfs_init\<close>, \<open>cfs_register_file\<close> and \<open>cfs_destroy\<close> allocate and free, when no allocation fails:
  which addresses are in use. In the other theories an array is its content, and a pointer to an entry of
  \<open>files\<close> its index.
\<close>

record heap =
  h_live :: "nat list"
  h_next :: nat

definition heap_ok :: "heap \<Rightarrow> bool" where
  "heap_ok h \<longleftrightarrow> distinct (h_live h) \<and> (\<forall>p \<in> set (h_live h). 0 < p \<and> p < h_next h) \<and> 0 < h_next h"

definition malloc :: "heap \<Rightarrow> nat \<times> heap" where
  "malloc h = (h_next h, h\<lparr>h_live := h_next h # h_live h, h_next := Suc (h_next h)\<rparr>)"

text \<open>Freeing what is not allocated is undefined; freeing a null pointer does nothing.\<close>

definition free :: "nat \<Rightarrow> heap \<Rightarrow> heap option" where
  "free p h = (if p = 0 then Some h else if p \<in> set (h_live h) then Some (h\<lparr>h_live := remove1 p (h_live h)\<rparr>) else None)"

text \<open>An array that becomes bigger may have to move.\<close>

definition realloc :: "bool \<Rightarrow> nat \<Rightarrow> heap \<Rightarrow> (nat \<times> heap) option" where
  "realloc moves p h =
     (if moves then (let (q, h) = malloc h in map_option (Pair q) (free p h))
      else if p \<in> set (h_live h) then Some (p, h) else None)"

record pointers =
  storage_p :: nat
  blocks_path_p :: nat
  root_path_p :: nat
  files_p :: nat
  fds_p :: nat

definition init_pointers :: "heap \<Rightarrow> pointers \<times> heap" where
  "init_pointers h =
     (let (st, h) = malloc h; (bp, h) = malloc h; (rp, h) = malloc h; (fl, h) = malloc h; (fd, h) = malloc h
      in (\<lparr>storage_p = st, blocks_path_p = bp, root_path_p = rp, files_p = fl, fds_p = fd\<rparr>, h))"

definition grow_pointers :: "bool \<times> bool \<Rightarrow> pointers \<Rightarrow> heap \<Rightarrow> (pointers \<times> heap) option" where
  "grow_pointers m p h = do {
     (fl, h) \<leftarrow> realloc (fst m) (files_p p) h;
     (fd, h) \<leftarrow> realloc (snd m) (fds_p p) h;
     Some (p\<lparr>files_p := fl, fds_p := fd\<rparr>, h)
   }"

primrec grow_often :: "(bool \<times> bool) list \<Rightarrow> pointers \<Rightarrow> heap \<Rightarrow> (pointers \<times> heap) option" where
  "grow_often [] p h = Some (p, h)"
| "grow_often (m # ms) p h = Option.bind (grow_pointers m p h) (\<lambda>(p, h). grow_often ms p h)"

definition destroy_storage :: "pointers \<Rightarrow> heap \<Rightarrow> heap option" where
  "destroy_storage p h = Option.bind (free (blocks_path_p p) h) (free (root_path_p p))"

text \<open>Destroying a mutex that is held is undefined.\<close>

definition cfs_destroy :: "mutex \<Rightarrow> pointers \<Rightarrow> heap \<Rightarrow> heap option" where
  "cfs_destroy lk p h = do {
     _ \<leftarrow> (if lk = Unlocked then Some () else None);
     h \<leftarrow> free (files_p p) h;
     h \<leftarrow> free (fds_p p) h;
     destroy_storage p h
   }"

subsection \<open>Owning the arrays\<close>

text \<open>\<open>holds base ps h\<close>: beside \<open>base\<close>, exactly the addresses \<open>ps\<close> are in use, all different.\<close>

definition holds :: "nat set \<Rightarrow> nat list \<Rightarrow> heap \<Rightarrow> bool" where
  "holds base ps h \<longleftrightarrow> heap_ok h \<and> distinct ps \<and> set (h_live h) = base \<union> set ps \<and> base \<inter> set ps = {}"

lemma heap_less: "heap_ok h \<Longrightarrow> q \<in> set (h_live h) \<Longrightarrow> 0 < q \<and> q < h_next h"
  by (simp add: heap_ok_def)

lemma malloc_heap: "heap_ok h \<Longrightarrow> malloc h = (q, h') \<Longrightarrow>
    heap_ok h' \<and> set (h_live h') = insert q (set (h_live h)) \<and> q = h_next h \<and> q \<notin> set (h_live h) \<and> h_next h' = Suc q"
  using heap_less [of h "h_next h"] by (auto simp: malloc_def heap_ok_def less_Suc_eq)

lemma free_heap:
  assumes "heap_ok h" "p \<in> set (h_live h)"
  shows "\<exists>h'. free p h = Some h' \<and> heap_ok h' \<and> set (h_live h') = set (h_live h) - {p} \<and> h_next h' = h_next h"
  using assms heap_less [OF assms] by (auto simp: free_def heap_ok_def dest: notin_set_remove1)

lemma holds_malloc: "holds base ps h \<Longrightarrow> malloc h = (q, h') \<Longrightarrow> holds base (ps @ [q]) h'"
  using malloc_heap [of h q h'] by (auto simp: holds_def)

lemma holds_free:
  assumes "holds base ps h" "q \<in> set ps"
  shows "\<exists>h'. free q h = Some h' \<and> holds base (remove1 q ps) h'"
proof -
  obtain h' where "free q h = Some h'" "heap_ok h'" "set (h_live h') = set (h_live h) - {q}"
    using free_heap [of h q] assms by (auto simp: holds_def)
  then show ?thesis using assms by (auto simp: holds_def dest: notin_set_remove1)
qed

text \<open>An array that moves gets an address that has never been used.\<close>

lemma holds_realloc:
  assumes "holds base ps h" "k < length ps"
  shows "\<exists>q h'. realloc moves (ps ! k) h = Some (q, h') \<and> holds base (ps[k := q]) h' \<and> h_next h \<le> h_next h' \<and>
    q = (if moves then h_next h else ps ! k)"
proof (cases moves)
  case True
  have ok: "heap_ok h" "ps ! k \<in> set (h_live h)" "ps ! k \<notin> base" "distinct ps"
    using assms by (auto simp: holds_def)
  obtain q h1 where q: "malloc h = (q, h1)" by fastforce
  note m = malloc_heap [OF ok(1) q]
  obtain h' where h': "free (ps ! k) h1 = Some h'" "heap_ok h'" "set (h_live h') = set (h_live h1) - {ps ! k}" "h_next h' = h_next h1"
    using free_heap [of h1 "ps ! k"] m ok(2) by auto
  have n: "q \<notin> base" "q \<notin> set ps" "q \<noteq> ps ! k" using m assms by (auto simp: holds_def)
  have "set (ps[k := q]) = insert q (set ps - {ps ! k})" using ok(4) assms(2) by (rule set_update_distinct)
  then have "holds base (ps[k := q]) h'"
    using h' m n assms ok(3) by (auto simp: holds_def distinct_list_update)
  then show ?thesis using q h' m True by (simp add: realloc_def)
qed (use assms in \<open>auto simp: realloc_def holds_def\<close>)

definition owned :: "pointers \<Rightarrow> nat list" where
  "owned p = [storage_p p, blocks_path_p p, root_path_p p, files_p p, fds_p p]"

lemma init_owns:
  assumes "heap_ok h" "init_pointers h = (p, h')"
  shows "holds (set (h_live h)) (owned p) h'"
proof -
  obtain a h1 b h2 c h3 d h4 e h5 where m: "malloc h = (a, h1)" "malloc h1 = (b, h2)" "malloc h2 = (c, h3)"
    "malloc h3 = (d, h4)" "malloc h4 = (e, h5)" by (metis prod.exhaust)
  have "holds (set (h_live h)) [] h" using assms(1) by (simp add: holds_def)
  from holds_malloc [OF holds_malloc [OF holds_malloc [OF holds_malloc [OF holds_malloc [OF this m(1)] m(2)] m(3)] m(4)] m(5)]
  show ?thesis using assms(2) m by (auto simp: init_pointers_def owned_def)
qed

lemma grow_owns:
  assumes "holds base (owned p) h"
  shows "\<exists>p' h'. grow_pointers m p h = Some (p', h') \<and> holds base (owned p') h' \<and> storage_p p' = storage_p p \<and>
    (fst m \<longrightarrow> files_p p \<notin> set (h_live h'))"
proof -
  have lt: "files_p p < h_next h" "files_p p \<noteq> fds_p p" "files_p p \<notin> base"
    using assms by (auto simp: holds_def owned_def dest: heap_less)
  have u: "(owned p)[3 := q] = owned (p\<lparr>files_p := q\<rparr>)" "(owned p)[4 := q] = owned (p\<lparr>fds_p := q\<rparr>)" "owned p ! 3 = files_p p"
    "owned p ! 4 = fds_p p" "length (owned p) = 5" for q p
    by (simp_all add: owned_def numeral_eq_Suc)
  obtain fl h1 where f: "realloc (fst m) (files_p p) h = Some (fl, h1)" "holds base (owned (p\<lparr>files_p := fl\<rparr>)) h1" "h_next h \<le> h_next h1"
    "fl = (if fst m then h_next h else files_p p)"
    using holds_realloc [OF assms, of 3 "fst m"] by (auto simp: u cong: if_cong)
  obtain fd h2 where d: "realloc (snd m) (fds_p p) h1 = Some (fd, h2)" "holds base (owned (p\<lparr>files_p := fl, fds_p := fd\<rparr>)) h2"
    "fd = (if snd m then h_next h1 else fds_p p)"
    using holds_realloc [OF f(2), of 4 "snd m"] by (auto simp: u cong: if_cong)
  have "files_p p \<notin> set (h_live h2)" if "fst m"
    using d(2,3) f(3,4) lt that assms by (auto simp: holds_def owned_def)
  then show ?thesis using f(1) d(1,2) by (simp add: grow_pointers_def)
qed

lemma grow_often_owns:
  "holds base (owned p) h \<Longrightarrow>
   \<exists>p' h'. grow_often ms p h = Some (p', h') \<and> holds base (owned p') h' \<and> storage_p p' = storage_p p"
proof (induction ms arbitrary: p h)
  case (Cons m ms)
  obtain p1 h1 where "grow_pointers m p h = Some (p1, h1)" "holds base (owned p1) h1" "storage_p p1 = storage_p p"
    using grow_owns [OF Cons.prems] by blast
  then show ?case using Cons.IH [of p1 h1] by auto
qed simp

lemma destroy_owned:
  assumes "holds base (owned p) h"
  shows "\<exists>h'. cfs_destroy Unlocked p h = Some h' \<and> holds base [storage_p p] h'"
proof -
  have d: "distinct (owned p)" using assms by (simp add: holds_def)
  obtain h1 where 1: "free (files_p p) h = Some h1" "holds base [storage_p p, blocks_path_p p, root_path_p p, fds_p p] h1"
    using holds_free [OF assms, of "files_p p"] d by (auto simp: owned_def)
  obtain h2 where 2: "free (fds_p p) h1 = Some h2" "holds base [storage_p p, blocks_path_p p, root_path_p p] h2"
    using holds_free [OF 1(2), of "fds_p p"] d by (auto simp: owned_def)
  obtain h3 where 3: "free (blocks_path_p p) h2 = Some h3" "holds base [storage_p p, root_path_p p] h3"
    using holds_free [OF 2(2), of "blocks_path_p p"] d by (auto simp: owned_def)
  obtain h4 where 4: "free (root_path_p p) h3 = Some h4" "holds base [storage_p p] h4"
    using holds_free [OF 3(2), of "root_path_p p"] d by (auto simp: owned_def)
  show ?thesis using 1(1) 2(1) 3(1) 4 by (simp add: cfs_destroy_def destroy_storage_def)
qed

end
