(* ===== verification/Cfs_Properties.thy ===== *)
theory Cfs_Properties
  imports Samples Memory
begin

text \<open>
  Properties of \<open>cfs.c\<close>: the registry, the table of a file, its blocks.
\<close>

subsection \<open>The registry of open files\<close>

text \<open>C18. Registering a descriptor that is not registered keeps the registry
  consistent, whatever the system calls do; the new entry is found under the descriptor, and every
  other one is found where it was, with its contents.\<close>

theorem register_file_keeps_registry:
  assumes "registry_ok st" "fd \<notin> set (fds st)" "fd \<noteq> -1" "length (fds st) < 2305843009213693952"
    and "cfs_register_file st path fd s = Some ((r, st'), s')"
  shows "registry_ok st' \<and> entered st path fd st'"
  using assms by (rule register_keeps)

theorem register_file_keeps_registry_witness:
  "\<exists>r st' s'. cfs_register_file sample_st ''/r/f'' 0 opened_os = Some ((r, st'), s') \<and>
    registry_ok st' \<and> entered sample_st ''/r/f'' 0 st'"
proof -
  have p: "0 \<notin> set (fds sample_st)" "(0 :: int) \<noteq> -1" "length (fds sample_st) < 2305843009213693952"
    "length ''/r/f'' < PATH_MAX" by simp_all
  obtain st' s' where r: "cfs_register_file sample_st ''/r/f'' 0 opened_os = Some ((0, st'), s')"
    using register_live [OF sample_registry p(1-3) opened_frame(4) opened_live(1,2) refl p(4)] by blast
  have "registry_ok st' \<and> entered sample_st ''/r/f'' 0 st'"
    by (rule register_file_keeps_registry [OF sample_registry p(1-3) r])
  with r show ?thesis by blast
qed

text \<open>Releasing a registered descriptor succeeds, keeps the registry
  consistent, and leaves every other entry as it was; the descriptor is not found any more.\<close>

lemma release_file_keeps_registry:
  assumes "registry_ok st" "fd \<in> set (fds st)" "fd \<noteq> -1"
  shows "\<exists>st'. cfs_release_file st fd = Some (0, st') \<and> registry_ok st' \<and> left st fd st'"
  using release_keeps [OF assms] by blast

subsection \<open>Searching the table\<close>

text \<open>C22. On a well-formed file the search ends: it returns 1 with the offset right
  after the first pair of the index, where the hash begins, or 0 when no pair has the index.\<close>

theorem find_index_searches:
  assumes "ideal s" "live s (f_fd file) f (file_image sz (of_nat (length tbl)) tbl)" "of_rd f" "table_ok tbl"
    and "f_total_blocks file = of_nat (length tbl)" "23 + 28 * length tbl < 2147483648"
  shows "\<exists>r p. cfs_file_find_index file ix s
      = Some (r, upd_file s (f_fd file) (f\<lparr>of_pos := p\<rparr>) (file_image sz (of_nat (length tbl)) tbl)) \<and>
    (case entry_pos ix tbl of
       None \<Rightarrow> r = 0
     | Some k \<Rightarrow> r = 1 \<and> p = 31 + 28 * k \<and>
         take 20 (drop p (file_image sz (of_nat (length tbl)) tbl)) = snd (tbl ! k))"
proof -
  let ?c = "file_image sz (of_nat (length tbl)) tbl"
  have u: "upd_file s (f_fd file) f ?c = s" by (rule live_upd_id [OF assms(2)])
  have l: "length ?c < 2147483648" using assms(4,6) by simp
  obtain p where "cfs_file_find_index file ix s = Some (case entry_pos ix tbl of
       None \<Rightarrow> (0, upd_file s (f_fd file) (f\<lparr>of_pos := p\<rparr>) ?c)
     | Some k \<Rightarrow> (1, upd_file s (f_fd file) (f\<lparr>of_pos := 31 + 28 * k\<rparr>) ?c))"
    using find_index_live [OF assms(1) live_range [OF assms(2)] assms(3,4) refl assms(5) l, of ix, unfolded u] ..
  then show ?thesis
    using hash_at [OF assms(4)] entry_pos_Some [of ix tbl] by (auto split: option.split)
qed

theorem find_index_searches_witness:
  "\<exists>r p. cfs_file_find_index sample_file 0 opened_os
      = Some (r, upd_file opened_os (f_fd sample_file) (sample_ofile\<lparr>of_pos := p\<rparr>)
          (file_image 2 (of_nat (length sample_table)) sample_table)) \<and>
    (case entry_pos 0 sample_table of
       None \<Rightarrow> r = 0
     | Some k \<Rightarrow> r = 1 \<and> p = 31 + 28 * k \<and>
         take 20 (drop p (file_image 2 (of_nat (length sample_table)) sample_table))
           = snd (sample_table ! k))"
  by (rule find_index_searches)
    (use opened_live in \<open>simp_all add: sample_file_def\<close>)

text \<open>C23. On a descriptor that is not open, a file that claims to have blocks
  is searched for ever: a read error is taken for one more pair that does not match.\<close>

theorem find_index_never_returns:
  assumes "ideal s" "get_fd s (f_fd file) = None" "f_total_blocks file \<noteq> 0"
    and "dec64 (uninit ''index_buff'' 8 s) \<noteq> ix"
  shows "cfs_file_find_index file ix s = None"
proof -
  have "find_pair (f_fd file) ix (uninit ''index_buff'' 8 s) (s\<lparr>errno := EBADF\<rparr>) = None"
    using find_pair_closed [of "f_fd file" ix "uninit ''index_buff'' 8 s" "s\<lparr>errno := EBADF\<rparr>"] assms
    by (cases "find_pair (f_fd file) ix (uninit ''index_buff'' 8 s) (s\<lparr>errno := EBADF\<rparr>)") auto
  moreover have "uninit ''index_buff'' 8 (s\<lparr>errno := EBADF\<rparr>) = uninit ''index_buff'' 8 s"
    by (simp add: uninit_def)
  ultimately show ?thesis
    using assms(1-3) by (simp add: cfs_file_find_index_def s_lseek_closed)
qed

theorem find_index_never_returns_witness: "cfs_file_find_index sample_file 5 sample_os = None"
proof (rule find_index_never_returns)
  have "uninit ''index_buff'' 8 sample_os = replicate 8 0" by (simp add: uninit_def numeral_eq_Suc)
  moreover have "dec64 (replicate 8 0) = 0" by code_simp
  ultimately show "dec64 (uninit ''index_buff'' 8 sample_os) \<noteq> 5" by simp
qed (simp_all add: sample_file_def)

subsection \<open>Blocks of an open file\<close>

text \<open>C14. Reading a block of an open file finds the data the file has at that index,
  or reports that there are none and leaves the caller's block alone; the file stays what it was. But a block is
  loaded with a call that lacks its fifth argument: unless what is taken for it happens to point to memory of its own,
  reading a block that the file has is undefined.\<close>

theorem read_block_refines:
  assumes "opened sha D st i af s"
  shows "\<exists>s'. cfs_file_read_block st i ix buff s =
     (case map_of af ix of
        None \<Rightarrow> Some ((0, buff, st), s')
      | Some d \<Rightarrow> if refs_valid s
          then Some ((1, buff\<lparr>b_data := overlay (b_data buff) d, b_size := of_nat (length d), b_index := ix\<rparr>, st), s')
          else None)
    \<and> opened sha D st i af s'"
  using read_block_map [OF assms] by blast

theorem read_block_refines_witness:
  "\<exists>s'. cfs_file_read_block opened_st 0 0 zero_block opened_os =
     (case map_of sample_blocks 0 of
        None \<Rightarrow> Some ((0, zero_block, opened_st), s')
      | Some d \<Rightarrow> if refs_valid opened_os
          then Some ((1, zero_block\<lparr>b_data := overlay (b_data zero_block) d, b_size := of_nat (length d), b_index := 0\<rparr>,
            opened_st), s')
          else None)
    \<and> opened sample_sha sample_D opened_st 0 sample_blocks s'"
  by (rule read_block_refines [OF sample_opened])

text \<open>C13. Registering a block at an index the file does not have adds that index
  with the block's data to the file, counts it and adds its size; nothing else of the state changes,
  and other files keep their contents and names.\<close>

theorem register_block_refines:
  assumes "opened sha D st i af s" "b_index b \<notin> fst ` set af" "51 + 28 * length af < 2147483648"
    and "d = take (unat (b_size b)) (b_data b)" "d \<in> D" "unat (b_size b) \<le> length (b_data b)"
  shows "\<exists>s' file'. cfs_file_register_block sha st i b s = Some ((0, st\<lparr>files := (files st)[i := file']\<rparr>), s') \<and>
    file' = (files st ! i)\<lparr>f_total_blocks := of_nat (length af) + 1, f_size := f_size (files st ! i) + b_size b\<rparr> \<and>
    opened sha D (st\<lparr>files := (files st)[i := file']\<rparr>) i (af @ [(b_index b, d)]) s' \<and>
    evolves sha D (storage st) (f_path (files st ! i)) (f_fd (files st ! i)) s s'"
  using register_block_map [OF assms] by blast

theorem register_block_refines_witness:
  "\<exists>s' file'. cfs_file_register_block sample_sha opened_st 0 \<lparr>b_index = 7, b_size = 1, b_data = [2, 0]\<rparr> opened_os
      = Some ((0, opened_st\<lparr>files := (files opened_st)[0 := file']\<rparr>), s') \<and>
    file' = (files opened_st ! 0)\<lparr>f_total_blocks := of_nat (length sample_blocks) + 1,
      f_size := f_size (files opened_st ! 0) + b_size \<lparr>b_index = 7, b_size = 1, b_data = [2, 0]\<rparr>\<rparr> \<and>
    opened sample_sha sample_D (opened_st\<lparr>files := (files opened_st)[0 := file']\<rparr>) 0
      (sample_blocks @ [(b_index \<lparr>b_index = 7, b_size = 1, b_data = [2, 0]\<rparr>, [2])]) s' \<and>
    evolves sample_sha sample_D (storage opened_st) (f_path (files opened_st ! 0)) (f_fd (files opened_st ! 0)) opened_os s'"
  by (rule register_block_refines [OF sample_opened]) (simp_all add: sample_D_def)

text \<open>C15. Whatever blocks are registered in an open file at distinct new indices, each
  is read back, and so is each the file had, provided that the pointer that the call of \<open>load_block\<close> lacks happens to be
  valid.\<close>

theorem blocks_round_trip:
  assumes "opened sha D st i af s" "refs_valid s" "distinct (map fst (af @ bs))" "snd ` set bs \<subseteq> D"
    and "length af + length bs \<le> MAX_PAIRS"
  shows "\<exists>st' s' s''. bf.wrs sha i bs st s = Some (st', s') \<and>
    bf.rds i (map fst bs @ map fst af) st' s' = Some (map (Some \<circ> snd) (bs @ af), s'') \<and>
    opened sha D st' i (af @ bs) s''"
  using bf.wrs_rds [where sha = sha and D = D and i = i and st = st and af = af and s = s and bs = bs] assms by auto

theorem blocks_round_trip_witness:
  "\<exists>st' s' s''. bf.wrs sample_sha 0 [(9, [2]), (3, [1, 3])] opened_st opened_os = Some (st', s') \<and>
    bf.rds 0 (map fst [(9 :: w64, [2 :: byte]), (3, [1, 3])] @ map fst sample_blocks) st' s'
      = Some (map (Some \<circ> snd) ([(9 :: w64, [2]), (3, [1, 3])] @ sample_blocks), s'') \<and>
    opened sample_sha sample_D st' 0 (sample_blocks @ [(9, [2]), (3, [1, 3])]) s''"
  by (rule blocks_round_trip [OF sample_opened]) (simp_all add: sample_D_def)

text \<open>Registering a block at an index the file already has leaves the old data in
  the file: the new block is stored, but the table keeps the old hash. The size in the header then
  counts the new block instead of the old one and is eight bytes too small besides.\<close>

lemma overwriting_is_lost:
  assumes "opened sha D st i af s" "sext s" "map_of af (b_index b) = Some e"
    and "d = take (unat (b_size b)) (b_data b)" "d \<in> D" "unat (b_size b) \<le> length (b_data b)"
  shows "\<exists>s' file'. cfs_file_register_block sha st i b s = Some ((0, st\<lparr>files := (files st)[i := file']\<rparr>), s') \<and>
    file' = (files st ! i)\<lparr>f_size := f_size (files st ! i) - of_nat (8 + length e) + b_size b\<rparr> \<and>
    opened sha D (st\<lparr>files := (files st)[i := file']\<rparr>) i af s' \<and> stored sha (storage st) s' d"
  using register_block_lost [OF assms] by blast

text \<open>C28. When a block cannot be stored, the mutex is unlocked twice; from
  then on no operation that takes it has a defined result.\<close>

theorem store_failure_breaks_the_lock:
  assumes "lock st = Unlocked" "r < 0"
    and "store_block (storage st) (b_data b) (unat (b_size b)) (sha (take (unat (b_size b)) (b_data b))) s = (r, s')"
  shows "\<exists>st'. cfs_file_register_block sha st i b s = Some ((r, st'), s') \<and> lock st' = Broken \<and>
    cfs_file_register_block sha st' i b2 s2 = None \<and> cfs_file_read_block st' i ix buff s2 = None \<and>
    cfs_register_file st' p fd s2 = None \<and> cfs_release_file st' fd = None"
  using register_block_store_failure [where b = b and sha = sha, OF assms] broken_mutex [of "st\<lparr>lock := Broken\<rparr>"] by simp

theorem store_failure_breaks_the_lock_witness:
  "\<exists>st'. cfs_file_register_block sample_sha opened_st 0 \<lparr>b_index = 0, b_size = 1, b_data = [2]\<rparr>
        (opened_os\<lparr>sched := (\<lambda>_. [Fail EPERM])\<rparr>) = Some ((-1, st'), snd (store_block sample_store [2] 1 (sample_sha [2])
          (opened_os\<lparr>sched := (\<lambda>_. [Fail EPERM])\<rparr>))) \<and> lock st' = Broken \<and>
    cfs_file_register_block sample_sha st' 0 zero_block opened_os = None \<and>
    cfs_file_read_block st' 0 0 zero_block opened_os = None \<and>
    cfs_register_file st' ''/r/f'' 3 opened_os = None \<and> cfs_release_file st' 3 = None"
proof (rule store_failure_breaks_the_lock)
  have "fst (store_block sample_store [2] 1 (sample_sha [2]) (opened_os\<lparr>sched := (\<lambda>_. [Fail EPERM])\<rparr>)) = -1"
    by code_simp
  then show "store_block (storage opened_st) (b_data \<lparr>b_index = 0, b_size = 1, b_data = [2]\<rparr>)
     (unat (b_size \<lparr>b_index = 0, b_size = 1, b_data = [2]\<rparr>))
     (sample_sha (take (unat (b_size \<lparr>b_index = 0, b_size = 1, b_data = [2]\<rparr>)) (b_data \<lparr>b_index = 0, b_size = 1, b_data = [2]\<rparr>)))
     (opened_os\<lparr>sched := \<lambda>_. [Fail EPERM]\<rparr>) =
     (-1, snd (store_block sample_store [2] 1 (sample_sha [2]) (opened_os\<lparr>sched := (\<lambda>_. [Fail EPERM])\<rparr>)))"
    by (simp add: prod_eq_iff)
qed simp_all

subsection \<open>The life of the arrays\<close>

text \<open>C31. From \<open>cfs_init\<close> over any growth of the registry, whether \<open>realloc\<close> moves the arrays or
  not, to \<open>cfs_destroy\<close> while nobody holds the mutex: nothing is freed twice or without being allocated, and of what was allocated only the
  structure of the block store is left, which nobody frees.\<close>

theorem memory_lifecycle:
  assumes "heap_ok h" "init_pointers h = (p, h1)"
  shows "\<exists>q h2 h3. grow_often ms p h1 = Some (q, h2) \<and> cfs_destroy Unlocked q h2 = Some h3 \<and>
    set (h_live h3) = insert (storage_p p) (set (h_live h)) \<and> storage_p p \<notin> set (h_live h)"
proof -
  obtain q h2 where g: "grow_often ms p h1 = Some (q, h2)" "holds (set (h_live h)) (owned q) h2" "storage_p q = storage_p p"
    using grow_often_owns [OF init_owns [OF assms]] by blast
  then show ?thesis using destroy_owned [OF g(2)] by (auto simp: holds_def)
qed

definition sample_heap :: heap where
  "sample_heap = \<lparr>h_live = [1, 2], h_next = 3\<rparr>"

theorem memory_lifecycle_witness:
  "\<exists>q h2 h3. grow_often [(True, False), (True, True)] (fst (init_pointers sample_heap)) (snd (init_pointers sample_heap)) = Some (q, h2) \<and>
    cfs_destroy Unlocked q h2 = Some h3 \<and>
    set (h_live h3) = insert (storage_p (fst (init_pointers sample_heap))) (set (h_live sample_heap)) \<and>
    storage_p (fst (init_pointers sample_heap)) \<notin> set (h_live sample_heap)"
  by (rule memory_lifecycle) (simp_all add: heap_ok_def sample_heap_def)

end
