(* ===== verification/Unaligned.thy ===== *)
theory Unaligned
  imports Bbfs_Session
begin

text \<open>
  Reads and writes that do not keep to the blocks: what one turn of the loops of \<open>bb_read\<close> and
  \<open>bb_write\<close> does inside a block.
\<close>

text \<open>An offset inside block \<open>a\<close>.\<close>

lemma inside_block:
  assumes "r < 4096"
  shows "(4096 * int a + int r) smod 4096 = int r" "(4096 * int a + int r) sdiv 4096 = int a"
  using assms by (simp_all add: smod_nonneg sdiv_nonneg)

lemma uint_small: "n \<le> 4096 \<Longrightarrow> uint (of_nat n :: w64) = int n"
  using unat_of_nat_small by (simp add: uint_nat)

lemma range_starts: "0 \<le> off \<Longrightarrow> 0 < sz \<Longrightarrow> off + sz < 9223372036854775808 \<Longrightarrow> u64 off < u64 (off + sz)"
  by simp

lemma s64_conv: "s64 (u64 x) = s64 x"
  by (simp add: s64_def u64_def signed_take_bit_take_bit)

lemma mem_copy_inside:
  "mem_copy buf 0 (overlay z d) (int r) (max (int (length d) - 2 * int r) 0) =
    (if length d - 2 * r \<le> length buf then Some (overlay buf (take (length d - 2 * r) (drop r d))) else None)"
proof (cases "2 * r < length d")
  case True
  then have k: "max (int (length d) - 2 * int r) 0 = int (length d - 2 * r)" by simp
  have "take (length d - 2 * r) (drop r (overlay z d)) = take (length d - 2 * r) (drop r d)"
    using True by (simp add: overlay_def)
  then show ?thesis
    using True unfolding k by (auto simp del: of_nat_diff simp: mem_copy_def mem_store_def overlay_def)
next
  case False
  then show ?thesis by (simp add: mem_copy_def overlay_def)
qed

lemma mem_copy_hole:
  assumes "r < n" "n - r \<le> length buf"
  shows "mem_copy (replicate n 0) (int r) buf 0 (int n - int r) = Some (replicate r 0 @ take (n - r) buf)"
proof -
  have "int n - int r = int (n - r)" using assms(1) by simp
  moreover have "replicate n 0 = replicate r (0 :: byte) @ replicate (n - r) 0"
    using assms(1) by (simp flip: replicate_add)
  ultimately show ?thesis
    using assms mem_copy_back [of "replicate r 0" "n - r" "replicate n 0" buf "replicate (n - r) 0" "int r"]
    by (simp add: overlay_def)
qed

text \<open>The first turn of a read at offset \<open>r\<close> of a block of \<open>n\<close> bytes copies \<open>n - 2 * r\<close> bytes.\<close>

lemma read_inside:
  assumes "opened sha D st i af s" "map_of af (of_nat a) = Some d" "r < 4096"
    and "0 < sz" "4096 * int a + int r + sz < 9223372036854775808"
  shows "\<exists>s'. opened sha D st i af s' \<and>
    bb_read_loop i sz (4096 * int a + int r) (4096 * int a + int r) 0 buf st s =
    (if refs_valid s \<and> length d - 2 * r \<le> length buf
     then bb_read_loop i sz (4096 * int a + int r) (4096 * int a + 4096) (4096 - int r)
       (overlay buf (take (length d - 2 * r) (drop r d))) st s'
     else None)"
proof -
  obtain s' where s': "cfs_file_read_block st i (of_nat a) zero_block s = (if refs_valid s then Some
     ((1, zero_block\<lparr>b_data := overlay (b_data zero_block) d, b_size := of_nat (length d), b_index := of_nat a\<rparr>, st), s') else None)"
    "opened sha D st i af s'"
    using read_block_map [OF assms(1), of "of_nat a" zero_block] assms(2) by auto
  have d: "length d \<le> 4096" using fetch_length [OF assms(1), of a] assms(2) by (simp add: fetch_def)
  have c: "u64 (4096 * int a + int r) < u64 (4096 * int a + int r + sz)"
    using assms(4,5) by (intro range_starts) simp_all
  have rt: "s64 (u64 (int (length d) - int r)) = int (length d) - int r"
    using d assms(3) by (simp add: s64_conv)
  have cp: "mem_copy buf 0 (overlay z d) (int r) (max (int (length d) - 2 * int r) 0) =
      (if length d - 2 * r \<le> length buf then Some (overlay buf (take (length d - 2 * r) (drop r d))) else None)" for z
    using mem_copy_inside by blast
  show ?thesis
  proof (cases "refs_valid s")
    case True
    then show ?thesis
      using s' by (intro exI [of _ s'] conjI) (simp, subst bb_read_loop.simps,
        simp add: c inside_block [OF assms(3)] uint_small [OF d] rt cp Let_def split del: if_split, simp)
  next
    case False
    then show ?thesis
      using s' by (intro exI [of _ s'] conjI) (simp, subst bb_read_loop.simps, simp add: c inside_block [OF assms(3)] Let_def)
  qed
qed

text \<open>
  The first turn of a write at offset \<open>r\<close> of a block the file does not have: a block of zeroes and
  the bytes that fit.
\<close>

lemma write_inside:
  assumes "opened sha D st i af s" "51 + 28 * length af < 2147483648" "of_nat a \<notin> fst ` set af"
    and "0 < r" "r < 4096" "4096 - r \<le> length buf" "sz = int (length buf)"
    and "replicate r 0 @ take (4096 - r) buf \<in> D" "4096 * int a + int r + sz < 9223372036854775808"
  shows "\<exists>st' s'. opened sha D st' i (af @ [(of_nat a, replicate r 0 @ take (4096 - r) buf)]) s' \<and>
    bb_write_loop sha i buf sz (4096 * int a + int r) (4096 * int a + int r) 0 st s =
    bb_write_loop sha i buf sz (4096 * int a + int r) (4096 * int a + int r + 4096) (4096 - int r) st' s'"
proof -
  let ?d = "replicate r 0 @ take (4096 - r) buf"
  let ?b = "\<lparr>b_index = of_nat a, b_size = of_nat 4096, b_data = ?d\<rparr>"
  have un: "unat (of_nat 4096 :: w64) = 4096" "uint (of_nat 4096 :: w64) = 4096" by simp_all
  have ld: "length ?d = 4096" "take 4096 ?d = ?d" using assms(5,6) by simp_all
  obtain s1 where s1: "cfs_file_read_block st i (of_nat a) zero_block s = Some ((0, zero_block, st), s1)" "opened sha D st i af s1"
    using read_block_map [OF assms(1), of "of_nat a" zero_block] assms(3) by (auto simp: map_of_eq_None_iff [symmetric])
  obtain st' s' where s': "cfs_file_register_block sha st i ?b s1 = Some ((0, st'), s')"
    "opened sha D st' i (af @ [(of_nat a, ?d)]) s'"
    using register_block_map [OF s1(2) _ assms(2), of ?b ?d] assms(3,8) un ld
    by (simp only: cfs_block.simps) auto
  have c: "u64 (4096 * int a + int r) < u64 (4096 * int a + int r + sz)"
    using assms(4-7,9) by (intro range_starts) auto
  have rt: "s64 (min 4096 (u64 (int r + sz))) = 4096"
    using assms(4-7,9) by simp
  have cp: "mem_copy (replicate 4096 0) (int r) buf 0 (4096 - int r) = Some ?d"
    using mem_copy_hole [of r 4096 buf] assms(5,6) by (simp only: of_nat_numeral)
  have "bb_write_loop sha i buf sz (4096 * int a + int r) (4096 * int a + int r) 0 st s =
    bb_write_loop sha i buf sz (4096 * int a + int r) (4096 * int a + int r + 4096) (4096 - int r) st' s'"
    using assms(4) s'(1) s1(1)
    by (subst bb_write_loop.simps) (simp add: c inside_block [OF assms(5)] rt cp Let_def)
  then show ?thesis using s'(2) by blast
qed

text \<open>
  A write inside a block the file has: the old data are read, the new ones laid over them and the
  result is stored as a block, but the table of the file keeps the old one.
\<close>

lemma mem_copy_over:
  assumes "r + length buf \<le> length dst"
  shows "mem_copy dst (int r) buf 0 (int (length buf)) = Some (take r dst @ buf @ drop (r + length buf) dst)"
  using assms by (auto simp: mem_copy_def mem_store_def nat_add_distrib simp flip: of_nat_add)

lemma overlay_old: "r \<le> length z \<Longrightarrow> take r (overlay z d) = take r (d @ drop (length d) z)"
  by (simp add: overlay_def)

lemma write_over:
  assumes "opened sha D st i af s" "sext s" "map_of af (of_nat a) = Some d"
    and "buf \<noteq> []" "r + length buf \<le> 4096" "take r (d @ replicate (4096 - length d) 0) @ buf \<in> D"
    and "4096 * a + 4096 < 9223372036854775808" "r = 0 \<or> refs_valid s"
  shows "\<exists>st' s'. bb_write_loop sha i buf (int (length buf)) (4096 * int a + int r) (4096 * int a + int r) 0 st s =
      Some ((int (length buf), st'), s') \<and> opened sha D st' i af s' \<and>
    f_size (files st' ! i) = f_size (files st ! i) - of_nat (8 + length d) + of_nat (r + length buf)"
proof -
  let ?sz = "int (length buf)" and ?off = "4096 * int a + int r"
  define z where "z = replicate 4096 (0 :: byte)"
  have z: "length z = 4096" "drop k z = replicate (4096 - k) 0" for k by (simp_all add: z_def)
  have d: "length d \<le> 4096" using fetch_length [OF assms(1), of a] assms(3) by (simp add: fetch_def)
  let ?blk = "if r = 0 then z else overlay z d"
  have lb: "length ?blk = 4096" using d z(1) by simp
  obtain blk s1 where s1: "(if r \<noteq> 0 then cfs_file_read_block st i (of_nat a) zero_block s else Some ((0, zero_block, st), s))
      = Some ((if r \<noteq> 0 then 1 else 0, blk, st), s1)" "b_data blk = ?blk" "opened sha D st i af s1" "sext s1"
    using read_block_map [OF assms(1), of "of_nat a" zero_block] assms(1-3,8)
    by (cases "r = 0") (auto simp: evolves_def simp flip: z_def)
  define data where "data = take r ?blk @ buf @ drop (r + length buf) ?blk"
  let ?b = "\<lparr>b_index = of_nat a, b_size = of_nat (r + length buf), b_data = data\<rparr>"
  have new: "take (r + length buf) data = take r (d @ replicate (4096 - length d) 0) @ buf"
    using assms(5) lb z overlay_old [of r z d] by (simp add: data_def)
  have un: "unat (of_nat (r + length buf) :: w64) = r + length buf" using assms(5) by (intro unat_of_nat_small)
  have ld: "length data = 4096" using assms(5) lb by (simp add: data_def)
  let ?file = "(files st ! i)\<lparr>f_size := f_size (files st ! i) - of_nat (8 + length d) + of_nat (r + length buf)\<rparr>"
  let ?st = "st\<lparr>files := (files st)[i := ?file]\<rparr>"
  obtain s' where s': "cfs_file_register_block sha st i ?b s1 = Some ((0, ?st), s')" "opened sha D ?st i af s'"
    using register_block_lost [OF s1(3,4), of ?b d "take r (d @ replicate (4096 - length d) 0) @ buf"] assms(3,5,6) un new ld
    by (simp only: cfs_block.simps) auto
  have c: "u64 ?off < u64 (?off + ?sz)" using assms(4,5,7) by (intro range_starts) simp_all
  have rt: "s64 (min 4096 (u64 (int r + ?sz))) = int r + ?sz" using assms(5) by simp
  have cp: "mem_copy (b_data blk) (int r) buf 0 (int (r + length buf) - int r) = Some data"
    using mem_copy_over [of r buf ?blk] lb assms(5) s1(2) by (simp add: data_def)
  have rec: "blk\<lparr>b_data := x, b_size := y, b_index := ix\<rparr> = \<lparr>b_index = ix, b_size = y, b_data = x\<rparr>" for x y ix
    by (cases blk) simp
  have ui: "uint (of_nat (r + length buf) :: w64) = int (r + length buf)" using assms(5) by (rule uint_small)
  have r4: "r < 4096" using assms(4,5) by (cases buf) simp_all
  have e: "\<not> u64 (?off + int (r + length buf)) < u64 (?off + ?sz)" using assms(5,7) by simp
  have "bb_write_loop sha i buf ?sz ?off ?off 0 st s = bb_write_loop sha i buf ?sz ?off (?off + int (r + length buf)) ?sz ?st s'"
    using s1(1) s'(1) cp ui
    by (subst bb_write_loop.simps) (simp add: c inside_block [OF r4] rt rec Let_def)
  also have "\<dots> = Some ((s32 ?sz, ?st), s')" using e by (subst bb_write_loop.simps) simp
  finally show ?thesis
    using s'(2) opened_range [OF assms(1)] assms(5) by (intro exI [of _ ?st] exI [of _ s']) simp
qed

text \<open>Whole calls: the loops end after that turn.\<close>

lemma bb_read_inside:
  assumes "cfs_get_file (cfs bb) (s32 fh) = Some i" "opened sha D (cfs bb) i af s" "map_of af (of_nat a) = Some d"
    and "r < 4096" "length buf = 4096 - r" "4096 * a + 4096 < 9223372036854775808"
  shows "\<exists>s'. opened sha D (cfs bb) i af s' \<and> bb_read bb buf (int (length buf)) (4096 * int a + int r) fh s =
    (if refs_valid s then Some ((int (length buf), overlay buf (take (length d - 2 * r) (drop r d)), bb), s') else None)"
proof -
  have d: "length d \<le> 4096" using fetch_length [OF assms(2), of a] assms(3) by (simp add: fetch_def)
  have b: "0 < int (length buf)" "4096 * int a + int r + int (length buf) < 9223372036854775808"
    "length d - 2 * r \<le> length buf" "4096 * int a + 4096 = 4096 * int a + int r + int (length buf)"
    "s32 (int (length buf)) = int (length buf)"
    using assms(4-6) d by simp_all
  obtain s' where s': "opened sha D (cfs bb) i af s'"
    "bb_read_loop i (int (length buf)) (4096 * int a + int r) (4096 * int a + int r) 0 buf (cfs bb) s =
     (if refs_valid s then bb_read_loop i (int (length buf)) (4096 * int a + int r) (4096 * int a + 4096) (4096 - int r)
       (overlay buf (take (length d - 2 * r) (drop r d))) (cfs bb) s' else None)"
    using read_inside [OF assms(2-4) b(1,2), of buf] b(3) by auto
  have "bb_read_loop i (int (length buf)) (4096 * int a + int r) (4096 * int a + int r) 0 buf (cfs bb) s =
     (if refs_valid s then Some ((s32 (int (length buf)), overlay buf (take (length d - 2 * r) (drop r d)), cfs bb), s') else None)"
    unfolding s'(2) b(4) read_loop_end ..
  then show ?thesis using s'(1) assms(1) b(5) by (intro exI [of _ s']) (simp add: bb_read_def)
qed

text \<open>A read at the start of a block copies the whole block, whatever number of bytes is asked for.\<close>

lemma bb_read_overrun:
  assumes "cfs_get_file (cfs bb) (s32 fh) = Some i" "opened sha D (cfs bb) i af s" "map_of af (of_nat a) = Some d"
    and "refs_valid s" "0 < n" "n \<le> 4096" "4096 * a + 4096 < 9223372036854775808"
  shows "\<exists>s'. bb_read bb buf (int n) (4096 * int a) fh s =
    (if length d \<le> length buf then Some ((4096, overlay buf d, bb), s') else None)"
proof -
  have b: "0 < int n" "4096 * int a + int 0 + int n < 9223372036854775808" using assms(5-7) by simp_all
  obtain s' where s': "bb_read_loop i (int n) (4096 * int a) (4096 * int a) 0 buf (cfs bb) s =
    (if length d \<le> length buf
     then bb_read_loop i (int n) (4096 * int a) (4096 * int a + 4096) 4096 (overlay buf d) (cfs bb) s' else None)"
    using that read_inside [OF assms(2,3) _ b, of buf] assms(4) by (fastforce simp del: if_split)
  have e: "\<not> u64 (4096 * int a + 4096) < u64 (4096 * int a + int n)" using assms(6,7) by simp
  have "bb_read_loop i (int n) (4096 * int a) (4096 * int a + 4096) 4096 buf' (cfs bb) s' = Some ((4096, buf', cfs bb), s')" for buf'
    using e by (subst bb_read_loop.simps) simp
  then show ?thesis using s' assms(1) by (intro exI [of _ s']) (simp add: bb_read_def)
qed

lemma bb_write_inside:
  assumes "cfs_get_file (cfs bb) (s32 fh) = Some i" "opened sha D (cfs bb) i af s" "51 + 28 * length af < 2147483648"
    and "of_nat a \<notin> fst ` set af" "0 < r" "r < 4096" "4096 - r \<le> length buf" "length buf \<le> 4096"
    and "replicate r 0 @ take (4096 - r) buf \<in> D" "4096 * a + 8192 < 9223372036854775808"
  shows "\<exists>st' s'. bb_write sha bb buf (int (length buf)) (4096 * int a + int r) fh s =
      Some ((int (length buf), bb\<lparr>cfs := st'\<rparr>), s') \<and>
    opened sha D st' i (af @ [(of_nat a, replicate r 0 @ take (4096 - r) buf)]) s'"
proof -
  have b: "4096 * int a + int r + int (length buf) < 9223372036854775808"
    "\<not> u64 (4096 * int a + int r + 4096) < u64 (4096 * int a + int r + int (length buf))"
    "s32 (int (length buf)) = int (length buf)"
    using assms(6,8,10) by simp_all
  obtain st' s' where s': "opened sha D st' i (af @ [(of_nat a, replicate r 0 @ take (4096 - r) buf)]) s'"
    "bb_write_loop sha i buf (int (length buf)) (4096 * int a + int r) (4096 * int a + int r) 0 (cfs bb) s =
     bb_write_loop sha i buf (int (length buf)) (4096 * int a + int r) (4096 * int a + int r + 4096) (4096 - int r) st' s'"
    using write_inside [OF assms(2-7) refl assms(9) b(1)] by blast
  have "bb_write_loop sha i buf (int (length buf)) (4096 * int a + int r) (4096 * int a + int r) 0 (cfs bb) s =
     Some ((s32 (int (length buf)), st'), s')"
    unfolding s'(2) using b(2) by (subst bb_write_loop.simps) simp
  then show ?thesis using s'(1) assms(1) b(3) by (auto simp: bb_write_def)
qed

lemma bb_write_over:
  assumes "cfs_get_file (cfs bb) (s32 fh) = Some i" "opened sha D (cfs bb) i af s" "sext s" "map_of af (of_nat a) = Some d"
    and "buf \<noteq> []" "r + length buf \<le> 4096" "take r (d @ replicate (4096 - length d) 0) @ buf \<in> D"
    and "4096 * a + 4096 < 9223372036854775808" "r = 0 \<or> refs_valid s"
  shows "\<exists>st' s'. bb_write sha bb buf (int (length buf)) (4096 * int a + int r) fh s =
      Some ((int (length buf), bb\<lparr>cfs := st'\<rparr>), s') \<and> opened sha D st' i af s' \<and>
    f_size (files st' ! i) = f_size (files (cfs bb) ! i) - of_nat (8 + length d) + of_nat (r + length buf)"
  using write_over [OF assms(2-9)] assms(1) by (fastforce simp: bb_write_def)

end
