(* ===== verification/Cfscat.thy ===== *)
theory Cfscat
  imports Startup Dumps Memory
begin

text \<open>
  The program \<open>cfscat\<close>, which prints the table of a file. It is linked with \<open>fakelog.c\<close>, so that the messages of
  \<open>cfs.c\<close> go to standard output like those of \<open>printf\<close>: what is printed is a list of strings, as they are passed on.
  \<open>strerror\<close> and \<open>show_p\<close>, what \<open>%p\<close> shows of the address of an entry of \<open>files\<close>, are the library's.
\<close>

subsection \<open>The messages\<close>

definition registered_line :: "int \<Rightarrow> path \<Rightarrow> nat \<Rightarrow> string" where
  "registered_line fd path i = [CHR 0x0A] @ '' CFS: registered file[FD: '' @ show_signed fd @ '']: '' @ path @
     '' at index: '' @ show_signed (int i) @ '' '' @ [CHR 0x0A]"

definition sizes_line :: "int \<Rightarrow> path \<Rightarrow> w64 \<Rightarrow> w64 \<Rightarrow> string" where
  "sizes_line fd path sz n = [CHR 0x0A] @ '' CFS: File [FD: '' @ show_signed fd @ '']: '' @ path @
     '' is '' @ fmt_ld sz @ '' bytes, '' @ fmt_ld n @ '' blocks '' @ [CHR 0x0A]"

definition error_line :: "(int \<Rightarrow> string) \<Rightarrow> string \<Rightarrow> os \<Rightarrow> string" where
  "error_line strerror func s = ''    ERROR '' @ func @ '': '' @ strerror (errno s) @ [CHR 0x0A]"

definition found_line :: "int \<Rightarrow> nat \<Rightarrow> string \<Rightarrow> string" where
  "found_line fd i p = [CHR 0x0A] @ '' CFS: Found file '' @ show_signed fd @ '' at ['' @ show_signed (int i) @ ''] -> *'' @ p @ [CHR 0x0A]"

definition header_line :: "w64 \<Rightarrow> w64 \<Rightarrow> string" where
  "header_line sz n = ''File size: '' @ fmt_ld sz @ '', total blocks: '' @ fmt_d n @ '' '' @ [CHR 0x0A] @ '' BLOCKS:'' @ [CHR 0x0A]"

definition pair_line :: "w64 \<Rightarrow> string \<Rightarrow> string" where
  "pair_line ix hex = [CHR 0x09] @ fmt_d ix @ '' -> '' @ hex @ [CHR 0x0A]"

text \<open>
  \<open>cfs_register_file\<close> and \<open>cfs_get_file\<close> as they are linked here, with what they print. Apart from that they are
  those of \<open>Cfs\<close>.
\<close>

definition cat_register_file ::
  "(int \<Rightarrow> string) \<Rightarrow> cfs_state \<Rightarrow> path \<Rightarrow> int \<Rightarrow> os \<Rightarrow> ((string list \<times> int \<times> cfs_state) \<times> os) option" where
  "cat_register_file strerror st path fd s = do {
     st \<leftarrow> mutex_lock st;
     (st, s) \<leftarrow>
       (if fds_cap st div 2 \<le> unat (n_fds st)
        then (let (ok1, s) = malloc_ok s; (ok2, s) = malloc_ok s
              in if ok1 \<and> ok2 then Some (grow st s, s) else None)
        else Some (st, s));
     case find_fd (-1) (fds st) of
       None \<Rightarrow> Some (([], -1, mutex_unlock st), s)
     | Some i \<Rightarrow>
         if PATH_MAX \<le> length path \<or> length (files st) \<le> i then None
         else do {
           let st = st\<lparr>fds := (fds st)[i := fd],
             files := (files st)[i := (files st ! i)\<lparr>f_offset := 0, f_fd := fd, f_path := path\<rparr>],
             n_fds := n_fds st + 1\<rparr>;
           (r0, s) \<leftarrow> s_lseek_decl fd 7 SEEK_SET s;
           let ((r1, bs1), s) = s_read fd 8 s;
           let f = files st ! i;
           let f = f\<lparr>f_size := dec64 (overlay (enc64 (f_size f)) bs1)\<rparr>;
           let ((r2, bs2), s) = s_read fd 8 s;
           let f = f\<lparr>f_total_blocks := dec64 (overlay (enc64 (f_total_blocks f)) bs2)\<rparr>;
           let st = st\<lparr>files := (files st)[i := f]\<rparr>;
           let ret = s32 (s32 (s32 r0 OR r1) OR r2);
           if ret < 0
           then Some (([registered_line fd path i, error_line strerror ''CFS: Register file'' s], ret, mutex_unlock st), s)
           else Some (([registered_line fd path i, sizes_line fd path (f_size f) (f_total_blocks f)], fd, mutex_unlock st), s)
         }
   }"

definition cat_get_file :: "(nat \<Rightarrow> nat \<Rightarrow> string) \<Rightarrow> pointers \<Rightarrow> cfs_state \<Rightarrow> int \<Rightarrow> (string list \<times> nat) option" where
  "cat_get_file show_p ptrs st fd =
     (case find_fd fd (fds st) of Some i \<Rightarrow> Some ([found_line fd i (show_p (files_p ptrs) i)], i) | None \<Rightarrow> None)"

lemma cat_register_same:
  "map_option (apfst snd) (cat_register_file strerror st path fd s) = cfs_register_file st path fd s"
  by (simp add: cat_register_file_def cfs_register_file_def Let_def case_prod_unfold map_option_bind comp_def
      if_distrib [of "map_option (apfst snd)"] option.case_distrib [of "map_option (apfst snd)"]
      if_distrib [of Some] if_distrib [of "\<lambda>x. (x, y)" for y] cong: option.case_cong if_cong)

lemma cat_get_same: "map_option snd (cat_get_file show_p ptrs st fd) = cfs_get_file st fd"
  by (simp add: cat_get_file_def cfs_get_file_def split: option.splits)

subsection \<open>The program\<close>

text \<open>The two buffers keep their bytes where a read returns fewer.\<close>

fun cat_pairs :: "nat \<Rightarrow> int \<Rightarrow> byte list \<Rightarrow> byte list \<Rightarrow> os \<Rightarrow> string list \<times> os" where
  "cat_pairs 0 fd index_buf hash_buf s = ([], s)"
| "cat_pairs (Suc k) fd index_buf hash_buf s =
     (let ((_, bs), s) = s_read fd 8 s;
          index_buf = overlay index_buf bs;
          ((_, hs), s) = s_read fd HASH_LENGTH s;
          hash_buf = overlay hash_buf hs;
          (_, hex_buf) = hexify hash_buf '''' (HASH_LENGTH * 2 + 1);
          (rest, s) = cat_pairs k fd index_buf hash_buf s
      in (pair_line (dec64 index_buf) hex_buf # rest, s))"

text \<open>
  \<open>args\<close> is \<open>argv\<close>: what is missing is a null pointer, whose characters are read. \<open>st\<close> and \<open>ptrs\<close> are the content of
  \<open>state\<close> before, \<open>ptrs\<close> that of its pointers; \<open>h\<close> is the memory in use. The result of \<open>cfs_init\<close> is not looked at: it
  allocates nothing when \<open>sysconf\<close> fails. The message of \<open>perror\<close> goes to standard error. The counter of the loop is an
  \<open>int\<close>, which must not overflow. A file that is not found leaves a null pointer to look into; closing a log that was
  not opened is undefined.
\<close>

definition cfscat ::
  "(int \<Rightarrow> string) \<Rightarrow> (nat \<Rightarrow> nat \<Rightarrow> string) \<Rightarrow> int \<Rightarrow> (string \<Rightarrow> os \<Rightarrow> string option \<times> os) \<Rightarrow> (string \<Rightarrow> os \<Rightarrow> int \<times> os)
     \<Rightarrow> (int \<Rightarrow> os \<Rightarrow> int \<times> os) \<Rightarrow> bool \<times> bool \<Rightarrow> cfs_state \<Rightarrow> pointers \<Rightarrow> string list \<Rightarrow> heap \<Rightarrow> os
     \<Rightarrow> ((string list \<times> heap) \<times> os) option" where
  "cfscat strerror show_p open_max realpath fopen fclose moves st ptrs args h s =
     (if length args < 3 then None
      else (let (root, s) = realpath (args ! 1) s in do {
        root \<leftarrow> root;
        ((init, st), s) \<leftarrow> cfs_init open_max root st s;
        let (ptrs, h) = (if init < 0 then (ptrs, h) else init_pointers h);
        let (log, s) = fakelog_open fopen s;
        let file = combine root (args ! 2);
        if PATH_MAX \<le> length file then None
        else do {
          let (fd, s) = sys_open file O_RDONLY s;
          (ptrs, h) \<leftarrow> (if fds_cap st div 2 \<le> unat (n_fds st) then grow_pointers moves ptrs h else Some (ptrs, h));
          ((out1, _, st), s) \<leftarrow> cat_register_file strerror st file fd s;
          (out2, i) \<leftarrow> cat_get_file show_p ptrs st fd;
          let cfs_file = files st ! i;
          let total = sint (f_total_blocks cfs_file);
          (_, s) \<leftarrow> s_lseek_decl fd BLOCK_START SEEK_SET s;
          if 2147483648 \<le> total then None
          else do {
            let (pairs, s) = cat_pairs (nat total) fd (uninit ''index_buf'' 8 s) (uninit ''hash_buf'' 20 s) s;
            h \<leftarrow> cfs_destroy (lock st) ptrs h;
            if log = 0 then None
            else (let (_, s) = fclose log s
                  in Some ((out1 @ out2 @ header_line (f_size cfs_file) (f_total_blocks cfs_file) # pairs, h), s))
          }
        }
      }))"

text \<open>The lines for a table, and all that is printed of a file.\<close>

definition printed :: "table \<Rightarrow> string list" where
  "printed tbl = map (\<lambda>(ix, h). pair_line ix (hex_bytes h)) tbl"

definition cat_report :: "string \<Rightarrow> path \<Rightarrow> int \<Rightarrow> w64 \<Rightarrow> table \<Rightarrow> string list" where
  "cat_report entry path fd sz tbl = (let n = of_nat (length tbl) in
     [registered_line fd path 0, sizes_line fd path sz n, found_line fd 0 entry, header_line sz n] @ printed tbl)"

lemma cat_pairs_live:
  assumes "ideal s" "live s fd f c" "of_rd f" "table_ok tbl" "c = pre @ enc_table tbl" "of_pos f = length pre"
    and "length ib = 8" "length hb = 20"
  shows "\<exists>p. cat_pairs (length tbl) fd ib hb s = (printed tbl, upd_file s fd (f\<lparr>of_pos := p\<rparr>) c)"
  using assms
proof (induction tbl arbitrary: s f pre ib hb)
  case Nil
  have "f\<lparr>of_pos := of_pos f\<rparr> = f" by simp
  then show ?case using live_upd_id [OF Nil.prems(2)] by (intro exI [of _ "of_pos f"]) (simp add: printed_def del: upd_file_def)
next
  case (Cons e tbl)
  obtain ix h where e: "e = (ix, h)" by fastforce
  have h: "length h = 20" "table_ok tbl" using Cons.prems(4) by (simp_all add: e table_ok_def)
  let ?f = "f\<lparr>of_pos := length (pre @ enc_pair e)\<rparr>"
  have c: "c = pre @ enc64 ix @ h @ enc_table tbl" using Cons.prems(5) by (simp add: e enc_pair_def)
  have r1: "s_read fd 8 s = ((8, enc64 ix), upd_file s fd (f\<lparr>of_pos := of_pos f + 8\<rparr>) c)"
    using s_read_live [OF Cons.prems(1-3), of 8] Cons.prems(6) c by (simp add: Let_def)
  have l1: "ideal (upd_file s fd (f\<lparr>of_pos := of_pos f + 8\<rparr>) c)"
    "live (upd_file s fd (f\<lparr>of_pos := of_pos f + 8\<rparr>) c) fd (f\<lparr>of_pos := of_pos f + 8\<rparr>) c"
    using Cons.prems(1,2) live_range by simp_all
  have r2: "s_read fd 20 (upd_file s fd (f\<lparr>of_pos := of_pos f + 8\<rparr>) c) = ((20, h), upd_file s fd ?f c)"
    using s_read_live [OF l1, of 20] Cons.prems(2,3,6) h c by (simp add: e enc_pair_def add.assoc Let_def)
  have l2: "ideal (upd_file s fd ?f c)" "live (upd_file s fd ?f c) fd ?f c"
    using Cons.prems(1,2) live_range by simp_all
  obtain p where p: "cat_pairs (length tbl) fd (enc64 ix) h (upd_file s fd ?f c) =
      (printed tbl, upd_file (upd_file s fd ?f c) fd (?f\<lparr>of_pos := p\<rparr>) c)"
    using Cons.IH [OF l2 _ h(2), of "pre @ enc_pair e" "enc64 ix" h] Cons.prems(3,5) h(1) by auto
  have "overlay ib (enc64 ix) = enc64 ix" "overlay hb h = h"
    using Cons.prems(7,8) h(1) by (simp_all add: overlay_def)
  moreover have "hexify h '''' 41 = (40, hex_bytes h)"
    using h(1) by (subst hexify_nonempty) auto
  ultimately show ?case
    using r1 r2 p by (intro exI [of _ p]) (simp add: printed_def e Let_def)
qed

lemma init_empty:
  "cfs_init open_max root st s = Some ((0, st'), s') \<Longrightarrow> fds st' = replicate 20 (-1) \<and> n_fds st' = 0"
  by (auto simp: cfs_init_def Let_def split: prod.splits if_splits)

text \<open>The first file of a registry takes its first entry.\<close>

lemma cat_register_first:
  assumes "fds st = replicate 20 (-1)" "n_fds st = 0" "0 \<le> fd" "cfs_register_file st path fd s = Some ((fd, st'), s')"
  shows "cat_register_file strerror st path fd s = Some (([registered_line fd path 0,
      sizes_line fd path (f_size (files st' ! 0)) (f_total_blocks (files st' ! 0))], fd, st'), s')"
    "find_fd fd (fds st') = Some 0"
proof -
  have f: "find_fd (-1) (fds st) = Some 0" "(replicate 20 (-1 :: int))[0 := fd] = fd # replicate 19 (-1)"
    using assms(1) by (simp_all add: numeral_eq_Suc)
  have l: "lock st = Unlocked" "length path < PATH_MAX" "files st \<noteq> []"
    using assms(1,2,4) f(1)
    by (auto simp: cfs_register_file_def mutex_lock_def fds_cap_def not_le split: if_splits)
  have "s_lseek_decl fd 7 SEEK_SET s \<noteq> None"
    using assms(1,2,4) f(1) l by (cases "s_lseek_decl fd 7 SEEK_SET s") (simp_all add: cfs_register_file_def fds_cap_def)
  then obtain r0 s0 r1 bs1 s1 r2 bs2 s2 where x: "s_lseek_decl fd 7 SEEK_SET s = Some (r0, s0)"
    "s_read fd 8 s0 = ((r1, bs1), s1)" "s_read fd 8 s1 = ((r2, bs2), s2)"
    by (metis not_None_eq prod.exhaust)
  show "cat_register_file strerror st path fd s = Some (([registered_line fd path 0,
      sizes_line fd path (f_size (files st' ! 0)) (f_total_blocks (files st' ! 0))], fd, st'), s')"
    "find_fd fd (fds st') = Some 0"
    using assms f l
    by (auto simp: cat_register_file_def cfs_register_file_def fds_cap_def mutex_unlock_def x Let_def
        split: if_splits)
qed

lemma cfscat_table:
  assumes "ideal s" "os_wf s" "first_free s \<noteq> None" "length (fdtab s) < 2147483648"
    and "is_dir s root" "root \<noteq> []" "last root \<noteq> DIR_SEPARATOR" "is_dir s (root @ DIR_SEPARATOR # BLOCKS_DIRECTORY)"
    and "realpath arg1 s = (Some root, s)" "0 \<le> open_max" "fopen ''/dev/random'' s = (lg, s1)" "lg \<noteq> 0"
    and "ideal s1" "first_free s1 = Some fd" "p = combine root arg2" "length p < PATH_MAX"
    and "names s1 p = Some n" "inodes s1 n = Some (Reg (file_image sz (of_nat (length tbl)) tbl))"
    and "table_ok tbl" "23 + 28 * length tbl < 2147483648" "heap_ok h" "init_pointers h = (ptrs, h1)"
  shows "\<exists>h' s'. cfscat strerror show_p open_max realpath fopen fclose moves st ptrs0 [prog, arg1, arg2] h s =
      Some ((cat_report (show_p (files_p ptrs) 0) p fd sz tbl, h'), s') \<and> holds (set (h_live h)) [storage_p ptrs] h'"
proof -
  let ?c = "file_image sz (of_nat (length tbl)) tbl"
  let ?f = "\<lparr>of_ino = n, of_pos = 0, of_rd = True, of_wr = False, of_lock = F_UNLCK\<rparr>"
  let ?s = "upd_file s1 fd ?f ?c" and ?s1 = "upd_file s1 fd (?f\<lparr>of_pos := 23\<rparr>) ?c"
  note ff = first_free_Some [OF assms(14)]
  have m: "mounted root s = s" using assms(8) by (auto simp: mounted_def Let_def is_dir_def split: option.splits)
  obtain st0 where st0: "cfs_init open_max root st s = Some ((0, st0), s)" "session_ok st0 s"
    using init_ready [OF assms(1-5,6,7,10)] assms(8) m by fastforce
  note e = init_empty [OF st0(1)]
  have o: "sys_open p O_RDONLY s1 = (fd, ?s)" using assms(13,14,17,18) by (simp add: ideal_simps)
  have r: "registry_ok st0" "fd \<notin> set (fds st0)" "fd \<noteq> -1" "length (fds st0) < 2305843009213693952" "0 \<le> fd"
    using st0(2) session_bound ff e by (auto simp: session_ok_def)
  have l: "ideal ?s" "live ?s fd ?f ?c" "of_rd ?f" using assms(13) ff by simp_all
  obtain i st' where st': "cfs_register_file st0 p fd ?s = Some ((fd, st'), upd_file ?s fd (?f\<lparr>of_pos := 23\<rparr>) ?c)"
    "registry_ok st'" "cfs_get_file st' fd = Some i"
    "files st' ! i = \<lparr>f_path = p, f_offset = 0, f_size = sz, f_total_blocks = of_nat (length tbl), f_fd = fd\<rparr>"
    using register_live [OF r(1-4) l refl assms(16)] by blast
  note g = cat_register_first [OF _ _ r(5) st'(1)]
  have i: "find_fd fd (fds st') = Some 0" "i = 0" using g(2) e st'(3) by (simp_all add: cfs_get_file_def)
  have l1: "ideal ?s1" "live ?s1 fd (?f\<lparr>of_pos := 23\<rparr>) ?c" using assms(13) ff by simp_all
  have sk: "s_lseek_decl fd 23 SEEK_SET ?s1 = Some (23, ?s1)"
    using s_lseek_decl_live [OF l1, of 23 SEEK_SET] live_upd_id [OF l1(2)] by simp
  have c: "?c = (MAGIC @ enc64 sz @ enc64 (of_nat (length tbl))) @ enc_table tbl" by (simp add: file_image_def)
  obtain q where q: "cat_pairs (length tbl) fd (uninit ''index_buf'' 8 ?s1) (uninit ''hash_buf'' 20 ?s1) ?s1
      = (printed tbl, upd_file ?s1 fd (?f\<lparr>of_pos := 23\<rparr>\<lparr>of_pos := q\<rparr>) ?c)"
    using cat_pairs_live [OF l1 _ assms(19) c, of "uninit ''index_buf'' 8 ?s1" "uninit ''hash_buf'' 20 ?s1"]
    by (auto simp: MAGIC_def)
  obtain h' where h': "cfs_destroy Unlocked ptrs h1 = Some h'" "holds (set (h_live h)) [storage_p ptrs] h'"
    using destroy_owned [OF init_owns [OF assms(21,22)]] by blast
  have t: "sint (of_nat (length tbl) :: w64) = int (length tbl)"
    using assms(20) by (simp add: signed_of_nat signed_take_bit_int_eq_self)
  have k: "nat (int (length tbl)) = length tbl" "\<not> 2147483648 \<le> int (length tbl)" "lock st' = Unlocked" "fds_cap st0 = 20"
    using assms(20) st'(2) e by (simp_all add: registry_ok_def fds_cap_def)
  then show ?thesis
    using assms(9,11,12,15,16,22) st0(1) o g(1) [of strerror] e i st'(4) sk q t h'
    by (simp add: cfscat_def Let_def fakelog_open_def cat_get_file_def cat_report_def split_beta)
qed

end
