(* ===== verification/Bbfs_Properties.thy ===== *)
theory Bbfs_Properties
  imports Samples Unaligned Programs Cfscat
begin

text \<open>
  Properties of the FUSE handlers of \<open>bbfs.c\<close>, each on its own.
\<close>

subsection \<open>Mounting and paths\<close>

text \<open>C21. Started by an ordinary user with a root directory and a mount point, \<open>bbfs\<close> makes the
  directory of the blocks if it is missing and runs FUSE on the arguments without the root directory,
  with a usable block store and an empty, consistent registry.\<close>

theorem bbfs_mounts:
  assumes "ideal s" "os_wf s" "first_free s \<noteq> None" "length (fdtab s) < 2147483648" "is_dir s root" "root \<noteq> []"
    "last root \<noteq> DIR_SEPARATOR" "0 \<le> open_max"
    and "names s (root @ DIR_SEPARATOR # BLOCKS_DIRECTORY) = None \<or> is_dir s (root @ DIR_SEPARATOR # BLOCKS_DIRECTORY)"
    and "uid \<noteq> 0" "euid \<noteq> 0" "opts \<noteq> []" "take 1 arg \<noteq> ''-''" "take 1 mnt \<noteq> ''-''"
    and "realpath arg s = (Some root, s)" "fopen ''bbfs.log'' s = (lg, s)" "lg \<noteq> 0"
  shows "\<exists>st'. bbfs_main uid euid realpath fopen open_max fuse_main st (opts @ [arg, mnt]) s =
      (case fuse_main (opts @ [mnt]) \<lparr>rootdir = root, cfs = st'\<rparr> (mounted root s) of (r, s') \<Rightarrow> Some (Returned r, s')) \<and>
    ready (storage st') (mounted root s) \<and> session_ok st' (mounted root s) \<and>
    blocks_path (storage st') = root @ DIR_SEPARATOR # BLOCKS_DIRECTORY"
  using assms by (rule bbfs_mounting)

theorem bbfs_mounts_witness:
  "\<exists>st'. bbfs_main 1000 1000 (\<lambda>p s. (Some ''/r'', s)) (\<lambda>p s. (1, s)) 1024 (\<lambda>args bb s. (int (length args), s)) sample_st
      ([''bbfs''] @ [''r'', ''mnt'']) sample_os =
      (case (\<lambda>args bb s. (int (length args), s)) ([''bbfs''] @ [''mnt'']) \<lparr>rootdir = ''/r'', cfs = st'\<rparr> (mounted ''/r'' sample_os)
       of (r, s') \<Rightarrow> Some (Returned r, s')) \<and>
    ready (storage st') (mounted ''/r'' sample_os) \<and> session_ok st' (mounted ''/r'' sample_os) \<and>
    blocks_path (storage st') = ''/r'' @ DIR_SEPARATOR # BLOCKS_DIRECTORY"
  by (rule bbfs_mounts [where lg = 1]) (use sample_wf in \<open>simp_all add: is_dir_def\<close>)

text \<open>C36. On a CFS file \<open>cfscat\<close> prints two lines of \<open>cfs_register_file\<close> and one of \<open>cfs_get_file\<close>, then the
  size and the number of blocks of the header and, in order, each pair of the table: the index as an \<open>int\<close>, the hash in
  full. Of the memory it allocates for the state it frees all but the block store's record. It assumes that the log can be
  opened, since closing it is undefined otherwise.\<close>

theorem cfscat_prints:
  assumes "ideal s" "os_wf s" "first_free s \<noteq> None" "length (fdtab s) < 2147483648"
    and "is_dir s root" "root \<noteq> []" "last root \<noteq> DIR_SEPARATOR" "is_dir s (root @ DIR_SEPARATOR # BLOCKS_DIRECTORY)"
    and "realpath arg1 s = (Some root, s)" "0 \<le> open_max" "fopen ''/dev/random'' s = (lg, s1)" "lg \<noteq> 0"
    and "ideal s1" "first_free s1 = Some fd" "p = combine root arg2" "length p < PATH_MAX"
    and "names s1 p = Some n" "inodes s1 n = Some (Reg (file_image sz (of_nat (length tbl)) tbl))"
    and "table_ok tbl" "23 + 28 * length tbl < 2147483648" "heap_ok h" "init_pointers h = (ptrs, h1)"
  shows "\<exists>h' s'. cfscat strerror show_p open_max realpath fopen fclose moves st ptrs0 [prog, arg1, arg2] h s =
      Some ((cat_report (show_p (files_p ptrs) 0) p fd sz tbl, h'), s') \<and> holds (set (h_live h)) [storage_p ptrs] h'"
  using assms by (rule cfscat_table)

theorem cfscat_prints_witness:
  "\<exists>h' s'. cfscat (\<lambda>e. ''error'') (\<lambda>p i. ''0x'' @ show_unsigned 16 (p + i)) 1024 (\<lambda>p s. (Some ''/r'', s))
      (\<lambda>p s. (1, s\<lparr>fdtab := [Some sample_ofile, None, None, None]\<rparr>)) (\<lambda>l s. (0, s)) (False, False) sample_st
      \<lparr>storage_p = 0, blocks_path_p = 0, root_path_p = 0, files_p = 0, fds_p = 0\<rparr> [''cfscat'', ''r'', ''f'']
      \<lparr>h_live = [], h_next = 1\<rparr> sample_os
    = Some ((cat_report (''0x'' @ show_unsigned 16 (files_p (fst (init_pointers \<lparr>h_live = [], h_next = 1\<rparr>)) + 0))
        ''/r/f'' 1 2 sample_table, h'), s') \<and>
      holds (set (h_live \<lparr>h_live = [], h_next = 1\<rparr>)) [storage_p (fst (init_pointers \<lparr>h_live = [], h_next = 1\<rparr>))] h'"
  by (rule cfscat_prints [where root = "''/r''" and n = 2 and lg = 1
        and ?s1.0 = "sample_os\<lparr>fdtab := [Some sample_ofile, None, None, None]\<rparr>"
        and ?h1.0 = "snd (init_pointers \<lparr>h_live = [], h_next = 1\<rparr>)"])
    (use sample_wf in \<open>simp_all add: is_dir_def combine_def table_ok_def first_free_def heap_ok_def\<close>)

text \<open>A path is prefixed with the root directory as it is; only when both fit in the
  buffer of \<open>PATH_MAX\<close> bytes has the code a defined result.\<close>

lemma fullpath_prefixes:
  "bb_fullpath bb path =
     (if length (rootdir bb) + length path < PATH_MAX then Some (rootdir bb @ path) else None)"
  by (auto simp: bb_fullpath_def Let_def)

subsection \<open>Creating, opening and releasing\<close>

text \<open>Making a regular file whose name is free succeeds and leaves a closed CFS file
  without blocks, of size 0; no descriptor stays open.\<close>

lemma mknod_creates_empty:
  assumes "bb_fullpath bb path = Some p" "S_ISREG mode" "store_ok sha D bs s"
    and "names s p = None" "is_dir s (parent_of p)" "p \<notin> block_of sha bs ` D"
  shows "\<exists>s'. bb_mknod mkfifo mknod bb path mode dev s = Some (0, s') \<and> closed_file sha D bs p 0 [] s' \<and>
    fdtab s' = fdtab s"
proof -
  have i: "ideal s" "first_free s \<noteq> None" using store_okD(1,2) [OF assms(3)] by (auto simp: ready_def)
  show ?thesis
    using mknod_new [OF assms(1,2) i(1) assms(4,5) i(2)] closed_new_file [OF assms(3,4,6)]
    by (auto simp: new_node_def)
qed

text \<open>C19. Opening a closed file registers it: the handle finds an entry of the registry with
  the file's path, size and number of blocks, the file has the same blocks, and one descriptor is used.\<close>

theorem open_refines:
  assumes "bb_fullpath bb path = Some p" "session_ok (cfs bb) s" "2 \<le> free_fds s"
    and "closed_file sha D (storage (cfs bb)) p sz af s"
  shows "\<exists>fd i st' s'. bb_open bb path s = Some ((0, fd, bb\<lparr>cfs := st'\<rparr>), s') \<and>
    cfs_get_file st' fd = Some i \<and> opened sha D st' i af s' \<and>
    files st' ! i = \<lparr>f_path = p, f_offset = 0, f_size = sz, f_total_blocks = of_nat (length af), f_fd = fd\<rparr> \<and>
    session_ok st' s' \<and> entered (cfs bb) p fd st' \<and> Suc (free_fds s') = free_fds s"
  using open_closed [OF assms] by blast

theorem open_refines_witness:
  "\<exists>fd i st' s'. bb_open sample_bb ''/f'' sample_os = Some ((0, fd, sample_bb\<lparr>cfs := st'\<rparr>), s') \<and>
    cfs_get_file st' fd = Some i \<and> opened sample_sha sample_D st' i sample_blocks s' \<and>
    files st' ! i = \<lparr>f_path = ''/r/f'', f_offset = 0, f_size = 2, f_total_blocks = of_nat (length sample_blocks), f_fd = fd\<rparr> \<and>
    session_ok st' s' \<and> entered (cfs sample_bb) ''/r/f'' fd st' \<and> Suc (free_fds s') = free_fds sample_os"
  by (rule open_refines [OF sample_fullpath(1)])
    (use sample_session sample_closed sample_free in simp_all)

text \<open>C20. Releasing an open file leaves it closed on disk with its size and blocks, takes
  exactly its entry out of the registry and frees its descriptor.\<close>

theorem release_refines:
  assumes "session_ok (cfs bb) s" "opened sha D (cfs bb) i af s"
    and "cfs_get_file (cfs bb) fd = Some i" "f_fd (files (cfs bb) ! i) = fd" "s32 fd = fd"
  shows "\<exists>st' s'. bb_release bb fd s = Some ((0, bb\<lparr>cfs := st'\<rparr>), s') \<and>
    closed_file sha D (storage st') (f_path (files (cfs bb) ! i)) (f_size (files (cfs bb) ! i)) af s' \<and>
    session_ok st' s' \<and> left (cfs bb) fd st' \<and>
    free_fds s' = Suc (free_fds s) \<and> names s' = names s \<and> inodes s' = inodes s"
  using release_opened [OF assms] by blast

theorem release_refines_witness:
  "\<exists>st' s'. bb_release opened_bb 0 opened_os = Some ((0, opened_bb\<lparr>cfs := st'\<rparr>), s') \<and>
    closed_file sample_sha sample_D (storage st') (f_path (files (cfs opened_bb) ! 0))
      (f_size (files (cfs opened_bb) ! 0)) sample_blocks s' \<and>
    session_ok st' s' \<and> left (cfs opened_bb) 0 st' \<and>
    free_fds s' = Suc (free_fds opened_os) \<and> names s' = names opened_os \<and> inodes s' = inodes opened_os"
  by (rule release_refines)
    (use opened_session sample_opened opened_get_file in \<open>simp_all add: sample_file_def\<close>)

subsection \<open>Writing and reading\<close>

text \<open>C8. Writing at a block boundary, in blocks the file does not have yet, cuts the buffer
  into blocks and appends them to the file; it returns the number of bytes, adds them to the size,
  and leaves every other file and the session as they were.\<close>

theorem write_refines:
  assumes "session_ok (cfs bb) s" "cfs_get_file (cfs bb) (s32 fh) = Some i"
    and "opened sha D (cfs bb) i af s" "fresh_blocks D af a bs"
  shows "\<exists>st' s'. bb_write sha bb bs (int (length bs)) (4096 * int a) fh s
      = Some ((int (length bs), bb\<lparr>cfs := st'\<rparr>), s') \<and>
    opened sha D st' i (af @ chunks a bs) s' \<and> session_ok st' s' \<and>
    f_size (files st' ! i) = f_size (files (cfs bb) ! i) + of_nat (length bs) \<and>
    evolves sha D (storage (cfs bb)) (f_path (files (cfs bb) ! i)) (f_fd (files (cfs bb) ! i)) s s'"
proof -
  obtain st' s' where w: "bb_write sha bb bs (int (length bs)) (4096 * int a) fh s = Some ((int (length bs), bb\<lparr>cfs := st'\<rparr>), s')"
    "opened sha D st' i (af @ chunks a bs) s'" "advanced i (length bs) (cfs bb) st'"
    "evolves sha D (storage (cfs bb)) (f_path (files (cfs bb) ! i)) (f_fd (files (cfs bb) ! i)) s s'"
    using write_aligned [OF assms(2-4)] by blast
  then show ?thesis
    using session_ok_evolves [OF assms(1) w(4,3)] advanced_frame(2) [OF w(3) opened_range [OF assms(3)]] by blast
qed

theorem write_refines_witness:
  "\<exists>st' s'. bb_write sample_sha opened_bb [2] (int (length [2 :: byte])) (4096 * int 1) 0 opened_os
      = Some ((int (length [2 :: byte]), opened_bb\<lparr>cfs := st'\<rparr>), s') \<and>
    opened sample_sha sample_D st' 0 (sample_blocks @ chunks 1 [2]) s' \<and> session_ok st' s' \<and>
    f_size (files st' ! 0) = f_size (files (cfs opened_bb) ! 0) + of_nat (length [2 :: byte]) \<and>
    evolves sample_sha sample_D (storage (cfs opened_bb)) (f_path (files (cfs opened_bb) ! 0)) (f_fd (files (cfs opened_bb) ! 0)) opened_os s'"
  by (rule write_refines)
    (use opened_session sample_opened opened_get_file sample_fresh in simp_all)

text \<open>C9. Reading whole blocks at a block boundary overlays the buffer with the file's blocks,
  zeroes where it has none, returns the number of bytes asked for and changes nothing. If the pointer that
  the call of \<open>load_block\<close> in \<open>cfs.c\<close> lacks is not valid by chance, this is so only where the file has no blocks,
  and reading is undefined where it has one.\<close>

theorem read_refines:
  assumes "cfs_get_file (cfs bb) (s32 fh) = Some i" "opened sha D (cfs bb) i af s"
    and "length buf = 4096 * m" "4096 * (a + m) < 9223372036854775808" "4096 * m < 2147483648"
  shows "\<exists>s'. bb_read bb buf (int (length buf)) (4096 * int a) fh s =
      (if refs_valid s \<or> (\<forall>k < m. map_of af (of_nat (a + k)) = None)
       then Some ((int (length buf), pages af a buf, bb), s') else None) \<and>
    opened sha D (cfs bb) i af s' \<and> evolves sha D (storage (cfs bb)) (f_path (files (cfs bb) ! i)) (f_fd (files (cfs bb) ! i)) s s'"
  using read_aligned [OF assms] unfolding readable_def .

theorem read_refines_witness:
  "\<exists>s'. bb_read opened_bb (replicate 4096 7) (int (length (replicate 4096 (7 :: byte)))) (4096 * int 0) 0 opened_os =
      (if refs_valid opened_os \<or> (\<forall>k < 1. map_of sample_blocks (of_nat (0 + k)) = None)
       then Some ((int (length (replicate 4096 (7 :: byte))), pages sample_blocks 0 (replicate 4096 7), opened_bb), s') else None) \<and>
    opened sample_sha sample_D (cfs opened_bb) 0 sample_blocks s' \<and>
    evolves sample_sha sample_D (storage (cfs opened_bb)) (f_path (files (cfs opened_bb) ! 0)) (f_fd (files (cfs opened_bb) ! 0)) opened_os s'"
  by (rule read_refines [where m = 1])
    (use sample_opened opened_get_file in simp_all)

text \<open>Reading or writing through a handle that is not registered returns -1 and
  changes nothing.\<close>

lemma unregistered_handle:
  assumes "s32 fh \<notin> set (fds (cfs bb))"
  shows "bb_read bb buf n off fh s = Some ((-1, buf, bb), s) \<and> bb_write sha bb buf n off fh s = Some ((-1, bb), s)"
  using assms get_file_mem [of "cfs bb" "s32 fh"] by (simp_all add: bb_read_def bb_write_def)

subsection \<open>Accesses that do not keep to the blocks\<close>

text \<open>C27. A read of at most 4096 bytes at the start of a block copies the whole block, however few bytes
  are asked for, and returns 4096. When the pointer that the call of \<open>load_block\<close> lacks happens to be valid, the read is
  defined exactly if the block fits into the caller's buffer: a buffer of the size asked for is overrun when the block
  is longer.\<close>

theorem short_read_overruns:
  assumes "cfs_get_file (cfs bb) (s32 fh) = Some i" "opened sha D (cfs bb) i af s" "map_of af (of_nat a) = Some d"
    and "refs_valid s" "0 < n" "n \<le> 4096" "4096 * a + 4096 < 9223372036854775808"
  shows "\<exists>s'. bb_read bb buf (int n) (4096 * int a) fh s =
    (if length d \<le> length buf then Some ((4096, overlay buf d, bb), s') else None)"
  using assms by (rule bb_read_overrun)

theorem short_read_overruns_witness: "bb_read opened_bb [7] (int 1) (4096 * int 0) 0 opened_os = None"
  using short_read_overruns [where bb = opened_bb and fh = 0 and d = "[1, 3]" and af = sample_blocks and a = 0 and n = 1
      and buf = "[7]" and s = opened_os and i = 0 and sha = sample_sha and D = sample_D] sample_opened opened_get_file by simp

text \<open>C26. A read from offset \<open>r\<close> to the end of a block, if it is defined at all (the pointer that the
  call of \<open>load_block\<close> lacks happens to be valid), returns the number of bytes
  asked for, but of the \<open>length d - r\<close> bytes that the block has there it leaves the last \<open>r\<close> out.\<close>

theorem unaligned_read_loses:
  assumes "cfs_get_file (cfs bb) (s32 fh) = Some i" "opened sha D (cfs bb) i af s" "map_of af (of_nat a) = Some d"
    and "r < 4096" "length buf = 4096 - r" "4096 * a + 4096 < 9223372036854775808"
  shows "\<exists>s'. opened sha D (cfs bb) i af s' \<and> bb_read bb buf (int (length buf)) (4096 * int a + int r) fh s =
    (if refs_valid s then Some ((int (length buf), overlay buf (take (length d - 2 * r) (drop r d)), bb), s') else None)"
  using assms by (rule bb_read_inside)

theorem unaligned_read_loses_witness:
  "\<exists>s'. opened sample_sha sample_D (cfs opened_bb) 0 sample_blocks s' \<and>
    bb_read opened_bb (replicate 4095 7) (int (length (replicate 4095 (7 :: byte)))) (4096 * int 0 + int 1) 0 opened_os =
    (if refs_valid opened_os then Some ((int (length (replicate 4095 (7 :: byte))),
      overlay (replicate 4095 7) (take (length [1 :: byte, 3] - 2 * 1) (drop 1 [1, 3])), opened_bb), s') else None)"
  by (rule unaligned_read_loses)
    (use sample_opened opened_get_file in simp_all)

text \<open>C25. A write of at most a block that starts inside a block the file does not have
  and goes on into the next one returns its full length, but stores only what fits in the first.\<close>

theorem unaligned_write_loses:
  assumes "cfs_get_file (cfs bb) (s32 fh) = Some i" "opened sha D (cfs bb) i af s" "51 + 28 * length af < 2147483648"
    and "of_nat a \<notin> fst ` set af" "0 < r" "r < 4096" "4096 - r \<le> length buf" "length buf \<le> 4096"
    and "replicate r 0 @ take (4096 - r) buf \<in> D" "4096 * a + 8192 < 9223372036854775808"
  shows "\<exists>st' s'. bb_write sha bb buf (int (length buf)) (4096 * int a + int r) fh s =
      Some ((int (length buf), bb\<lparr>cfs := st'\<rparr>), s') \<and>
    opened sha D st' i (af @ [(of_nat a, replicate r 0 @ take (4096 - r) buf)]) s'"
  using assms by (rule bb_write_inside)

theorem unaligned_write_loses_witness:
  "\<exists>st' s'. bb_write sample_sha opened_bb [2, 5] (int (length [2 :: byte, 5])) (4096 * int 1 + int 4095) 0 opened_os =
      Some ((int (length [2 :: byte, 5]), opened_bb\<lparr>cfs := st'\<rparr>), s') \<and>
    opened sample_sha sample_D st' 0 (sample_blocks @ [(of_nat 1, replicate 4095 0 @ take (4096 - 4095) [2, 5])]) s'"
  by (rule unaligned_write_loses)
    (use sample_opened opened_get_file in \<open>simp_all add: sample_D_def sample_tail_def\<close>)

text \<open>C24. A write inside a block that the file already has returns its full length, but the file
  keeps its old data; the size in the header counts the new block instead of the old one, and is eight bytes too
  small besides. This is so where the negative offset of \<open>cfs.c:308\<close> reaches \<open>s_lseek\<close>, which is declared with an \<open>int\<close>,
  with its sign (\<open>sext\<close>), and, when the write does not start the block, where the pointer that the call of \<open>load_block\<close>
  lacks happens to be valid.\<close>

theorem rewriting_is_lost:
  assumes "cfs_get_file (cfs bb) (s32 fh) = Some i" "opened sha D (cfs bb) i af s" "sext s" "map_of af (of_nat a) = Some d"
    and "buf \<noteq> []" "r + length buf \<le> 4096" "take r (d @ replicate (4096 - length d) 0) @ buf \<in> D"
    and "4096 * a + 4096 < 9223372036854775808" "r = 0 \<or> refs_valid s"
  shows "\<exists>st' s'. bb_write sha bb buf (int (length buf)) (4096 * int a + int r) fh s =
      Some ((int (length buf), bb\<lparr>cfs := st'\<rparr>), s') \<and> opened sha D st' i af s' \<and>
    f_size (files st' ! i) = f_size (files (cfs bb) ! i) - of_nat (8 + length d) + of_nat (r + length buf)"
  using assms by (rule bb_write_over)

theorem rewriting_is_lost_witness:
  "\<exists>st' s'. bb_write sample_sha opened_bb [2] (int (length [2 :: byte])) (4096 * int 0 + int 0) 0 opened_os =
      Some ((int (length [2 :: byte]), opened_bb\<lparr>cfs := st'\<rparr>), s') \<and> opened sample_sha sample_D st' 0 sample_blocks s' \<and>
    f_size (files st' ! 0) = f_size (files (cfs opened_bb) ! 0) - of_nat (8 + length [1 :: byte, 3]) + of_nat (0 + length [2 :: byte])"
  by (rule rewriting_is_lost)
    (use sample_opened opened_get_file in \<open>simp_all add: sample_D_def\<close>)

subsection \<open>Attributes and directories\<close>

text \<open>C37. The attributes of a CFS file have the size and the number of blocks of its header;
  the descriptor opened to read them stays open.\<close>

theorem getattr_of_file:
  assumes "bb_fullpath bb path = Some p" "ideal s" "names s p = Some n"
    and "inodes s n = Some (Reg (file_image sz k tbl))" "first_free s \<noteq> None" "lstat p buf s = ((0, buf1), s)"
  shows "\<exists>s'. bb_getattr lstat bb path buf s = Some ((0, buf1\<lparr>st_size := sint sz, st_blksize := 4096, st_blocks := sint k\<rparr>), s') \<and>
    Suc (free_fds s') = free_fds s"
proof -
  obtain fd where fd: "first_free s = Some fd" using assms(5) by blast
  show ?thesis
    using assms(1,2,6) file_stat_closed [OF assms(2-4) fd, of "uninit_file s"] free_fds_open [OF fd]
    by (simp add: bb_getattr_def ideal_simps)
qed

theorem getattr_of_file_witness:
  "\<exists>s'. bb_getattr (\<lambda>p b s. ((0, b), s)) sample_bb ''/f'' \<lparr>st_size = 79, st_blksize = 512, st_blocks = 8\<rparr> sample_os =
      Some ((0, \<lparr>st_size = 79, st_blksize = 512, st_blocks = 8\<rparr>\<lparr>st_size := sint (2 :: w64), st_blksize := 4096,
        st_blocks := sint (1 :: w64)\<rparr>), s') \<and> Suc (free_fds s') = free_fds sample_os"
  by (rule getattr_of_file [OF sample_fullpath(1), where n = 2 and tbl = sample_table]) simp_all

text \<open>C38. For a directory, which is no CFS file, the size and the number of blocks that
  \<open>lstat\<close> gave are replaced with what an uninitialised variable holds; a descriptor stays open.\<close>

theorem getattr_of_directory:
  assumes "bb_fullpath bb path = Some p" "ideal s" "names s p = Some n" "inodes s n = Some Dir"
    and "first_free s \<noteq> None" "lstat p buf s = ((0, buf1), s)"
  shows "\<exists>s'. bb_getattr lstat bb path buf s = Some ((0, buf1\<lparr>st_size := sint (dec64 (uninit ''size'' 8 s)),
      st_blksize := 4096, st_blocks := sint (dec64 (uninit ''total_blocks'' 8 s))\<rparr>), s') \<and>
    Suc (free_fds s') = free_fds s"
proof -
  obtain fd where fd: "first_free s = Some fd" using assms(5) by blast
  obtain s' where "cfs_file_stat p (uninit_file s) s = ((-1, uninit_file s), s')" "Suc (free_fds s') = free_fds s"
    using dir_stat [OF assms(2-4) fd] by blast
  then show ?thesis
    using assms(1,2,6) by (simp add: bb_getattr_def ideal_simps uninit_file_def)
qed

theorem getattr_of_directory_witness:
  "\<exists>s'. bb_getattr (\<lambda>p b s. ((0, b), s)) sample_bb ''/.BLOCKS'' \<lparr>st_size = 4096, st_blksize = 512, st_blocks = 8\<rparr> sample_os =
      Some ((0, \<lparr>st_size = 4096, st_blksize = 512, st_blocks = 8\<rparr>\<lparr>st_size := sint (dec64 (uninit ''size'' 8 sample_os)),
        st_blksize := 4096, st_blocks := sint (dec64 (uninit ''total_blocks'' 8 sample_os))\<rparr>), s') \<and>
    Suc (free_fds s') = free_fds sample_os"
  by (rule getattr_of_directory [where n = 1 and p = "''/r/.BLOCKS''"]) (simp_all add: bb_fullpath_def)

text \<open>C39. Reading a directory offers FUSE every name in order until it is full, but never
  the directory of the blocks.\<close>

theorem readdir_hides_blocks:
  assumes "lists readdir (s64 fh) s (n # ns) s'" "log_msg (snd (readdir (s64 fh) s)) = snd (readdir (s64 fh) s)"
  shows "\<exists>s''. bb_readdir readdir filler buf fh s = Some (fill filler buf (filter (\<lambda>n. n \<noteq> BLOCKS_DIRECTORY) (n # ns)), s'')"
  using assms by (rule readdir_fills)

definition sample_readdir :: "int \<Rightarrow> os \<Rightarrow> string option \<times> os" where
  "sample_readdir dp s = (if errno s = 0 then (Some ''.BLOCKS'', s\<lparr>errno := 1\<rparr>)
     else if errno s = 1 then (Some ''f'', s\<lparr>errno := 2\<rparr>) else (None, s))"

theorem readdir_hides_blocks_witness:
  "\<exists>s''. bb_readdir sample_readdir (\<lambda>b n. (0, b @ [n])) [] 7 sample_os =
    Some (fill (\<lambda>b n. (0, b @ [n])) [] (filter (\<lambda>n. n \<noteq> BLOCKS_DIRECTORY) [''.BLOCKS'', ''f'']), s'')"
proof (rule readdir_hides_blocks)
  show "lists sample_readdir (s64 7) sample_os [''.BLOCKS'', ''f''] (sample_os\<lparr>errno := 2\<rparr>)"
    by (intro lists_next [where ?s1.0 = "sample_os\<lparr>errno := 1\<rparr>"] lists_next [where ?s1.0 = "sample_os\<lparr>errno := 2\<rparr>"]
        lists_end) (simp_all add: sample_readdir_def)
  show "log_msg (snd (sample_readdir (s64 7) sample_os)) = snd (sample_readdir (s64 7) sample_os)"
    by (simp add: sample_readdir_def ideal_simps)
qed

text \<open>The directory of the blocks is not hidden from \<open>opendir\<close>: FUSE passes its path
  with a leading separator, and it is opened as any other.\<close>

lemma opendir_shows_blocks:
  assumes "bb_fullpath bb (DIR_SEPARATOR # BLOCKS_DIRECTORY) = Some p" "opendir p s = (dp, s1)" "dp \<noteq> 0"
  shows "bb_opendir opendir bb (DIR_SEPARATOR # BLOCKS_DIRECTORY) fh s = Some ((0, u64 dp), log_msg s1)"
  using assms by (simp add: bb_opendir_def)

subsection \<open>Results\<close>

text \<open>
  A handler reports a system call: its result is negative exactly when the call has failed, and otherwise the
  call's.
\<close>

definition reports :: "(os \<Rightarrow> (int \<times> os) option) \<Rightarrow> (os \<Rightarrow> int \<times> os) \<Rightarrow> os \<Rightarrow> bool" where
  "reports handler call s \<longleftrightarrow> (\<exists>r s'. handler s = Some (r, s') \<and> sane s' \<and>
     (r < 0 \<longleftrightarrow> fst (call s) < 0) \<and> (0 \<le> r \<longrightarrow> r = fst (call s)))"

lemma passes_report:
  assumes "sane s" "posix_call call" "handler s = (case call s of (r, s) \<Rightarrow> Some (log_syscall r 0 s))"
  shows "reports handler call s"
proof -
  obtain r s1 r' s2 where c: "call s = (r, s1)" "log_syscall r 0 s1 = (r', s2)" by fastforce
  then show ?thesis using assms(3) posix_call.reported [OF assms(2,1) c] by (auto simp: reports_def)
qed

lemmas passing = bb_mkdir_def bb_unlink_def bb_rmdir_def bb_symlink_def bb_rename_def bb_link_def bb_chmod_def bb_chown_def
  bb_truncate_def bb_utime_def bb_setxattr_def bb_removexattr_def pass_def pass2_def

text \<open>C40. The handlers that pass a path to a system call report what it does, whatever happens to
  the log: the result is negative exactly when the call has failed.\<close>

theorem handlers_report:
  assumes "sane s" "bb_fullpath bb path = Some p" "bb_fullpath bb newpath = Some q"
    and "\<forall>call \<in> set [rmdir p, symlink target q, rename p q, link p q, chmod p mode, chown p uid gid,
      trunc p sz, utime p ubuf, lsetxattr p name value n flags, lremovexattr p name]. posix_call call"
  shows "list_all (\<lambda>(handler, call). reports handler call s) [(bb_mkdir bb path mode, sys_mkdir p), (bb_unlink bb path, sys_unlink p),
      (bb_rmdir rmdir bb path, rmdir p), (bb_symlink symlink bb target newpath, symlink target q),
      (bb_rename rename bb path newpath, rename p q), (bb_link link bb path newpath, link p q),
      (bb_chmod chmod bb path mode, chmod p mode), (bb_chown chown bb path uid gid, chown p uid gid),
      (bb_truncate trunc bb path sz, trunc p sz), (bb_utime utime bb path ubuf, utime p ubuf),
      (bb_setxattr lsetxattr bb path name value n flags, lsetxattr p name value n flags),
      (bb_removexattr lremovexattr bb path name, lremovexattr p name)]"
proof -
  note calls = call_mkdir.posix_call_axioms call_unlink.posix_call_axioms
  show ?thesis
    using assms(4) by (simp, intro conjI; intro passes_report [OF assms(1)]) (simp_all add: passing assms(2,3) calls)
qed

lemma sample_calls: "posix_call (\<lambda>s. (- 1, s\<lparr>errno := 2\<rparr>))" "posix_call (\<lambda>s. (0, s))"
  by unfold_locales auto

theorem handlers_report_witness:
  "list_all (\<lambda>(handler, call). reports handler call sample_os) [(bb_mkdir sample_bb ''/f'' 0x1ED, sys_mkdir ''/r/f''), (bb_unlink sample_bb ''/f'', sys_unlink ''/r/f''),
      (bb_rmdir (\<lambda>p s. (- 1, s\<lparr>errno := 2\<rparr>)) sample_bb ''/f'', \<lambda>s. (- 1, s\<lparr>errno := 2\<rparr>)),
      (bb_symlink (\<lambda>p q s. (0, s)) sample_bb ''x'' ''/h'', \<lambda>s. (0, s)),
      (bb_rename (\<lambda>p q s. (0, s)) sample_bb ''/f'' ''/h'', \<lambda>s. (0, s)),
      (bb_link (\<lambda>p q s. (0, s)) sample_bb ''/f'' ''/h'', \<lambda>s. (0, s)),
      (bb_chmod (\<lambda>p m s. (0, s)) sample_bb ''/f'' 0x1ED, \<lambda>s. (0, s)),
      (bb_chown (\<lambda>p u g s. (0, s)) sample_bb ''/f'' 0 0, \<lambda>s. (0, s)),
      (bb_truncate (\<lambda>p n s. (0, s)) sample_bb ''/f'' 7, \<lambda>s. (0, s)),
      (bb_utime (\<lambda>p t s. (0, s)) sample_bb ''/f'' (0, 0), \<lambda>s. (0, s)),
      (bb_setxattr (\<lambda>p n v k g s. (0, s)) sample_bb ''/f'' ''user.x'' [1] 1 0, \<lambda>s. (0, s)),
      (bb_removexattr (\<lambda>p n s. (0, s)) sample_bb ''/f'' ''user.x'', \<lambda>s. (0, s))]"
  by (rule handlers_report [OF _ sample_fullpath(1,3)])
    (use sample_calls in \<open>simp_all add: sane_def sample_os_def\<close>)

end
