(* ===== verification/Reachable.thy ===== *)
theory Reachable
  imports Dispatch
begin

text \<open>
  The file system as a state machine: handlers in any order, with any arguments and any faults. The
  registry and the open descriptors agree in every state that can be reached, unless the mutex has been
  broken on the way.
\<close>

subsection \<open>The state machine\<close>

text \<open>
  A step is a request that is served, with any arguments and any behaviour of the calls that the handlers pass
  on, as long as these leave the descriptors of open files alone; a handle that is released is not \<open>-1\<close>, which is
  the mark of a free slot. The rest of the system may do, at any time, what leaves those descriptors what they
  are: it may add and remove files and change the contents of any file.
\<close>

type_synonym config = "bb_state \<times> os"

fun own_handle :: "request \<Rightarrow> bool" where
  "own_handle (Release fh) \<longleftrightarrow> s32 fh \<noteq> -1"
| "own_handle _ \<longleftrightarrow> True"

inductive step :: "(byte list \<Rightarrow> byte list) \<Rightarrow> config \<Rightarrow> config \<Rightarrow> bool" for sha where
  step_request: "bb_oper sha c rq bb s = Some ((reply, bb'), s') \<Longrightarrow> calls_keep c \<Longrightarrow> own_handle rq \<Longrightarrow>
    step sha (bb, s) (bb', s')"
| step_system: "kept s s' \<Longrightarrow> step sha (bb, s) (bb, s')"

text \<open>\<open>typed\<close>: a handle finds the entry of its own descriptor, which is open on a regular file.\<close>

definition typed :: "cfs_state \<Rightarrow> os \<Rightarrow> bool" where
  "typed st s \<longleftrightarrow> (\<forall>fd i. fd \<noteq> -1 \<and> cfs_get_file st fd = Some i \<longrightarrow> f_fd (files st ! i) = fd \<and> regular_fd s fd)"

lemma typed_undisturbed:
  assumes "typed st s" "undisturbed st s st' s'" "length (files st) = length (fds st)"
  shows "typed st' s'"
proof -
  have u: "fds st' = fds st" "map f_fd (files st') = map f_fd (files st)" "\<And>fd. regular_fd s fd \<Longrightarrow> regular_fd s' fd"
    using assms(2) by (auto simp: undisturbed_def same_registry_def same_fds_def)
  have "f_fd (files st' ! i) = f_fd (files st ! i)" if "i < length (files st)" for i
    using u(2) that by (metis length_map nth_map)
  then show ?thesis
    using assms(1,3) u(1,3) by (auto simp: typed_def cfs_get_file_def find_fd_Some)
qed

lemma typed_entered:
  assumes "typed st s" "entered st p fd st'" "regular_fd s' fd" "\<And>fd'. regular_fd s fd' \<Longrightarrow> regular_fd s' fd'"
  shows "typed st' s'"
  using assms unfolding typed_def entered_def by (metis option.inject)

lemma typed_left:
  assumes "typed st s" "left st fd st'" "\<And>fd'. fd' \<noteq> fd \<Longrightarrow> regular_fd s fd' \<Longrightarrow> regular_fd s' fd'"
  shows "typed st' s'"
  using assms unfolding typed_def left_def by (metis option.distinct(1))

text \<open>The registry and the descriptors agree, or the mutex is broken and no operation takes it again.\<close>

definition consistent :: "config \<Rightarrow> bool" where
  "consistent c = (case c of (bb, s) \<Rightarrow> sane s \<and> names_ok s \<and>
     (lock (cfs bb) = Broken \<or> session_ok (cfs bb) s \<and> typed (cfs bb) s))"

lemma install_regular:
  assumes "install n fl s = (fd, s')" "fd \<noteq> -1" "inodes s n = Some (Reg c)" "n < next_ino s" "o_rd fl" "o_wr fl"
  shows "regular_fd s' fd"
proof -
  obtain i where i: "free_slot (fdtab s) = Some i" "fd = int i"
    using assms(1,2) by (auto simp: install_def fail_def split: option.splits)
  then have "fd_range s (int i)" using free_slot_Some [OF i(1)] by (simp add: fd_range_def)
  then show ?thesis using assms i by (auto simp: install_def regular_fd_def live_def)
qed

lemma open_regular:
  assumes "sys_open p O_RDWR s = (fd, s')" "fd \<noteq> -1" "names_ok s"
  shows "regular_fd s' fd"
proof -
  obtain o1 s1 where d: "draw C_open s = (o1, s1)" by fastforce
  have s1: "names_ok s1" using assms(3) draw_drawn [OF d] by (simp add: drawn_def)
  obtain n where n: "names s1 p = Some n" "inodes s1 n \<noteq> Some Dir" "install n O_RDWR s1 = (fd, s')"
    using assms(1,2) d by (auto simp: sys_open_def fail_def split: outcome.splits option.splits if_splits)
  moreover obtain c where "inodes s1 n = Some (Reg c)" "n < next_ino s1"
    using n(1,2) s1 by (metis names_ok_def node.exhaust option.exhaust)
  ultimately show ?thesis using assms(2) install_regular by fastforce
qed

lemma sane_drawn: "drawn s s' \<Longrightarrow> sane s \<Longrightarrow> sane s'"
  by (fastforce simp: drawn_def sane_def)

lemma consistent_undisturbed:
  assumes "consistent (bb, s)" "undisturbed (cfs bb) s st' s'"
  shows "consistent (bb\<lparr>cfs := st'\<rparr>, s')"
proof -
  note u = assms(2) [unfolded undisturbed_def same_registry_def same_fds_def]
  have "length (files st') = length (files (cfs bb))" using u by (metis length_map)
  then have "session_ok st' s'" if "session_ok (cfs bb) s" "lock st' = lock (cfs bb)"
    using that u by (auto simp: session_ok_def registry_ok_def drawn_def)
  moreover have "typed st' s'" if "session_ok (cfs bb) s" "typed (cfs bb) s"
    using typed_undisturbed [OF that(2) assms(2)] that(1) by (simp add: session_ok_def registry_ok_def)
  moreover have "sane s'" "names_ok s'" using assms(1) u sane_drawn by (auto simp: consistent_def drawn_def)
  ultimately show ?thesis using assms(1) u by (auto simp: consistent_def)
qed

lemma typed_kept: "typed st s \<Longrightarrow> kept s s' \<Longrightarrow> typed st s'"
  by (simp add: typed_def kept_def)

lemma typed_open: "typed st s \<Longrightarrow> fd \<in> set (fds st) \<Longrightarrow> fd \<noteq> -1 \<Longrightarrow> regular_fd s fd"
  using get_file_mem [of st fd] by (auto simp: typed_def)

lemma consistent_kept:
  assumes "consistent (bb, s)" "kept s s'"
  shows "consistent (bb, s')"
proof -
  have "session_ok (cfs bb) s'" if "session_ok (cfs bb) s" "typed (cfs bb) s"
    using that typed_open [OF typed_kept [OF that(2) assms(2)]] regular_open assms(2)
    by (simp add: session_ok_def kept_def drawn_def)
  then show ?thesis
    using assms typed_kept sane_drawn by (auto simp: consistent_def kept_def drawn_def)
qed

lemma consistent_same: "consistent (bb, s) \<Longrightarrow> same_fds s s' \<Longrightarrow> consistent (bb, s')"
  by (rule consistent_kept [OF _ kept_same])

lemma consistent_open:
  assumes c: "consistent (bb, s)" and o: "bb_open bb path s = Some ((r, fh, bb'), s')"
  shows "consistent (bb', s')"
proof -
  have sn: "sane s" "names_ok s" using c by (simp_all add: consistent_def)
  obtain p where p: "bb_fullpath bb path = Some p" using o by (auto simp: bb_open_def split: Option.bind_splits)
  obtain r1 s1 where op: "sys_open p O_RDWR s = (r1, s1)" by fastforce
  obtain fd s2 where ls: "log_syscall r1 0 s1 = (fd, s2)" by fastforce
  note rep = call_open.reported [OF sn(1) op ls]
  show ?thesis
  proof (cases "fd < 0")
    case True
    then have "same_fds s s1" using rep sys_open_fds [OF op] by auto
    then have "same_fds s s2" using log_syscall_fds [OF ls] same_fds_trans by blast
    moreover obtain e s3 where "log_error s2 = (e, s3)" by fastforce
    ultimately show ?thesis
      using o p op ls True consistent_same [OF c] same_fds_trans [OF _ log_error_fds]
      by (auto simp: bb_open_def split: prod.splits)
  next
    case False
    then have fd: "fd = r1" "0 \<le> r1" using rep by auto
    have pl: "plus_fd s fd s1" using sys_open_fds [OF op] fd by auto
    obtain r2 st' s3 where rg: "cfs_register_file (cfs bb) p fd s2 = Some ((r2, st'), s3)"
      using o p op ls False by (auto simp: bb_open_def split: Option.bind_splits)
    then have res: "bb' = bb\<lparr>cfs := st'\<rparr>" "s' = s3"
      using o p op ls False by (auto simp: bb_open_def)
    have pl': "plus_fd s fd s3"
      using pl log_syscall_fds [OF ls] keepsD [OF register_file_fds rg] plus_fd_same by blast
    have "lock (cfs bb) = Unlocked" using rg by (auto simp: cfs_register_file_def mutex_lock_def split: if_splits)
    then have ok: "session_ok (cfs bb) s" "typed (cfs bb) s" using c by (simp_all add: consistent_def)
    have nin: "fd \<notin> set (fds (cfs bb))" "fd \<noteq> -1"
      using ok(1) pl fd by (auto simp: session_ok_def plus_fd_def)
    have "registry_ok (cfs bb)" using ok(1) by (simp add: session_ok_def)
    then have k: "registry_ok st'" "entered (cfs bb) p fd st'"
      using register_keeps [OF _ nin session_bound [OF ok(1)] rg] by simp_all
    have "session_ok st' s3"
      using pl' by (intro session_ok_entered [OF ok(1) k]) (auto simp: plus_fd_def drawn_def)
    moreover have "regular_fd s3 fd"
      using open_regular [OF op _ sn(2)] fd log_syscall_fds [OF ls] keepsD [OF register_file_fds rg]
      by (simp add: same_fds_def)
    then have "typed st' s3" using typed_entered [OF ok(2) k(2)] pl' by (simp add: plus_fd_def)
    moreover have "sane s3" "names_ok s3" using sane_drawn [OF _ sn(1)] sn(2) pl' by (auto simp: plus_fd_def drawn_def)
    ultimately show ?thesis using res by (simp add: consistent_def)
  qed
qed

lemma consistent_release:
  assumes c: "consistent (bb, s)" and o: "bb_release bb fh s = Some ((r, bb'), s')" "s32 fh \<noteq> -1"
  shows "consistent (bb', s')"
proof -
  let ?fd = "s32 fh"
  obtain r0 st' where rl: "cfs_release_file (cfs bb) ?fd = Some (r0, st')"
    using o(1) by (auto simp: bb_release_def split: Option.bind_splits)
  obtain r1 s1 r2 s2 where cl: "sys_close ?fd s = (r1, s1)" "log_syscall r1 0 s1 = (r2, s2)" by fastforce
  have res: "bb' = bb\<lparr>cfs := st'\<rparr>" "s' = s2" using o(1) rl cl by (auto simp: bb_release_def)
  have "lock (cfs bb) = Unlocked" using rl by (auto simp: cfs_release_file_def mutex_lock_def split: if_splits)
  then have ok: "session_ok (cfs bb) s" "typed (cfs bb) s" using c by (simp_all add: consistent_def)
  have r: "registry_ok (cfs bb)" using ok(1) by (simp add: session_ok_def)
  have d: "drawn s s1 \<and> (\<forall>fd'. fd' \<noteq> ?fd \<longrightarrow> get_fd s1 fd' = get_fd s fd')"
    using cl(1) draw_drawn [of C_close s] draw_fds [of C_close s]
    by (auto simp: sys_close_def fail_def get_fd_closed split: option.splits prod.splits outcome.splits)
  note l = log_syscall_fds [OF cl(2), unfolded same_fds_def]
  have ds: "drawn s s2" using d l drawn_trans by blast
  have k: "get_fd s2 fd' \<noteq> None" if "fd' \<noteq> ?fd" "get_fd s fd' \<noteq> None" for fd'
    using d l that by simp
  have kr: "regular_fd s2 fd'" if "fd' \<noteq> ?fd" "regular_fd s fd'" for fd'
    using l sys_close_others(3) [OF cl(1) that(2,1)] by simp
  have ne: "?fd \<noteq> -1" using o(2) .
  have "session_ok st' s2 \<and> typed st' s2"
  proof (cases "?fd \<in> set (fds (cfs bb))")
    case True
    then obtain st2 where "cfs_release_file (cfs bb) ?fd = Some (0, st2)" "registry_ok st2" "left (cfs bb) ?fd st2"
      using release_keeps [OF r True ne] by metis
    moreover from this have "st2 = st'" using rl by simp
    ultimately show ?thesis
      using ds k typed_left [OF ok(2)] kr by (intro conjI session_ok_left [OF ok(1)]) (auto simp: drawn_def)
  next
    case False
    then have "st' = cfs bb" using release_missing [OF r] rl by simp
    moreover have "\<forall>fd \<in> set (fds (cfs bb)). fd \<noteq> -1 \<longrightarrow> get_fd s2 fd \<noteq> None"
      using ok(1) k False unfolding session_ok_def by metis
    moreover have "typed (cfs bb) s2"
      using ok(2) kr False get_file_mem [of "cfs bb"] unfolding typed_def by (metis option.distinct(1))
    ultimately show ?thesis using ok(1) ds by (simp add: session_ok_def drawn_def)
  qed
  then show ?thesis using res c sane_drawn [OF ds] ds by (simp add: consistent_def drawn_def)
qed

lemma consistent_read:
  assumes "consistent (bb, s)" "bb_read bb buf sz off fh s = Some ((r, buf', bb'), s')"
  shows "consistent (bb', s')"
proof -
  obtain st' where "bb' = bb\<lparr>cfs := st'\<rparr>" "undisturbed (cfs bb) s st' s'"
    using read_loop_undisturbed [of _ sz off off 0 buf "cfs bb" s] that [of "cfs bb"] assms(2)
    by (auto simp: bb_read_def split: option.splits Option.bind_splits)
  then show ?thesis using consistent_undisturbed [OF assms(1)] by simp
qed

lemma consistent_write:
  assumes "consistent (bb, s)" "bb_write sha bb buf sz off fh s = Some ((r, bb'), s')"
  shows "consistent (bb', s')"
proof -
  obtain st' where "bb' = bb\<lparr>cfs := st'\<rparr>" "undisturbed (cfs bb) s st' s'"
    using write_loop_undisturbed [of sha _ buf sz off off 0 "cfs bb" s] that [of "cfs bb"] assms(2)
    by (auto simp: bb_write_def split: option.splits Option.bind_splits)
  then show ?thesis using consistent_undisturbed [OF assms(1)] by simp
qed

lemma consistent_step:
  assumes "consistent c" "step sha c c'"
  shows "consistent c'"
  using assms(2,1)
proof cases
  case (step_request calls rq bb s reply bb' s')
  then have c: "consistent (bb, s)" using assms(1) by simp
  then have "sane s" by (simp add: consistent_def)
  then have k: "bb' = bb \<and> kept s s'" if "aside rq" using aside_kept [OF step_request(4) _ that step_request(3)] by simp
  have "consistent (bb', s')"
  proof (cases "aside rq")
    case True
    then show ?thesis using k consistent_kept [OF c] by simp
  next
    case False
    then show ?thesis using step_request(3,5)
    proof (cases rq)
      case (Open path)
      then show ?thesis using step_request(3) consistent_open [OF c, of path] by auto
    next
      case (Read buf sz offset fh)
      then show ?thesis using step_request(3) consistent_read [OF c, of buf sz offset fh] by auto
    next
      case (Write buf sz offset fh)
      then show ?thesis using step_request(3) consistent_write [OF c, of sha buf sz offset fh] by auto
    next
      case (Release fh)
      then show ?thesis using step_request(3,5) consistent_release [OF c, of fh] by auto
    qed (use False in simp_all)
  qed
  then show ?thesis using step_request(2) by simp
next
  case (step_system s s' bb)
  then show ?thesis using assms(1) consistent_kept by simp
qed

lemma consistent_reachable: "(step sha)\<^sup>*\<^sup>* c c' \<Longrightarrow> consistent c \<Longrightarrow> consistent c'"
  by (induction rule: rtranclp_induct) (auto dest: consistent_step)

end
