(* ===== verification/Progress.thy ===== *)
theory Progress
  imports Steady
begin

text \<open>
  Loops that end whatever the system calls do: each turn uses up bytes of a file or faults to come, of which
  there are finitely many.
\<close>

subsection \<open>Reading a regular file\<close>

text \<open>A read returns bytes, or uses up a fault.\<close>

lemma sys_read_regular:
  assumes "live s fd f c" "of_rd f" "sys_read fd n s = ((r, bs), s1)"
  shows "live s1 fd (f\<lparr>of_pos := of_pos f + length bs\<rparr>) c" "length bs \<le> length c - of_pos f"
    "length (sched s1 C_read) \<le> length (sched s C_read)"
    "r = -1 \<Longrightarrow> bs = [] \<and> length (sched s1 C_read) < length (sched s C_read)"
    "r \<noteq> -1 \<Longrightarrow> r = int (length bs) \<and> length bs \<le> n"
proof -
  obtain o1 s0 where d: "draw C_read s = (o1, s0)" by fastforce
  note dc = draw_cases [OF d]
  have l: "get_fd s0 fd = Some f" "inodes s0 (of_ino f) = Some (Reg c)"
    using assms(1) by (auto simp: live_def dc)
  have le: "length (sched s0 C_read) \<le> length (sched s C_read)"
    using d by (auto simp: draw_def split: list.splits)
  have lt: "length (sched s0 C_read) < length (sched s C_read)" if "o1 = Fail e" for e
    using draw_length [OF d] that by simp
  have r: "fd_range s0 fd" using l(1) by (rule get_fd_range)
  show "live s1 fd (f\<lparr>of_pos := of_pos f + length bs\<rparr>) c" "length bs \<le> length c - of_pos f"
    "length (sched s1 C_read) \<le> length (sched s C_read)"
    "r = -1 \<Longrightarrow> bs = [] \<and> length (sched s1 C_read) < length (sched s C_read)"
    "r \<noteq> -1 \<Longrightarrow> r = int (length bs) \<and> length bs \<le> n"
    using assms(2,3) d l r le lt
    by (auto simp: sys_read_def limit_def live_def Let_def split: outcome.splits)
qed

lemma s_read_loop_regular:
  assumes "live s fd f c" "of_rd f" "s_read_loop fd n s = ((res, bs), s')"
  shows "live s' fd (f\<lparr>of_pos := of_pos f + length bs\<rparr>) c \<and> length bs \<le> length c - of_pos f \<and>
    length (sched s' C_read) \<le> length (sched s C_read) \<and> length bs \<le> n \<and>
    (res = None \<longrightarrow> length (sched s' C_read) < length (sched s C_read)) \<and>
    (\<forall>k. res = Some k \<longrightarrow> k = n - length bs)"
  using assms
proof (induction fd n s arbitrary: f res bs s' rule: s_read_loop.induct)
  case (1 fd n s)
  obtain r bs1 s1 where sr: "sys_read fd n s = ((r, bs1), s1)" by (metis surj_pair)
  note r = sys_read_regular [OF "1.prems"(1,2) sr]
  let ?f = "f\<lparr>of_pos := of_pos f + length bs1\<rparr>"
  show ?case
  proof (cases "r = -1")
    case True
    then have l1: "live s1 fd f c" "bs1 = []" using r(1,4) by simp_all
    show ?thesis
    proof (cases "errno s1 = EINTR \<and> 0 < n")
      case T: True
      then have "s_read_loop fd n s1 = ((res, bs), s')"
        using True "1.prems"(3) sr by (simp add: s_read_loop.simps [of fd n s])
      then show ?thesis
        using "1.IH"(1) [OF sr [symmetric] refl True _ _ l1(1) "1.prems"(2)] T r(4) [OF True] by fastforce
    next
      case False
      then show ?thesis
        using True "1.prems" sr l1 r(4) [OF True]
        by (auto simp: s_read_loop.simps [of fd n s] split: if_splits)
    qed
  next
    case False
    note nb = r(5) [OF False]
    show ?thesis
    proof (cases "0 < n - length bs1 \<and> r \<noteq> 0")
      case T: True
      obtain res2 bs2 s2 where rc: "s_read_loop fd (n - length bs1) s1 = ((res2, bs2), s2)" by (metis surj_pair)
      have eq: "res = res2" "bs = bs1 @ bs2" "s' = s2"
        using False T nb sr rc "1.prems"(3) by (auto simp: s_read_loop.simps [of fd n s])
      have m: "n - nat r = n - length bs1" using nb by simp
      have "0 < n - nat r \<and> r \<noteq> 0" using T m by simp
      note IH = "1.IH"(2) [OF sr [symmetric] refl False refl this r(1) _ rc [folded m]]
      show ?thesis using IH "1.prems"(2) r(2,3) nb m unfolding eq by (cases res2) (simp_all add: add.assoc, linarith+)
    next
      case F: False
      then have "res = Some (n - length bs1)" "bs = bs1" "s' = s1"
        using False nb sr "1.prems"(3) by (auto simp: s_read_loop.simps [of fd n s] split: if_splits)
      then show ?thesis using r(1-3) nb by simp
    qed
  qed
qed

lemma s_read_regular:
  assumes "live s fd f c" "of_rd f" "s_read fd n s = ((r, bs), s')"
  shows "live s' fd (f\<lparr>of_pos := of_pos f + length bs\<rparr>) c"
    "length bs \<le> length c - of_pos f"
    "length (sched s' C_read) \<le> length (sched s C_read)"
    "r \<noteq> 0 \<Longrightarrow> bs \<noteq> [] \<or> length (sched s' C_read) < length (sched s C_read)"
proof -
  obtain res s1 where l: "s_read_loop fd n s = ((res, bs), s1)" "s' = s1" "r = (case res of None \<Rightarrow> -1 | Some m \<Rightarrow> int n - int m)"
    using assms(3) by (auto simp: s_read_def split: prod.splits)
  note k = s_read_loop_regular [OF assms(1,2) l(1)]
  show "live s' fd (f\<lparr>of_pos := of_pos f + length bs\<rparr>) c" "length bs \<le> length c - of_pos f"
    "length (sched s' C_read) \<le> length (sched s C_read)"
    using k l(2) by simp_all
  show "r \<noteq> 0 \<Longrightarrow> bs \<noteq> [] \<or> length (sched s' C_read) < length (sched s C_read)"
    using k l(2,3) by (cases res) auto
qed

text \<open>A transfer never reports more than was asked for.\<close>

lemma s_read_bound: "s_read fd n s = ((r, bs), s') \<Longrightarrow> r \<le> int n \<and> length bs \<le> n"
proof -
  have "length bs \<le> n" if "s_read_loop fd n s = ((res, bs), s')" for n res bs s'
    using that
  proof (induction fd n s arbitrary: res bs s' rule: s_read_loop.induct)
    case (1 fd n s)
    obtain r bs1 s1 where sr: "sys_read fd n s = ((r, bs1), s1)" by (metis surj_pair)
    have bs1: "r = -1 \<Longrightarrow> bs1 = []"
      using sr by (auto simp: sys_read_def Let_def split: prod.splits outcome.splits option.splits if_splits node.splits)
    show ?case
    proof (cases "r = -1")
      case True
      then show ?thesis
        using "1.prems" "1.IH"(1) [OF sr [symmetric] refl True] sr bs1
        by (cases "errno s1 = EINTR \<and> 0 < n") (auto simp: s_read_loop.simps [of fd n s] split: if_splits)
    next
      case False
      note nb = sys_read_count [OF sr False]
      obtain res2 bs2 s2 where rc: "s_read_loop fd (n - nat r) s1 = ((res2, bs2), s2)" by (metis surj_pair)
      have "0 < n - nat r \<and> r \<noteq> 0 \<Longrightarrow> length bs2 \<le> n - nat r"
        by (rule "1.IH"(2) [OF sr [symmetric] refl False refl _ rc])
      then show ?thesis
        using "1.prems" False sr rc nb
        by (cases "0 < n - nat r \<and> r \<noteq> 0") (auto simp: s_read_loop.simps [of fd n s] Let_def)
    qed
  qed
  then show "s_read fd n s = ((r, bs), s') \<Longrightarrow> r \<le> int n \<and> length bs \<le> n"
    by (auto simp: s_read_def split: prod.splits option.splits)
qed

subsection \<open>Seeking\<close>

text \<open>A seek to a fixed offset is repeated only when a fault interrupts it.\<close>

lemma sys_lseek_set:
  "sys_lseek fd off SEEK_SET s = (r, s1) \<Longrightarrow> r \<noteq> off \<Longrightarrow> errno s1 = EINTR \<Longrightarrow>
   length (sched s1 C_lseek) < length (sched s C_lseek)"
  by (auto simp: sys_lseek_def fail_def split: prod.splits outcome.splits option.splits if_splits dest: draw_length)

lemma s_lseek_set_returns: "s32 off \<noteq> -1 \<Longrightarrow> s_lseek fd off SEEK_SET s \<noteq> None"
proof (induction "length (sched s C_lseek)" arbitrary: s rule: less_induct)
  case less
  obtain r s1 where sl: "sys_lseek fd off SEEK_SET s = (r, s1)" by fastforce
  show ?case
  proof (cases "s32 r = -1 \<and> errno s1 = EINTR")
    case True
    then have "length (sched s1 C_lseek) < length (sched s C_lseek)"
      using sys_lseek_set [OF sl] less.prems by fastforce
    then have "s_lseek fd off SEEK_SET s1 \<noteq> None" using less by blast
    then show ?thesis using True sl by (subst s_lseek.simps) simp
  qed (use sl in \<open>subst s_lseek.simps, auto simp: Let_def\<close>)
qed

lemma s_lseek_decl_set_returns: "0 \<le> off \<Longrightarrow> off < 2147483648 \<Longrightarrow> s_lseek_decl fd off SEEK_SET s \<noteq> None"
  unfolding s_lseek_decl_def by (rule s_lseek_set_returns) simp

text \<open>
  A seek forward is repeated besides when the new offset is \<open>-1\<close> as an \<open>int\<close> and an old \<open>errno\<close> says
  that a call was interrupted; the next one is not.
\<close>

lemma s32_forward: "s32 (x + 20) = -1 \<Longrightarrow> s32 x \<noteq> -1"
proof -
  have s: "s32 y = (y + 2147483648) mod 4294967296 - 2147483648" for y
    by (simp add: s32_def signed_take_bit_eq_take_bit_shift take_bit_eq_mod)
  have "(x + 2147483648) mod 4294967296 = ((x + 20 + 2147483648) mod 4294967296 - 20) mod 4294967296"
    by (simp add: mod_diff_left_eq algebra_simps)
  then show "s32 (x + 20) = -1 \<Longrightarrow> s32 x \<noteq> -1" unfolding s by simp
qed

lemma sys_lseek_forward:
  assumes "live s fd f c" "sys_lseek fd 20 SEEK_CUR s = (r, s1)"
  shows "r = -1 \<and> live s1 fd f c \<and> length (sched s1 C_lseek) < length (sched s C_lseek) \<and> sched s1 C_read = sched s C_read \<or>
    r = int (of_pos f) + 20 \<and> live s1 fd (f\<lparr>of_pos := of_pos f + 20\<rparr>) c \<and>
    length (sched s1 C_lseek) \<le> length (sched s C_lseek) \<and> sched s1 C_read = sched s C_read"
proof -
  obtain o1 s0 where d: "draw C_lseek s = (o1, s0)" by fastforce
  note dc = draw_cases [OF d]
  have l: "get_fd s0 fd = Some f" "inodes s0 (of_ino f) = Some (Reg c)"
    using assms(1) by (auto simp: live_def dc)
  have sc: "sched s0 C_read = sched s C_read" "length (sched s0 C_lseek) \<le> length (sched s C_lseek)"
    using d by (auto simp: draw_def split: list.splits)
  have lt: "length (sched s0 C_lseek) < length (sched s C_lseek)" if "o1 = Fail e" for e
    using draw_length [OF d] that by simp
  have n: "nat (int (of_pos f) + 20) = of_pos f + 20" by simp
  show ?thesis
    using assms(2) d l sc lt get_fd_range [OF l(1)] n
    by (auto simp: sys_lseek_def fail_def live_def Let_def split: outcome.splits)
qed

lemma s_lseek_forward:
  assumes "live s fd f c"
  shows "\<exists>r s' p. s_lseek fd 20 SEEK_CUR s = Some (r, s') \<and> live s' fd (f\<lparr>of_pos := of_pos f + p\<rparr>) c \<and>
    sched s' C_read = sched s C_read"
  using assms
proof (induction "2 * length (sched s C_lseek) + (if s32 (int (of_pos f)) = -1 then 0 else 1)"
    arbitrary: s f rule: less_induct)
  case less
  obtain r s1 where sl: "sys_lseek fd 20 SEEK_CUR s = (r, s1)" by fastforce
  let ?g = "f\<lparr>of_pos := of_pos f + 20\<rparr>"
  consider (failed) "r = -1" "live s1 fd f c" "length (sched s1 C_lseek) < length (sched s C_lseek)"
      "sched s1 C_read = sched s C_read"
    | (moved) "r = int (of_pos f) + 20" "live s1 fd ?g c" "length (sched s1 C_lseek) \<le> length (sched s C_lseek)"
      "sched s1 C_read = sched s C_read"
    using sys_lseek_forward [OF less.prems sl] by blast
  then show ?case
  proof cases
    case failed
    have "2 * length (sched s1 C_lseek) + (if s32 (int (of_pos f)) = -1 then 0 else 1) <
        2 * length (sched s C_lseek) + (if s32 (int (of_pos f)) = -1 then 0 else 1 :: nat)"
      using failed(3) by simp
    from less.hyps [OF this failed(2)] show ?thesis
      using failed sl less.prems
      by (cases "errno s1 = EINTR") (subst s_lseek.simps, auto intro: exI [of _ 0])+
  next
    case moved
    show ?thesis
    proof (cases "s32 r = -1 \<and> errno s1 = EINTR")
      case True
      then have "s32 (int (of_pos f)) \<noteq> -1" "s32 (int (of_pos ?g)) = -1"
        using s32_forward [of "int (of_pos f)"] moved(1) by (simp_all add: add.commute)
      then have "2 * length (sched s1 C_lseek) + (if s32 (int (of_pos ?g)) = -1 then 0 else 1) <
          2 * length (sched s C_lseek) + (if s32 (int (of_pos f)) = -1 then 0 else 1 :: nat)"
        using moved(3) by simp
      from less.hyps [OF this moved(2)] obtain r' s' p where "s_lseek fd 20 SEEK_CUR s1 = Some (r', s')"
        "live s' fd (f\<lparr>of_pos := of_pos f + (20 + p)\<rparr>) c" "sched s' C_read = sched s1 C_read"
        by (auto simp: add.assoc)
      then show ?thesis using True sl moved(4) by (subst s_lseek.simps) auto
    next
      case False
      then have "s_lseek fd 20 SEEK_CUR s = Some (s32 r, s1)"
        using sl by (subst s_lseek.simps) (auto simp: Let_def)
      then show ?thesis using moved(2,4) by (intro exI [of _ "s32 r"] exI [of _ s1] exI [of _ 20]) simp
    qed
  qed
qed

lemma s_lseek_decl_forward:
  "live s fd f c \<Longrightarrow> \<exists>r s' p. s_lseek_decl fd 20 SEEK_CUR s = Some (r, s') \<and>
    live s' fd (f\<lparr>of_pos := of_pos f + p\<rparr>) c \<and> sched s' C_read = sched s C_read"
  using s_lseek_forward by (simp add: s_lseek_decl_def)

subsection \<open>Searching a table and loading a block\<close>

lemma find_pair_returns:
  assumes "live s fd f c" "of_rd f"
  shows "find_pair fd ix buf s \<noteq> None"
  using assms
proof (induction "(length c - of_pos f) + length (sched s C_read)" arbitrary: s f buf rule: less_induct)
  case less
  obtain n bs s1 where rd: "s_read fd 8 s = ((n, bs), s1)" by (metis prod.exhaust)
  note r = s_read_regular [OF less.prems rd]
  obtain r2 s2 p where sk: "s_lseek_decl fd 20 SEEK_CUR s1 = Some (r2, s2)"
    "live s2 fd (f\<lparr>of_pos := of_pos f + length bs + p\<rparr>) c" "sched s2 C_read = sched s1 C_read"
    using s_lseek_decl_forward [OF r(1)] by (auto simp: add.assoc)
  have "find_pair fd ix (overlay buf bs) s2 \<noteq> None" if "n \<noteq> 0"
  proof (rule less.hyps [OF _ sk(2)])
    show "(length c - of_pos (f\<lparr>of_pos := of_pos f + length bs + p\<rparr>)) + length (sched s2 C_read) <
        (length c - of_pos f) + length (sched s C_read)"
    proof (cases "bs = []")
      case False
      then have "0 < length bs" by simp
      then show ?thesis using r(2,3) sk(3) by (simp del: length_greater_0_conv)
    qed (use r(3,4) sk(3) that in \<open>simp\<close>)
  qed (use less.prems in simp)
  then show ?case using rd sk(1) by (subst find_pair.simps) (simp add: Let_def)
qed

lemma find_index_returns:
  assumes "regular_fd s (f_fd file)"
  shows "cfs_file_find_index file ix s \<noteq> None"
proof -
  obtain r s1 where sk: "s_lseek_decl (f_fd file) 23 SEEK_SET s = Some (r, s1)"
    using s_lseek_decl_set_returns [of 23 "f_fd file" s] by auto
  then have "regular_fd s1 (f_fd file)" using assms s_lseek_decl_fds by (simp add: same_fds_def)
  then have "find_pair (f_fd file) ix buf s1 \<noteq> None" for buf
    using find_pair_returns by (auto simp: regular_fd_def)
  then show ?thesis using sk by (auto simp: cfs_file_find_index_def)
qed

text \<open>\<open>yields Q r\<close>: the operation returns, with a result of which \<open>Q\<close> holds.\<close>

definition yields :: "('a \<Rightarrow> bool) \<Rightarrow> 'a option \<Rightarrow> bool" where
  "yields Q r \<longleftrightarrow> (\<exists>x. r = Some x \<and> Q x)"

lemma yields_Some: "Q x \<Longrightarrow> yields Q (Some x)"
  and yields_if: "(b \<Longrightarrow> yields Q r1) \<Longrightarrow> (\<not> b \<Longrightarrow> yields Q r2) \<Longrightarrow> yields Q (if b then r1 else r2)"
  and yields_bind: "yields P m \<Longrightarrow> (\<And>z. P z \<Longrightarrow> yields Q (g z)) \<Longrightarrow> yields Q (Option.bind m g)"
  and yields_mono: "yields P m \<Longrightarrow> (\<And>x. P x \<Longrightarrow> Q x) \<Longrightarrow> yields Q m"
  by (auto simp: yields_def)

lemma yields_case: "(\<And>a b. q = (a, b) \<Longrightarrow> yields Q (h a b)) \<Longrightarrow> yields Q (case q of (a, b) \<Rightarrow> h a b)"
  by (cases q) simp

lemma yields_case_app: "(\<And>a b. q = (a, b) \<Longrightarrow> yields Q (h a b c)) \<Longrightarrow> yields Q ((case q of (a, b) \<Rightarrow> h a b) c)"
  by (cases q) simp

lemma yields_seek:
  "0 \<le> off \<Longrightarrow> off < 2147483648 \<Longrightarrow> (\<And>r s2. yields Q (k (r, s2))) \<Longrightarrow>
   yields Q (Option.bind (s_lseek_decl fd off SEEK_SET s1) k)"
  using s_lseek_decl_set_returns [of off fd s1] by auto

lemmas yields_flow = yields_if yields_case_app yields_case

text \<open>Loading a block returns: a size of at most one block, and an array of the length it had.\<close>

definition loaded :: "w64 \<Rightarrow> (int \<times> byte list \<times> w64 \<times> byte list) \<times> os \<Rightarrow> bool" where
  "loaded sz x = (case x of ((r, data, sz', refs), s) \<Rightarrow> length data = BLOCK_SIZE \<and> (sz' = sz \<or> 0 < uint sz' \<and> uint sz' \<le> 4096))"

lemma read_size: "s_read fd 4096 s1 = ((n, bs), s2) \<Longrightarrow> 0 < n \<Longrightarrow>
    0 < uint (word_of_int n :: w64) \<and> uint (word_of_int n :: w64) \<le> 4096"
  using s_read_bound [of fd 4096 s1 n bs s2] by (simp add: unsigned_of_int take_bit_int_eq_self)

lemma read_fits: "s_read fd 4096 s1 = ((n, bs), s2) \<Longrightarrow> length data = BLOCK_SIZE \<Longrightarrow> length (overlay data bs) = BLOCK_SIZE"
  using s_read_bound [of fd 4096 s1 n bs s2] by simp

lemma load_block_returns:
  assumes "length data = BLOCK_SIZE"
  shows "yields (loaded sz) (load_block st h data sz refs s)"
  unfolding load_block_def Let_def
  by (simp only: prod.case | (rule yields_seek, simp, simp) | rule yields_flow
    | (rule yields_Some, insert assms, auto simp: loaded_def dest: read_size read_fits))+

end
