(* ===== verification/Liveness.thy ===== *)
theory Liveness
  imports Reachable Progress
begin

text \<open>
  Reading whole blocks through a handle that is open on a regular file: it returns, whatever system calls
  fail, and always with the number of bytes asked for.
\<close>

text \<open>A block is read into an array of one block; the state is the one before, and the descriptor stays usable.\<close>

definition block_read :: "cfs_state \<Rightarrow> os \<Rightarrow> (int \<times> cfs_block \<times> cfs_state) \<times> os \<Rightarrow> bool" where
  "block_read st s x = (case x of ((r, blk, st'), s') \<Rightarrow>
     st' = st \<and> length (b_data blk) = BLOCK_SIZE \<and> uint (b_size blk) \<le> 4096 \<and> same_fds s s')"

lemma read_block_returns:
  assumes "lock st = Unlocked" "i < length (files st)" "regular_fd s (f_fd (files st ! i))" "refs_valid s"
  shows "yields (block_read st s) (cfs_file_read_block st i ix zero_block s)"
proof -
  let ?file = "files st ! i" and ?L = "st\<lparr>lock := Locked\<rparr>"
  obtain r1 s1 where sk: "s_lseek_decl (f_fd ?file) 23 SEEK_SET s = Some (r1, s1)"
    using s_lseek_decl_set_returns [of 23 "f_fd ?file" s] by auto
  then have "regular_fd s1 (f_fd ?file)" using assms(3) s_lseek_decl_fds by (simp add: same_fds_def)
  then obtain r2 s2 where fi: "cfs_file_find_index ?file ix s1 = Some (r2, s2)"
    using find_index_returns by fastforce
  obtain n bs s3 where rd: "s_read (f_fd ?file) 20 s2 = ((n, bs), s3)" by (metis prod.exhaust)
  have "same_fds s s1" "same_fds s1 s2" "same_fds s2 s3"
    using s_lseek_decl_fds [OF sk] keepsD [OF find_index_fds fi] s_read_fds [OF rd] by simp_all
  then have rv: "refs_arg s3 = Some (uninit ''refs'' 8 s3)" using assms(4) by (simp add: refs_arg_def same_fds_def)
  let ?h = "overlay (uninit ''hash'' 20 s3) bs"
  obtain x s4 where ld: "load_block (storage ?L) ?h (replicate 4096 0) 0 (uninit ''refs'' 8 s3) s3 = Some (x, s4)"
    "loaded 0 (x, s4)"
    using load_block_returns [of "replicate 4096 0" 0 "storage ?L" ?h "uninit ''refs'' 8 s3" s3]
    by (auto simp: yields_def)
  obtain r data sz refs where x: "x = (r, data, sz, refs)" by (metis prod.exhaust)
  have u: "mutex_unlock ?L = st" "mutex_lock st = Some ?L" using assms(1) by simp_all
  let ?res = "if r2 = 0 then ((0, zero_block, st), s2)
    else ((if r \<noteq> 0 then r else 1, \<lparr>b_index = (if r \<noteq> 0 then 0 else ix), b_size = sz, b_data = data\<rparr>, st), s4)"
  have "cfs_file_read_block st i ix zero_block s = Some ?res"
    using sk fi rd ld(1) x assms(2) rv by (simp add: cfs_file_read_block_def u Let_def)
  moreover from this have "same_fds s (snd ?res)" using keepsD [OF read_block_fds] by (metis prod.collapse)
  ultimately show ?thesis
    using ld(2) x by (auto simp: yields_def block_read_def loaded_def)
qed

text \<open>The copy of one turn stays inside the caller's buffer.\<close>

lemma turn_copies:
  assumes "length blk = BLOCK_SIZE" "0 \<le> n" "n \<le> 4096" "0 \<le> k" "k + 4096 \<le> int (length buf)"
  shows "\<exists>buf'. mem_copy buf k blk 0 n = Some buf' \<and> length buf' = length buf"
    "\<exists>buf'. mem_fill buf k n = Some buf' \<and> length buf' = length buf"
  using assms by (auto simp: mem_copy_def mem_fill_def mem_store_def)

lemma read_loop_returns:
  assumes "lock st = Unlocked" "i < length (files st)" "regular_fd s (f_fd (files st ! i))" "refs_valid s"
    and "4096 * int a + 4096 * int m = off + sz" "4096 * int a = off + k" "0 \<le> k" "k + 4096 * int m = int (length buf)"
    and "0 \<le> off" "off + sz < 9223372036854775808"
  shows "\<exists>data s'. bb_read_loop i sz off (4096 * int a) k buf st s = Some ((s32 sz, data, st), s') \<and>
    length data = length buf \<and> same_fds s s'"
  using assms(3-8)
proof (induction m arbitrary: a k buf s)
  case 0
  then have "4096 * int a = off + sz" by simp
  then show ?case using read_loop_end [of i sz off k buf st s] by auto
next
  case (Suc m)
  let ?ix = "of_nat a"
  obtain r blk s1 where b: "cfs_file_read_block st i ?ix zero_block s = Some ((r, blk, st), s1)"
    "length (b_data blk) = 4096" "uint (b_size blk) \<le> 4096" "same_fds s s1"
    using read_block_returns [OF assms(1,2) Suc.prems(1,2), of ?ix] by (auto simp: yields_def block_read_def)
  have c: "u64 (4096 * int a) < u64 (off + sz)" using Suc.prems(3) assms(10) by simp
  let ?n = "if r \<noteq> 0 then uint (b_size blk) else 4096"
  obtain buf1 where cp: "(if r \<noteq> 0 then mem_copy buf k (b_data blk) 0 ?n else mem_fill buf k ?n) = Some buf1"
    "length buf1 = length buf"
    using turn_copies [OF b(2) _ _ Suc.prems(5), of ?n buf] Suc.prems(6) b(3) by (cases "r \<noteq> 0") auto
  have uint_nonneg: "0 \<le> uint (b_size blk)" by (rule unsigned_greater_eq)
  then have "s64 (uint (b_size blk)) = uint (b_size blk)" using b(3) by (intro s64_id) linarith+
  then have sz: "s64 (max (u64 (uint (b_size blk))) 0) = uint (b_size blk)" using b(3) by simp
  have rt: "s64 (min 4096 (u64 (off + sz - 4096 * int a))) = 4096"
    using Suc.prems(3) assms(10) by simp
  have "\<exists>data s'. bb_read_loop i sz off (4096 * int (Suc a)) (k + 4096) buf1 st s1 = Some ((s32 sz, data, st), s') \<and>
      length data = length buf1 \<and> same_fds s1 s'"
    using Suc.prems b(4) cp(2) by (intro Suc.IH) (simp_all add: same_fds_def)
  moreover have "bb_read_loop i sz off (4096 * int a) k buf st s =
      bb_read_loop i sz off (4096 * int (Suc a)) (k + 4096) buf1 st s1"
    using cp(1) sz rt uint_nonneg
    by (subst bb_read_loop.simps) (simp add: c block_index b(1) Let_def add.commute split: if_splits)
  ultimately show ?case using b(4) cp(2) same_fds_trans by fastforce
qed

text \<open>The handler, in every state that can be reached while the mutex is not broken.\<close>

lemma consistent_read_returns:
  assumes "consistent (bb, s)" "lock (cfs bb) = Unlocked" "s32 fh \<in> set (fds (cfs bb))" "s32 fh \<noteq> -1"
    and "refs_valid s" "length buf = 4096 * m" "4096 * (a + m) < 9223372036854775808" "4096 * m < 2147483648"
  shows "\<exists>data s'. bb_read bb buf (int (length buf)) (4096 * int a) fh s = Some ((int (length buf), data, bb), s') \<and>
    length data = length buf"
proof -
  obtain i where i: "cfs_get_file (cfs bb) (s32 fh) = Some i" using assms(3) get_file_mem [of "cfs bb"] by auto
  have ok: "session_ok (cfs bb) s" "typed (cfs bb) s" using assms(1,2) by (simp_all add: consistent_def)
  then have il: "i < length (files (cfs bb))"
    using i by (auto simp: cfs_get_file_def find_fd_Some session_ok_def registry_ok_def)
  have "regular_fd s (f_fd (files (cfs bb) ! i))" using ok(2) i assms(4) by (simp add: typed_def)
  moreover have "4096 * int a + 4096 * int m < 9223372036854775808" using assms(7) by simp
  ultimately obtain data s' where "bb_read_loop i (int (length buf)) (4096 * int a) (4096 * int a) 0 buf (cfs bb) s =
      Some ((s32 (int (length buf)), data, cfs bb), s')" "length data = length buf"
    using read_loop_returns [OF assms(2) il, of s a m "4096 * int a" "int (length buf)" 0 buf] assms(5,6) by auto
  moreover have "s32 (int (length buf)) = int (length buf)" using assms(6,8) by simp
  ultimately show ?thesis using i by (simp add: bb_read_def)
qed

subsection \<open>Opening and releasing\<close>

lemma malloc_without_faults: "sched s C_malloc = [] \<Longrightarrow> malloc_ok s = (True, s)"
  by (simp add: malloc_ok_def draw_def)

lemma drawn_none: "drawn s s' \<Longrightarrow> sched s c = [] \<Longrightarrow> sched s' c = []"
  by (simp add: drawn_def) (metis empty_set subset_empty set_empty)

lemma register_file_returns:
  assumes "registry_ok st" "length path < PATH_MAX" "sched s C_malloc = []"
  shows "cfs_register_file st path fd s \<noteq> None"
proof -
  let ?L = "st\<lparr>lock := Locked\<rparr>"
  obtain i where i: "find_fd (-1) (fds (grown st s)) = Some i" "i < length (files (grown st s))"
    using grown_slot [OF assms(1)] by blast
  have g: "(if fds_cap ?L div 2 \<le> unat (n_fds ?L)
      then (let (ok1, s) = malloc_ok s; (ok2, s) = malloc_ok s in if ok1 \<and> ok2 then Some (grow ?L s, s) else None)
      else Some (?L, s)) = Some ((grown st s)\<lparr>lock := Locked\<rparr>, s)"
    by (simp add: malloc_without_faults [OF assms(3)] grown_def grow_locked)
  obtain r1 s1 where sk: "s_lseek_decl fd 7 SEEK_SET s = Some (r1, s1)"
    using s_lseek_decl_set_returns [of 7 fd s] by auto
  have u: "mutex_lock st = Some ?L" using assms(1) by (simp add: registry_ok_def)
  show ?thesis
    unfolding cfs_register_file_def u Option.bind.bind_lunit g prod.case
    using i assms(2) sk by (simp add: Let_def split: prod.split)
qed

lemma consistent_open_returns:
  assumes "consistent (bb, s)" "lock (cfs bb) = Unlocked" "bb_fullpath bb path \<noteq> None" "sched s C_malloc = []"
  shows "bb_open bb path s \<noteq> None"
proof -
  obtain p where p: "bb_fullpath bb path = Some p" using assms(3) by blast
  then have lp: "length p < PATH_MAX" by (auto simp: bb_fullpath_def Let_def split: if_splits)
  have ok: "registry_ok (cfs bb)" using assms(1,2) by (simp add: consistent_def session_ok_def)
  obtain r1 s1 where op: "sys_open p O_RDWR s = (r1, s1)" by fastforce
  obtain fd s2 where ls: "log_syscall r1 0 s1 = (fd, s2)" by fastforce
  have "drawn s s1" using sys_open_fds [OF op] by (auto simp: same_fds_def plus_fd_def)
  then have "drawn s s2" using log_syscall_fds [OF ls] by (auto simp: same_fds_def intro: drawn_trans)
  then have "cfs_register_file (cfs bb) p fd s2 \<noteq> None"
    using register_file_returns [OF ok lp] drawn_none assms(4) by blast
  then show ?thesis using p op ls by (auto simp: bb_open_def split: prod.split)
qed

lemma release_returns: "lock (cfs bb) = Unlocked \<Longrightarrow> bb_release bb fh s \<noteq> None"
  by (auto simp: bb_release_def cfs_release_file_def split: option.split prod.split)

end
