(* ===== verification/Reachable_Properties.thy ===== *)
theory Reachable_Properties
  imports Samples Liveness
begin

text \<open>
  Properties of every state that handlers can reach, in any order and with any faults.
\<close>

subsection \<open>Any handlers, any faults\<close>

text \<open>C11. Whatever requests FUSE makes, in any order, and whatever system
  calls fail: unless the mutex has been broken, the registry is consistent (no descriptor twice, the counter
  right, the arrays of one length) and every registered descriptor is open. The arguments are arbitrary but for one: the
  handle \<open>-1\<close> is not released, which would match a free slot (Lemma \<open>releasing_minus_one\<close>). Between and during requests the
  rest of the system, and the system calls that handlers only pass their arguments to, may do anything that leaves the
  descriptors of open regular files open on regular files, and names standing for inodes that exist.\<close>

theorem registry_never_lies:
  assumes "sane s" "names_ok s" "session_ok (cfs bb) s" "typed (cfs bb) s" "(step sha)\<^sup>*\<^sup>* (bb, s) (bb', s')"
  shows "lock (cfs bb') = Broken \<or>
    registry_ok (cfs bb') \<and> (\<forall>fd \<in> set (fds (cfs bb')). fd \<noteq> -1 \<longrightarrow> get_fd s' fd \<noteq> None)"
  using consistent_reachable [OF assms(5)] assms(1-4) by (auto simp: consistent_def session_ok_def)

text \<open>
  A slot is free when it holds \<open>-1\<close>, so releasing the handle \<open>-1\<close> finds one, and counts down; an empty registry then
  has as many files as a 64-bit word has numbers.
\<close>

lemma releasing_minus_one:
  assumes "registry_ok st" "-1 \<in> set (fds st)"
  shows "\<exists>st'. cfs_release_file st (-1) = Some (0, st') \<and> fds st' = fds st \<and> n_fds st' = n_fds st - 1 \<and> \<not> registry_ok st'"
proof -
  obtain i where i: "find_fd (-1) (fds st) = Some i" "i < length (fds st)" "fds st ! i = -1"
    using assms(2) find_fd_None [of "-1" "fds st"] by (cases "find_fd (-1) (fds st)") (auto simp: find_fd_Some)
  have k: "lock st = Unlocked" "unat (n_fds st) = length (used (fds st))" using assms(1) by (simp_all add: registry_ok_def)
  have "n_fds st - 1 \<noteq> n_fds st" by simp
  then have "unat (n_fds st - 1) \<noteq> unat (n_fds st)" unfolding word_unat_eq_iff .
  moreover have "(fds st)[i := -1] = fds st" using i(3) by (metis list_update_id)
  ultimately show ?thesis using i(1) k by (simp add: cfs_release_file_def registry_ok_def)
qed

text \<open>Opening the sample file is a step.\<close>

lemma sample_sane: "sane sample_os"
  by (simp add: sane_def sample_os_def)

lemma sample_step:
  "\<exists>fd bb' s'. (step sample_sha)\<^sup>*\<^sup>* (sample_bb, sample_os) (bb', s') \<and> cfs_get_file (cfs bb') fd \<noteq> None \<and> fd \<noteq> -1"
proof -
  have c: "session_ok (cfs sample_bb) sample_os" "2 \<le> free_fds sample_os"
    "closed_file sample_sha sample_D (storage (cfs sample_bb)) ''/r/f'' 2 sample_blocks sample_os"
    using sample_session sample_free sample_closed by simp_all
  obtain fd i st' s' where o: "bb_open sample_bb ''/f'' sample_os = Some ((0, fd, sample_bb\<lparr>cfs := st'\<rparr>), s')"
    "cfs_get_file st' fd = Some i" "opened sample_sha sample_D st' i sample_blocks s'" "f_fd (files st' ! i) = fd"
    using open_closed [OF sample_fullpath(1) c] by (metis cfs_file.select_convs(5))
  then have "(step sample_sha)\<^sup>*\<^sup>* (sample_bb, sample_os) (sample_bb\<lparr>cfs := st'\<rparr>, s')"
    using step_request [where rq = "Open ''/f''", OF _ idle_keep, of sample_sha] by auto
  moreover have "fd \<noteq> -1"
    using o(3,4) get_fd_range by (fastforce simp: opened_def on_disk_def live_def fd_range_def)
  ultimately show ?thesis using o(2)
    by (intro exI [of _ fd] exI [of _ "sample_bb\<lparr>cfs := st'\<rparr>"] exI [of _ s']) simp
qed

lemma sample_typed: "names_ok sample_os" "typed sample_st sample_os"
proof -
  show "names_ok sample_os" unfolding names_ok_def by (auto simp: sample_os_def split: if_splits)
  show "typed sample_st sample_os" by (auto simp: typed_def cfs_get_file_def find_fd_Some)
qed

theorem registry_never_lies_witness:
  "\<exists>fd bb' s'. (step sample_sha)\<^sup>*\<^sup>* (sample_bb, sample_os) (bb', s') \<and> cfs_get_file (cfs bb') fd \<noteq> None \<and>
    (lock (cfs bb') = Broken \<or>
     registry_ok (cfs bb') \<and> (\<forall>fd \<in> set (fds (cfs bb')). fd \<noteq> -1 \<longrightarrow> get_fd s' fd \<noteq> None))"
  using sample_step registry_never_lies [OF sample_sane sample_typed(1), of sample_bb sample_sha] sample_session sample_typed(2)
  by simp metis

text \<open>C12. In every state that requests reach (any but a release of the handle \<open>-1\<close>, while the rest of the system
  leaves the descriptors of open regular files and the inodes of names alone), unless the mutex is broken, a handle finds
  the entry of its own descriptor, and that descriptor is open for reading and writing on a regular file.\<close>

theorem handlers_are_typed:
  assumes "sane s" "names_ok s" "session_ok (cfs bb) s" "typed (cfs bb) s" "(step sha)\<^sup>*\<^sup>* (bb, s) (bb', s')"
  shows "lock (cfs bb') = Broken \<or>
    (\<forall>fd i. fd \<noteq> -1 \<and> cfs_get_file (cfs bb') fd = Some i \<longrightarrow> f_fd (files (cfs bb') ! i) = fd \<and> regular_fd s' fd)"
  using consistent_reachable [OF assms(5)] assms(1-4) by (auto simp: consistent_def typed_def)

theorem handlers_are_typed_witness:
  "\<exists>fd bb' s'. (step sample_sha)\<^sup>*\<^sup>* (sample_bb, sample_os) (bb', s') \<and> cfs_get_file (cfs bb') fd \<noteq> None \<and> fd \<noteq> -1 \<and>
    (lock (cfs bb') = Broken \<or>
     (\<forall>fd i. fd \<noteq> -1 \<and> cfs_get_file (cfs bb') fd = Some i \<longrightarrow> f_fd (files (cfs bb') ! i) = fd \<and> regular_fd s' fd))"
  using sample_step handlers_are_typed [OF sample_sane sample_typed(1), of sample_bb sample_sha] sample_session sample_typed(2)
  by simp metis

text \<open>C10. In every state that requests reach (any but a release of the handle \<open>-1\<close>, while the rest of the system
  leaves the descriptors of open regular files and the inodes of names alone) where the mutex is not
  broken, whatever fails from then on: releasing returns; opening returns when there is memory for the registry to grow;
  and, if the pointer that the call of \<open>load_block\<close> in \<open>cfs.c\<close> lacks happens to be valid, reading
  whole blocks through a registered handle returns, with the number of bytes asked for, even if no block could be read.\<close>

theorem handlers_return:
  assumes "sane s" "names_ok s" "session_ok (cfs bb) s" "typed (cfs bb) s" "(step sha)\<^sup>*\<^sup>* (bb, s) (bb', s')"
    and "lock (cfs bb') \<noteq> Broken" "s32 fh \<in> set (fds (cfs bb'))" "s32 fh \<noteq> -1"
    and "length buf = 4096 * m" "4096 * (a + m) < 9223372036854775808" "4096 * m < 2147483648"
    and "bb_fullpath bb' path \<noteq> None" "sched s' C_malloc = []"
  shows "(refs_valid s' \<longrightarrow>
      (\<exists>data s''. bb_read bb' buf (int (length buf)) (4096 * int a) fh s' = Some ((int (length buf), data, bb'), s'') \<and>
        length data = length buf)) \<and>
    bb_release bb' fh s' \<noteq> None \<and> bb_open bb' path s' \<noteq> None"
proof -
  have "consistent (bb, s)" using assms(1-4) by (simp add: consistent_def)
  then have c: "consistent (bb', s')" using consistent_reachable [OF assms(5)] by blast
  then have l: "lock (cfs bb') = Unlocked" using assms(6) by (simp add: consistent_def session_ok_def registry_ok_def)
  show ?thesis
    using consistent_read_returns [OF c l assms(7,8) _ assms(9-11)] release_returns [OF l] consistent_open_returns [OF c l assms(12,13)]
    by blast
qed

text \<open>The sample with \<open>f\<close> open, reading and seeking disturbed.\<close>

definition faulty_os :: os where
  "faulty_os = opened_os\<lparr>sched := (\<lambda>_. [])(C_read := [Fail EINTR, Fail 5, Short 0, Fail EINTR], C_lseek := [Fail 5])\<rparr>"

lemma faulty_sane: "sane faulty_os"
  by (auto simp: sane_def faulty_os_def split: if_splits)

lemma faulty_frame [simp]:
  "get_fd faulty_os = get_fd opened_os" "names faulty_os = names sample_os" "inodes faulty_os = inodes sample_os"
  "next_ino faulty_os = 5" "refs_valid faulty_os" "sched faulty_os C_malloc = []" "length (fdtab faulty_os) = length (fdtab opened_os)"
  by (simp_all add: faulty_os_def fun_eq_iff)

lemma faulty_typed: "names_ok faulty_os" "session_ok opened_st faulty_os" "typed opened_st faulty_os"
proof -
  show "names_ok faulty_os" using sample_typed(1) by (simp add: names_ok_def)
  show "session_ok opened_st faulty_os" using opened_session by (simp add: session_ok_def)
  have "regular_fd faulty_os 0"
    using opened_live by (auto simp: regular_fd_def live_def sample_ofile_def)
  moreover have "i = 0 \<and> fd = 0" if "cfs_get_file opened_st fd = Some i" "fd \<noteq> -1" for fd i
    using that by (auto simp: cfs_get_file_def find_fd_Some nth_Cons' split: if_splits)
  ultimately show "typed opened_st faulty_os" by (fastforce simp: typed_def sample_file_def)
qed

theorem handlers_return_witness:
  "(\<exists>data s''. bb_read opened_bb (replicate 4096 7) (int (length (replicate 4096 (7 :: byte)))) (4096 * int 0) 0 faulty_os
      = Some ((int (length (replicate 4096 (7 :: byte))), data, opened_bb), s'') \<and> length data = length (replicate 4096 (7 :: byte))) \<and>
    bb_release opened_bb 0 faulty_os \<noteq> None \<and> bb_open opened_bb ''/g'' faulty_os \<noteq> None"
  using handlers_return [OF faulty_sane, of opened_bb sample_sha opened_bb faulty_os 0 "replicate 4096 7" 1 0 "''/g''"] faulty_typed
  by (simp add: bb_fullpath_def opened_bb_def)

end
