(* ===== verification/File_System.thy ===== *)
theory File_System
  imports Dispatch Bbfs_Session
begin

text \<open>
  What the file system promises to a program that keeps to whole blocks: files that are lists of blocks, handles
  that stand for files. The table \<open>bb_oper\<close> keeps the promise, for any number of files, open at once or not, and
  for any program that chooses its next request by the replies it got.
\<close>

subsection \<open>Clients and servers\<close>

text \<open>A client sees the requests it made and their replies.\<close>

type_synonym ('q, 'r) history = "('q \<times> 'r) list"

primrec run ::
  "('q \<Rightarrow> 's \<Rightarrow> ('r \<times> 's) option) \<Rightarrow> (('q, 'r) history \<Rightarrow> 'q) \<Rightarrow> nat \<Rightarrow> ('q, 'r) history \<Rightarrow> 's
     \<Rightarrow> (('q, 'r) history \<times> 's) option" where
  "run serve client 0 h s = Some ([], s)"
| "run serve client (Suc n) h s = do {
     (r, s) \<leftarrow> serve (client h) s;
     (h', s) \<leftarrow> run serve client n (h @ [(client h, r)]) s;
     Some ((client h, r) # h', s)
   }"

text \<open>
  A specification says which requests are allowed, which replies are correct, and what is the case afterwards. A
  client is safe if it makes \<open>n\<close> requests that are allowed, as long as the replies are correct.
\<close>

primrec safe ::
  "('a \<Rightarrow> 'q \<Rightarrow> bool) \<Rightarrow> ('a \<Rightarrow> 'q \<Rightarrow> 'r \<Rightarrow> bool) \<Rightarrow> ('a \<Rightarrow> 'q \<Rightarrow> 'r \<Rightarrow> 'a) \<Rightarrow> (('q, 'r) history \<Rightarrow> 'q) \<Rightarrow> nat
     \<Rightarrow> ('q, 'r) history \<Rightarrow> 'a \<Rightarrow> bool" where
  "safe allowed correct after client 0 h a = True"
| "safe allowed correct after client (Suc n) h a \<longleftrightarrow> allowed a (client h) \<and>
     (\<forall>r. correct a (client h) r \<longrightarrow> safe allowed correct after client n (h @ [(client h, r)]) (after a (client h) r))"

primrec explains ::
  "('a \<Rightarrow> 'q \<Rightarrow> bool) \<Rightarrow> ('a \<Rightarrow> 'q \<Rightarrow> 'r \<Rightarrow> bool) \<Rightarrow> ('a \<Rightarrow> 'q \<Rightarrow> 'r \<Rightarrow> 'a) \<Rightarrow> ('q, 'r) history \<Rightarrow> 'a \<Rightarrow> 'a \<Rightarrow> bool" where
  "explains allowed correct after [] a b \<longleftrightarrow> b = a"
| "explains allowed correct after (x # h) a b \<longleftrightarrow> allowed a (fst x) \<and> correct a (fst x) (snd x) \<and>
     explains allowed correct after h (after a (fst x) (snd x)) b"

locale server =
  fixes stands :: "'a \<Rightarrow> 's \<Rightarrow> bool"
    and serve :: "'q \<Rightarrow> 's \<Rightarrow> ('r \<times> 's) option"
    and allowed :: "'a \<Rightarrow> 'q \<Rightarrow> bool"
    and correct :: "'a \<Rightarrow> 'q \<Rightarrow> 'r \<Rightarrow> bool"
    and after :: "'a \<Rightarrow> 'q \<Rightarrow> 'r \<Rightarrow> 'a"
  assumes served: "stands a s \<Longrightarrow> allowed a q \<Longrightarrow>
    \<exists>r s'. serve q s = Some (r, s') \<and> correct a q r \<and> stands (after a q r) s'"
begin

lemma runs:
  "stands a s \<Longrightarrow> safe allowed correct after client n h a \<Longrightarrow>
   \<exists>h' s' b. run serve client n h s = Some (h', s') \<and> length h' = n \<and> explains allowed correct after h' a b \<and> stands b s'"
proof (induction n arbitrary: h a s)
  case (Suc n)
  have al: "allowed a (client h)" using Suc.prems(2) by simp
  obtain r s1 where r: "serve (client h) s = Some (r, s1)" "correct a (client h) r" "stands (after a (client h) r) s1"
    using served [OF Suc.prems(1) al] by blast
  then obtain h' s' b where "run serve client n (h @ [(client h, r)]) s1 = Some (h', s')" "length h' = n"
    "explains allowed correct after h' (after a (client h) r) b" "stands b s'"
    using Suc.IH [OF r(3)] Suc.prems(2) by fastforce
  then show ?case using r Suc.prems(2) by auto
qed simp

end

subsection \<open>The specification\<close>

text \<open>
  \<open>f_files\<close> are the files by their paths, each with its size and its blocks; \<open>f_open\<close> the handles; \<open>f_free\<close> names
  that are free, in directories that exist; \<open>f_room\<close> the descriptors that are left.
\<close>

record fs_spec =
  f_files :: "path \<Rightarrow> (w64 \<times> blocks) option"
  f_open :: "int \<Rightarrow> path option"
  f_free :: "path set"
  f_room :: nat

definition open_path :: "fs_spec \<Rightarrow> path \<Rightarrow> bool" where
  "open_path a path \<longleftrightarrow> (\<exists>fd. f_open a fd = Some path)"

fun fs_allowed :: "byte list set \<Rightarrow> fs_spec \<Rightarrow> request \<Rightarrow> bool" where
  "fs_allowed D a (Mknod path mode dev) \<longleftrightarrow> S_ISREG mode \<and> path \<in> f_free a"
| "fs_allowed D a (Unlink path) \<longleftrightarrow> f_files a path \<noteq> None \<and> \<not> open_path a path"
| "fs_allowed D a (Getattr path buf) \<longleftrightarrow> f_files a path \<noteq> None \<and> 2 \<le> f_room a"
| "fs_allowed D a (Open path) \<longleftrightarrow> f_files a path \<noteq> None \<and> \<not> open_path a path \<and> 2 \<le> f_room a"
| "fs_allowed D a (Read buf sz offset fh) \<longleftrightarrow> f_open a fh \<noteq> None \<and> sz = int (length buf) \<and> length buf mod BLOCK_SIZE = 0 \<and>
     length buf < 2147483648 \<and> 0 \<le> offset \<and> offset mod int BLOCK_SIZE = 0 \<and> offset + sz < 9223372036854775808"
| "fs_allowed D a (Write buf sz offset fh) \<longleftrightarrow> (\<exists>path n af. f_open a fh = Some path \<and> f_files a path = Some (n, af) \<and>
     sz = int (length buf) \<and> 0 \<le> offset \<and> offset mod int BLOCK_SIZE = 0 \<and> fresh_blocks D af (nat (offset div int BLOCK_SIZE)) buf)"
| "fs_allowed D a (Release fh) \<longleftrightarrow> f_open a fh \<noteq> None"
| "fs_allowed D a Flush \<longleftrightarrow> True"
| "fs_allowed D a _ \<longleftrightarrow> False"

text \<open>
  Reading is permitted only when \<open>v\<close>: when the pointer that the call of \<open>load_block\<close> lacks happens to be valid.
\<close>

fun is_read :: "request \<Rightarrow> bool" where
  "is_read (Read buf sz offset fh) = True"
| "is_read _ = False"

definition fs_permits :: "byte list set \<Rightarrow> bool \<Rightarrow> fs_spec \<Rightarrow> request \<Rightarrow> bool" where
  "fs_permits D v a rq \<longleftrightarrow> fs_allowed D a rq \<and> (is_read rq \<longrightarrow> v)"

text \<open>What a file looks like, and what is read from it.\<close>

definition looks :: "w64 \<times> blocks \<Rightarrow> stat_buf \<Rightarrow> bool" where
  "looks file b \<longleftrightarrow> st_size b = sint (fst file) \<and> st_blocks b = int (length (snd file)) \<and> st_blksize b = int BLOCK_SIZE"

fun fs_correct :: "fs_spec \<Rightarrow> request \<Rightarrow> reply \<Rightarrow> bool" where
  "fs_correct a (Getattr path buf) r \<longleftrightarrow> (\<exists>b. r = Attributes 0 b \<and> looks (the (f_files a path)) b)"
| "fs_correct a (Open path) r \<longleftrightarrow> (\<exists>fd. r = Handle 0 fd \<and> f_open a fd = None)"
| "fs_correct a (Read buf sz offset fh) r \<longleftrightarrow>
     r = Data sz (pages (snd (the (f_files a (the (f_open a fh))))) (nat (offset div int BLOCK_SIZE)) buf)"
| "fs_correct a (Write buf sz offset fh) r \<longleftrightarrow> r = Status sz"
| "fs_correct a _ r \<longleftrightarrow> r = Status 0"

fun fs_after :: "fs_spec \<Rightarrow> request \<Rightarrow> reply \<Rightarrow> fs_spec" where
  "fs_after a (Mknod path mode dev) r = a\<lparr>f_files := (f_files a)(path \<mapsto> (0, [])), f_free := f_free a - {path}\<rparr>"
| "fs_after a (Unlink path) r = a\<lparr>f_files := (f_files a)(path := None), f_free := insert path (f_free a)\<rparr>"
| "fs_after a (Getattr path buf) r = a\<lparr>f_room := f_room a - 1\<rparr>"
| "fs_after a (Open path) (Handle r fd) = a\<lparr>f_room := f_room a - 1, f_open := (f_open a)(fd \<mapsto> path)\<rparr>"
| "fs_after a (Write buf sz offset fh) r =
     (let path = the (f_open a fh); (n, af) = the (f_files a path)
      in a\<lparr>f_files := (f_files a)(path \<mapsto> (n + of_int sz, af @ chunks (nat (offset div int BLOCK_SIZE)) buf))\<rparr>)"
| "fs_after a (Release fh) r = a\<lparr>f_open := (f_open a)(fh := None), f_room := f_room a + 1\<rparr>"
| "fs_after a _ r = a"

subsection \<open>The relation to the program's state\<close>

text \<open>A file as the program has it: closed, or open under exactly one handle.\<close>

definition file_open ::
  "(byte list \<Rightarrow> byte list) \<Rightarrow> byte list set \<Rightarrow> bb_state \<times> os \<Rightarrow> int \<Rightarrow> path \<Rightarrow> w64 \<Rightarrow> blocks \<Rightarrow> bool" where
  "file_open sha D c fd p sz af \<longleftrightarrow> (case c of (bb, s) \<Rightarrow> \<exists>i. cfs_get_file (cfs bb) fd = Some i \<and>
     opened sha D (cfs bb) i af s \<and> f_path (files (cfs bb) ! i) = p \<and> f_size (files (cfs bb) ! i) = sz \<and>
     f_fd (files (cfs bb) ! i) = fd \<and> s32 fd = fd \<and> fd \<noteq> -1)"

definition file_stands ::
  "(byte list \<Rightarrow> byte list) \<Rightarrow> byte list set \<Rightarrow> fs_spec \<Rightarrow> path \<Rightarrow> bb_state \<times> os \<Rightarrow> bool" where
  "file_stands sha D a path c \<longleftrightarrow> (case c of (bb, s) \<Rightarrow> (case f_files a path of
       None \<Rightarrow> \<not> open_path a path \<and> (path \<in> f_free a \<longrightarrow> names s (rootdir bb @ path) = None)
     | Some (sz, af) \<Rightarrow> path \<notin> f_free a \<and> names s (rootdir bb @ path) \<noteq> None \<and>
         (if open_path a path
          then \<exists>fd. (\<forall>fd'. f_open a fd' = Some path \<longleftrightarrow> fd' = fd) \<and> file_open sha D c fd (rootdir bb @ path) sz af
          else closed_file sha D (storage (cfs bb)) (rootdir bb @ path) sz af s)))"

text \<open>A name the client may use.\<close>

definition usable :: "(byte list \<Rightarrow> byte list) \<Rightarrow> byte list set \<Rightarrow> path \<Rightarrow> bb_state \<times> os \<Rightarrow> bool" where
  "usable sha D path c \<longleftrightarrow> (case c of (bb, s) \<Rightarrow> length (rootdir bb) + length path < PATH_MAX \<and>
     is_dir s (parent_of (rootdir bb @ path)) \<and> rootdir bb @ path \<notin> block_of sha (storage (cfs bb)) ` D)"

definition fs_names :: "fs_spec \<Rightarrow> path set" where
  "fs_names a = dom (f_files a) \<union> f_free a"

definition fs_stands :: "(byte list \<Rightarrow> byte list) \<Rightarrow> byte list set \<Rightarrow> fs_spec \<Rightarrow> bb_state \<times> os \<Rightarrow> bool" where
  "fs_stands sha D a c \<longleftrightarrow> (case c of (bb, s) \<Rightarrow>
     session_ok (cfs bb) s \<and> store_ok sha D (storage (cfs bb)) s \<and> free_fds s = f_room a \<and>
     (\<forall>path. file_stands sha D a path c) \<and> (\<forall>path \<in> fs_names a. usable sha D path c) \<and>
     (\<forall>p \<in> dom (f_files a). \<forall>q \<in> dom (f_files a). names s (rootdir bb @ p) = names s (rootdir bb @ q) \<longrightarrow> p = q))"

subsection \<open>What other files notice\<close>

text \<open>The file at \<open>q\<close> keeps its inode and its content, and the block files stay what they are.\<close>

definition spares :: "(byte list \<Rightarrow> byte list) \<Rightarrow> byte list set \<Rightarrow> blk_store \<Rightarrow> path \<Rightarrow> os \<Rightarrow> os \<Rightarrow> bool" where
  "spares sha D bs q s s' \<longleftrightarrow> names s' q = names s q \<and>
     (\<forall>n. names s q = Some n \<longrightarrow> inodes s' n = inodes s n \<and>
        (\<forall>d \<in> D. names s' (block_of sha bs d) = Some n \<longrightarrow> names s (block_of sha bs d) = Some n)) \<and>
     (\<forall>d. names s (block_of sha bs d) \<noteq> None \<longrightarrow> d \<in> D \<longrightarrow> names s' (block_of sha bs d) \<noteq> None)"

lemma spares_same: "names s' = names s \<Longrightarrow> inodes s' = inodes s \<Longrightarrow> spares sha D bs q s s'"
  by (simp add: spares_def)

lemma spares_evolves:
  assumes "evolves sha D bs p fd s s'" "os_wf s" "names s q \<noteq> names s p" "names s q \<noteq> None"
  shows "spares sha D bs q s s'"
proof -
  obtain n where n: "names s q = Some n" using assms(4) by blast
  have lt: "n < next_ino s" using assms(2) n by (auto simp: os_wf_def)
  have keep: "names s' x = Some m" if "names s x = Some m" for x m
    using assms(1) that by (simp add: evolves_def)
  have new: "names s x = Some m \<or> next_ino s \<le> m" if "names s' x = Some m" for x m
    using assms(1) that unfolding evolves_def by blast
  have "inodes s' n = inodes s n" using assms(1,3) n lt by (simp add: evolves_def)
  moreover have "names s x = Some n" if "names s' x = Some n" for x using new [OF that] lt by simp
  moreover have "names s' x \<noteq> None" if "names s x \<noteq> None" for x using keep that by fastforce
  ultimately show ?thesis using n keep [OF n] by (simp add: spares_def)
qed

lemma spares_new_node:
  assumes "os_wf s" "q \<noteq> p" "p \<notin> block_of sha bs ` D"
  shows "spares sha D bs q s (new_node p nd s)"
  using assms by (auto simp: spares_def new_node_def os_wf_def)

lemma closed_spared:
  assumes "closed_file sha D bs q sz af s" "spares sha D bs q s s'" "store_ok sha D bs s'"
  shows "closed_file sha D bs q sz af s'"
proof -
  obtain n where n: "names s q = Some n" "q \<notin> block_of sha bs ` D"
    "inodes s n = Some (Reg (file_image sz (of_nat (length af)) (table_of sha af)))"
    "distinct (map fst af)" "23 + 28 * length af < 2147483648"
    "\<forall>d \<in> snd ` set af. d \<in> D \<and> names s (block_of sha bs d) \<noteq> None" "apart sha D bs n s"
    using assms(1) by (auto simp: closed_file_def)
  note sp = assms(2) [unfolded spares_def]
  have "names s' q = Some n" "inodes s' n = inodes s n" using sp n(1) by simp_all
  moreover have "apart sha D bs n s'" using n(1,7) sp unfolding apart_def by blast
  moreover have "\<forall>d \<in> snd ` set af. d \<in> D \<and> names s' (block_of sha bs d) \<noteq> None" using n(6) sp by blast
  ultimately show ?thesis using n assms(3) unfolding closed_file_def by (intro exI [of _ n]) simp
qed

lemma opened_spared:
  assumes "opened sha D st j aj s" "spares sha D (storage st) (f_path (files st ! j)) s s'" "store_ok sha D (storage st) s'"
    and "get_fd s' (f_fd (files st ! j)) = get_fd s (f_fd (files st ! j))"
    and "storage st' = storage st" "lock st' = lock st" "j < length (files st')" "files st' ! j = files st ! j"
  shows "opened sha D st' j aj s'"
proof -
  obtain f where f: "on_disk sha D st j aj f s" using assms(1) by (auto simp: opened_def)
  have nm: "names s (f_path (files st ! j)) = Some (of_ino f)" using f by (simp add: on_disk_def)
  note sp = assms(2) [unfolded spares_def]
  have "apart sha D (storage st) (of_ino f) s'"
    using f sp nm unfolding on_disk_def apart_def by blast
  moreover have "\<forall>d \<in> snd ` set aj. d \<in> D \<and> names s' (block_of sha (storage st) d) \<noteq> None"
    using f sp unfolding on_disk_def by blast
  ultimately have "on_disk sha D st' j aj f s'"
    using f sp nm assms(3-8) unfolding on_disk_def live_def by simp
  then show ?thesis by (auto simp: opened_def)
qed

text \<open>The handles of a file other than the one at \<open>path\<close> keep their entries and descriptors.\<close>

definition handles_kept :: "fs_spec \<Rightarrow> path \<Rightarrow> cfs_state \<Rightarrow> os \<Rightarrow> cfs_state \<Rightarrow> os \<Rightarrow> bool" where
  "handles_kept a path st s st' s' \<longleftrightarrow> (\<forall>fd i. f_open a fd \<noteq> None \<and> f_open a fd \<noteq> Some path \<and> cfs_get_file st fd = Some i \<longrightarrow>
     cfs_get_file st' fd = Some i \<and> files st' ! i = files st ! i \<and> i < length (files st') \<and> get_fd s' fd = get_fd s fd)"

lemma handles_keptD:
  "handles_kept a path st s st' s' \<Longrightarrow> f_open a fd = Some q \<Longrightarrow> q \<noteq> path \<Longrightarrow> cfs_get_file st fd = Some i \<Longrightarrow>
   cfs_get_file st' fd = Some i \<and> files st' ! i = files st ! i \<and> i < length (files st') \<and> get_fd s' fd = get_fd s fd"
  unfolding handles_kept_def by (metis option.distinct(1) option.inject)

lemma file_stands_spared:
  assumes st: "file_stands sha D a q (bb, s)"
    and same: "f_files a' q = f_files a q" "q \<in> f_free a' \<longleftrightarrow> q \<in> f_free a" "\<And>fd. f_open a' fd = Some q \<longleftrightarrow> f_open a fd = Some q"
    and sp: "f_files a q \<noteq> None \<or> q \<in> f_free a \<Longrightarrow> spares sha D (storage (cfs bb)) (rootdir bb @ q) s s'"
    and h: "\<And>fd i. f_open a fd = Some q \<Longrightarrow> cfs_get_file (cfs bb) fd = Some i \<Longrightarrow> cfs_get_file st' fd = Some i \<and>
      files st' ! i = files (cfs bb) ! i \<and> i < length (files st') \<and> get_fd s' fd = get_fd s fd"
    and ok: "store_ok sha D (storage (cfs bb)) s'" "storage st' = storage (cfs bb)" "lock st' = lock (cfs bb)"
  shows "file_stands sha D a' q (bb\<lparr>cfs := st'\<rparr>, s')"
proof -
  let ?p = "rootdir bb @ q"
  have op: "open_path a' q = open_path a q" using same(3) by (simp add: open_path_def)
  show ?thesis
  proof (cases "f_files a q")
    case None
    then show ?thesis using st same(1,2) op sp by (auto simp: file_stands_def spares_def)
  next
    case (Some x)
    then obtain sz af where f: "f_files a q = Some (sz, af)" by (metis prod.collapse)
    have sp': "spares sha D (storage (cfs bb)) ?p s s'" using sp f by simp
    have nm: "q \<notin> f_free a" "names s ?p \<noteq> None" using st f by (simp_all add: file_stands_def)
    have nm': "names s' ?p \<noteq> None" using nm(2) sp' by (simp add: spares_def)
    show ?thesis
    proof (cases "open_path a q")
      case False
      then have "closed_file sha D (storage (cfs bb)) ?p sz af s" using st f by (simp add: file_stands_def)
      then show ?thesis using closed_spared [OF _ sp' ok(1)] same(1,2) f nm nm' op False ok(2) by (simp add: file_stands_def)
    next
      case True
      then obtain fd where fd: "\<forall>fd'. f_open a fd' = Some q \<longleftrightarrow> fd' = fd" "file_open sha D (bb, s) fd ?p sz af"
        using st f by (auto simp: file_stands_def)
      obtain i where i: "cfs_get_file (cfs bb) fd = Some i" "opened sha D (cfs bb) i af s" "f_path (files (cfs bb) ! i) = ?p"
        "f_size (files (cfs bb) ! i) = sz" "f_fd (files (cfs bb) ! i) = fd" "s32 fd = fd" "fd \<noteq> -1"
        using fd(2) by (auto simp: file_open_def)
      note k = h [OF _ i(1)]
      have k: "cfs_get_file st' fd = Some i" "files st' ! i = files (cfs bb) ! i" "i < length (files st')" "get_fd s' fd = get_fd s fd"
        using k fd(1) by simp_all
      have "opened sha D st' i af s'"
        using opened_spared [OF i(2) _ ok(1) _ ok(2,3) k(3,2)] sp' i(3,5) k(4) by simp
      then have "file_open sha D (bb\<lparr>cfs := st'\<rparr>, s') fd ?p sz af"
        using i(3-7) k(1,2) by (simp add: file_open_def)
      then show ?thesis using True f same op nm nm' fd(1) by (auto simp: file_stands_def)
    qed
  qed
qed

text \<open>The root directory, the block store and the directories stay where they are, and \<open>refs_valid\<close> is as before.\<close>

definition lasts :: "(byte list \<Rightarrow> byte list) \<Rightarrow> byte list set \<Rightarrow> fs_spec \<Rightarrow> bb_state \<times> os \<Rightarrow> bb_state \<times> os \<Rightarrow> bool" where
  "lasts sha D a c c' \<longleftrightarrow> fs_stands sha D a c' \<and> rootdir (fst c') = rootdir (fst c) \<and>
     storage (cfs (fst c')) = storage (cfs (fst c)) \<and> (\<forall>x. is_dir (snd c) x \<longrightarrow> is_dir (snd c') x) \<and>
     refs_valid (snd c') = refs_valid (snd c)"

lemma fs_stands_step:
  assumes st: "fs_stands sha D a (bb, s)"
    and ok: "session_ok st' s'" "store_ok sha D (storage (cfs bb)) s'" "storage st' = storage (cfs bb)" "free_fds s' = f_room a'"
    and new: "file_stands sha D a' path (bb\<lparr>cfs := st'\<rparr>, s')" "fs_names a' \<subseteq> fs_names a"
      "path \<in> dom (f_files a') \<Longrightarrow> path \<in> dom (f_files a) \<and> names s' (rootdir bb @ path) = names s (rootdir bb @ path) \<or>
        (\<forall>x. names s x \<noteq> names s' (rootdir bb @ path))"
    and others: "\<And>q. q \<in> fs_names a \<Longrightarrow> q \<noteq> path \<Longrightarrow> spares sha D (storage (cfs bb)) (rootdir bb @ q) s s'"
    and same: "\<And>q. q \<noteq> path \<Longrightarrow> f_files a' q = f_files a q"
      "\<And>q. q \<noteq> path \<Longrightarrow> q \<in> f_free a' \<longleftrightarrow> q \<in> f_free a" "\<And>q fd. q \<noteq> path \<Longrightarrow> f_open a' fd = Some q \<longleftrightarrow> f_open a fd = Some q"
    and h: "handles_kept a path (cfs bb) s st' s'"
    and dirs: "\<And>x. is_dir s x \<Longrightarrow> is_dir s' x" and rv: "refs_valid s' = refs_valid s"
  shows "lasts sha D a' (bb, s) (bb\<lparr>cfs := st'\<rparr>, s')"
proof -
  note u = st [unfolded fs_stands_def prod.case]
  have lk: "lock st' = lock (cfs bb)" using ok(1) u by (simp add: session_ok_def registry_ok_def)
  have "file_stands sha D a' q (bb\<lparr>cfs := st'\<rparr>, s')" for q
  proof (cases "q = path")
    case False
    show ?thesis
    proof (rule file_stands_spared [OF _ same(1-3) [OF False] _ _ ok(2,3) lk])
      show "file_stands sha D a q (bb, s)" using u by blast
      show "spares sha D (storage (cfs bb)) (rootdir bb @ q) s s'" if "f_files a q \<noteq> None \<or> q \<in> f_free a"
        using others [OF _ False] that by (auto simp: fs_names_def)
    qed (rule handles_keptD [OF h _ False])
  qed (use new(1) in simp)
  moreover have "usable sha D q (bb\<lparr>cfs := st'\<rparr>, s')" if "q \<in> fs_names a'" for q
    using u new(2) that dirs ok(3) by (auto simp: usable_def)
  moreover have "q = r" if "q \<in> dom (f_files a')" "r \<in> dom (f_files a')" "names s' (rootdir bb @ q) = names s' (rootdir bb @ r)" for q r
  proof -
    have k: "names s' (rootdir bb @ x) = names s (rootdir bb @ x)" "x \<in> dom (f_files a)" if "x \<in> dom (f_files a')" "x \<noteq> path" for x
      using that same(1) [OF that(2)] others [OF _ that(2)] by (auto simp: spares_def fs_names_def domIff)
    show ?thesis
      using that k new(3) u by (cases "q = path"; cases "r = path") metis+
  qed
  ultimately show ?thesis using ok dirs rv by (simp add: fs_stands_def lasts_def)
qed

subsection \<open>Requests\<close>

lemma stands_open:
  assumes "fs_stands sha D a (bb, s)" "f_open a fd = Some path"
  obtains sz af i where "f_files a path = Some (sz, af)" "cfs_get_file (cfs bb) fd = Some i" "opened sha D (cfs bb) i af s"
    "f_path (files (cfs bb) ! i) = rootdir bb @ path" "f_size (files (cfs bb) ! i) = sz" "f_fd (files (cfs bb) ! i) = fd"
    "s32 fd = fd" "fd \<noteq> -1" "\<And>fd'. f_open a fd' = Some path \<longleftrightarrow> fd' = fd"
proof -
  have op: "open_path a path" using assms(2) by (auto simp: open_path_def)
  have st: "file_stands sha D a path (bb, s)" using assms(1) by (simp add: fs_stands_def)
  then obtain sz af where f: "f_files a path = Some (sz, af)"
    using op by (cases "f_files a path") (auto simp: file_stands_def)
  then obtain fd1 where "\<forall>fd'. f_open a fd' = Some path \<longleftrightarrow> fd' = fd1" "file_open sha D (bb, s) fd1 (rootdir bb @ path) sz af"
    using st op by (auto simp: file_stands_def)
  moreover from this(1) have "fd1 = fd" using assms(2) by simp
  ultimately show ?thesis using f that by (auto simp: file_open_def)
qed

lemma stands_closed:
  assumes "fs_stands sha D a (bb, s)" "f_files a path = Some (sz, af)" "\<not> open_path a path"
  shows "closed_file sha D (storage (cfs bb)) (rootdir bb @ path) sz af s"
proof -
  have "file_stands sha D a path (bb, s)" using assms(1) by (simp add: fs_stands_def)
  then show ?thesis using assms(2,3) by (simp add: file_stands_def)
qed

lemma stands_usable:
  assumes "fs_stands sha D a (bb, s)" "path \<in> fs_names a"
  shows "bb_fullpath bb path = Some (rootdir bb @ path)" "rootdir bb @ path \<notin> block_of sha (storage (cfs bb)) ` D"
    "is_dir s (parent_of (rootdir bb @ path))"
proof -
  have "usable sha D path (bb, s)" using assms by (simp add: fs_stands_def)
  then show "bb_fullpath bb path = Some (rootdir bb @ path)" "rootdir bb @ path \<notin> block_of sha (storage (cfs bb)) ` D"
    "is_dir s (parent_of (rootdir bb @ path))"
    by (simp_all add: usable_def bb_fullpath_def)
qed

lemma stands_apart:
  assumes "fs_stands sha D a (bb, s)" "f_files a path \<noteq> None" "q \<in> fs_names a" "q \<noteq> path"
  shows "names s (rootdir bb @ q) \<noteq> names s (rootdir bb @ path)"
proof -
  note u = assms(1) [unfolded fs_stands_def prod.case]
  have n: "names s (rootdir bb @ path) \<noteq> None"
    using u assms(2) by (fastforce simp: file_stands_def split: option.splits)
  show ?thesis
  proof (cases "f_files a q")
    case None
    have "file_stands sha D a q (bb, s)" using u by blast
    then have "names s (rootdir bb @ q) = None" using None assms(3) by (auto simp: file_stands_def fs_names_def)
    then show ?thesis using n by metis
  next
    case (Some x)
    then show ?thesis using u assms(2,4) by blast
  qed
qed

lemma is_dir_evolves:
  assumes "evolves sha D bs p fd s s'" "os_wf s" "names s p = Some n" "inodes s n = Some (Reg c)" "is_dir s x"
  shows "is_dir s' x"
proof -
  obtain m where m: "names s x = Some m" "inodes s m = Some Dir"
    using assms(5) by (auto simp: is_dir_def split: option.splits)
  then have "m \<noteq> n" "m < next_ino s" using assms(2,4) by (auto simp: os_wf_def)
  then have "names s' x = Some m" "inodes s' m = inodes s m" using assms(1,3) m(1) by (simp_all add: evolves_def)
  then show ?thesis using m by (simp add: is_dir_def)
qed

lemma handles_kept_entry:
  assumes "fs_stands sha D a (bb, s)" "f_open a fd = Some path" "cfs_get_file (cfs bb) fd = Some i"
    and "fds st' = fds (cfs bb)" "length (files st') = length (files (cfs bb))"
    and "\<And>j. j \<noteq> i \<Longrightarrow> files st' ! j = files (cfs bb) ! j" "\<And>fd'. fd' \<noteq> fd \<Longrightarrow> get_fd s' fd' = get_fd s fd'"
  shows "handles_kept a path (cfs bb) s st' s'"
  unfolding handles_kept_def
proof (intro allI impI, elim conjE)
  fix fd' j
  assume o: "f_open a fd' \<noteq> None" "f_open a fd' \<noteq> Some path" "cfs_get_file (cfs bb) fd' = Some j"
  then obtain q where q: "f_open a fd' = Some q" by blast
  have ne: "fd' \<noteq> fd" using o(2) assms(2) by auto
  obtain j' af where j': "cfs_get_file (cfs bb) fd' = Some j'" "opened sha D (cfs bb) j' af s" "f_fd (files (cfs bb) ! j') = fd'"
    using stands_open [OF assms(1) q] by metis
  obtain i' where i': "cfs_get_file (cfs bb) fd = Some i'" "f_fd (files (cfs bb) ! i') = fd"
    using stands_open [OF assms(1,2)] by metis
  have "j \<noteq> i" using j' i' o(3) assms(3) ne by auto
  then show "cfs_get_file st' fd' = Some j \<and> files st' ! j = files (cfs bb) ! j \<and> j < length (files st') \<and> get_fd s' fd' = get_fd s fd'"
    using o(3) assms(4-7) ne j'(1,2) opened_range by (auto simp: cfs_get_file_def)
qed

definition fs_serve ::
  "(byte list \<Rightarrow> byte list) \<Rightarrow> calls \<Rightarrow> request \<Rightarrow> bb_state \<times> os \<Rightarrow> (reply \<times> bb_state \<times> os) option" where
  "fs_serve sha c rq st = (case st of (bb, s) \<Rightarrow>
     map_option (\<lambda>((r, bb), s). (r, bb, s)) (bb_oper sha c rq bb s))"

end
