(* ===== verification/Sections.thy ===== *)
theory Sections
  imports File_System
begin

text \<open>
  What a state that stands for a specification provides, and the operations on open files in the pieces between which
  another thread may run: reading and writing a block, the system call of \<open>bb_open\<close> and the critical section that
  enters its descriptor into the registry, the one of \<open>bb_release\<close> that takes it out and the system call that closes it.
\<close>

subsection \<open>What stands\<close>

lemma bb_same [simp]: "bb\<lparr>cfs := cfs bb\<rparr> = bb"
  by simp

lemma is_dir_same: "names s' = names s \<Longrightarrow> inodes s' = inodes s \<Longrightarrow> is_dir s' x = is_dir s x"
  by (simp only: is_dir_def)

lemma whole_blocks: "n mod 4096 = 0 \<Longrightarrow> \<exists>m. n = 4096 * (m :: nat)"
  by (metis mod_0_imp_dvd dvd_def)

lemma whole_offset: "0 \<le> off \<Longrightarrow> off mod 4096 = 0 \<Longrightarrow> off = 4096 * int (nat (off div 4096))"
  using pos_imp_zdiv_nonneg_iff [of 4096 off] by auto

lemma spares_evolves_free:
  assumes "evolves sha D bs p fd s s'" "names s q = None" "q \<notin> block_of sha bs ` D"
  shows "spares sha D bs q s s'"
proof -
  have "names s' q = None" using assms unfolding evolves_def by (metis option.exhaust option.distinct(1))
  moreover have "names s' x \<noteq> None" if "names s x \<noteq> None" for x using assms(1) that by (auto simp: evolves_def)
  ultimately show ?thesis using assms(2) by (simp add: spares_def)
qed

lemma stands_named:
  assumes "fs_stands sha D a (bb, s)" "f_files a path \<noteq> None"
  shows "path \<notin> f_free a" "names s (rootdir bb @ path) \<noteq> None"
proof -
  have "file_stands sha D a path (bb, s)" using assms(1) by (simp add: fs_stands_def)
  then show "path \<notin> f_free a" "names s (rootdir bb @ path) \<noteq> None"
    using assms(2) by (auto simp: file_stands_def split: option.splits)
qed

lemma stands_free:
  assumes "fs_stands sha D a (bb, s)" "path \<in> f_free a"
  shows "f_files a path = None" "names s (rootdir bb @ path) = None" "\<not> open_path a path"
proof -
  have "file_stands sha D a path (bb, s)" using assms(1) by (simp add: fs_stands_def)
  then show "f_files a path = None" "names s (rootdir bb @ path) = None" "\<not> open_path a path"
    using assms(2) by (auto simp: file_stands_def split: option.splits)
qed

lemma stands_parts:
  assumes "fs_stands sha D a (bb, s)"
  shows "session_ok (cfs bb) s" "store_ok sha D (storage (cfs bb)) s" "os_wf s" "ideal s" "free_fds s = f_room a"
    "first_free s \<noteq> None"
proof -
  show "store_ok sha D (storage (cfs bb)) s" using assms by (simp add: fs_stands_def)
  note ok = store_okD [OF this]
  show "session_ok (cfs bb) s" "os_wf s" "ideal s" "free_fds s = f_room a" "first_free s \<noteq> None"
    using assms ok(1-3) by (simp_all add: fs_stands_def ready_def)
qed

text \<open>Operations on an open file, which may store blocks.\<close>

lemma stands_evolved:
  assumes st: "fs_stands sha D a (bb, s)" and fd: "f_open a fd = Some path" "cfs_get_file (cfs bb) fd = Some i"
    and op: "opened sha D st' i af' s'" "advanced i n (cfs bb) st'"
    and ev: "evolves sha D (storage (cfs bb)) (rootdir bb @ path) fd s s'"
    and sz: "f_files a path = Some (sz, af)"
  shows "lasts sha D (a\<lparr>f_files := (f_files a)(path \<mapsto> (sz + of_nat n, af'))\<rparr>) (bb, s) (bb\<lparr>cfs := st'\<rparr>, s')"
proof (rule fs_stands_step [OF st])
  note p = stands_parts [OF st]
  obtain sz1 af1 i1 where o1: "f_files a path = Some (sz1, af1)" "cfs_get_file (cfs bb) fd = Some i1" "opened sha D (cfs bb) i1 af1 s"
    "f_path (files (cfs bb) ! i1) = rootdir bb @ path" "f_size (files (cfs bb) ! i1) = sz1" "f_fd (files (cfs bb) ! i1) = fd"
    "s32 fd = fd" "fd \<noteq> -1" "\<And>fd'. f_open a fd' = Some path \<longleftrightarrow> fd' = fd"
    using stands_open [OF st fd(1)] by metis
  have i: "i1 = i" "sz1 = sz" "af1 = af" using o1(1,2) fd(2) sz by simp_all
  note o = o1 [unfolded i]
  have rg: "i < length (files (cfs bb))" using opened_range [OF o(3)] .
  note fr = advanced_frame(1) [OF op(2)] advanced_frame(2) [OF op(2) rg]
  show "session_ok st' s'" by (rule session_ok_evolves [OF p(1) ev op(2)])
  show "store_ok sha D (storage (cfs bb)) s'" using opened_store [OF op(1)] fr(1) by simp
  show "storage st' = storage (cfs bb)" using fr(1) by simp
  show "free_fds s' = f_room (a\<lparr>f_files := (f_files a)(path \<mapsto> (sz + of_nat n, af'))\<rparr>)"
    using free_fds_evolves [OF ev] p(5) by simp
  obtain f where f: "on_disk sha D (cfs bb) i af f s" using o(3) by (auto simp: opened_def)
  have nm: "names s (rootdir bb @ path) = Some (of_ino f)" using f o(4) by (simp add: on_disk_def)
  then have nm': "names s' (rootdir bb @ path) = Some (of_ino f)" using ev by (simp add: evolves_def)
  have op': "open_path a path" using fd(1) by (auto simp: open_path_def)
  have "path \<notin> f_free a" using stands_named [OF st] o(1) by simp
  moreover have "file_open sha D (bb\<lparr>cfs := st'\<rparr>, s') fd (rootdir bb @ path) (sz + of_nat n) af'"
    using op(1) o fr fd(2) by (simp add: file_open_def cfs_get_file_def)
  ultimately show "file_stands sha D (a\<lparr>f_files := (f_files a)(path \<mapsto> (sz + of_nat n, af'))\<rparr>) path (bb\<lparr>cfs := st'\<rparr>, s')"
    using o(9) nm' op' by (auto simp: file_stands_def open_path_def)
  show "spares sha D (storage (cfs bb)) (rootdir bb @ q) s s'" if "q \<in> fs_names a" "q \<noteq> path" for q
  proof (cases "f_files a q")
    case None
    then have "q \<in> f_free a" using that(1) by (auto simp: fs_names_def)
    then show ?thesis using spares_evolves_free [OF ev] stands_free(2) [OF st] stands_usable(2) [OF st that(1)] by simp
  next
    case (Some x)
    then show ?thesis
      using spares_evolves [OF ev p(3) stands_apart [OF st _ that] stands_named(2) [OF st]] o(1) by simp
  qed
  show "handles_kept a path (cfs bb) s st' s'"
    by (rule handles_kept_entry [OF st fd]) (use fr advanced_other [OF op(2)] ev in \<open>simp_all add: evolves_def\<close>)
  show "refs_valid s' = refs_valid s" by (rule evolves_refs [OF ev])
  obtain c where "inodes s (of_ino f) = Some (Reg c)" using f by (auto simp: on_disk_def live_def)
  then show "is_dir s' x" if "is_dir s x" for x by (rule is_dir_evolves [OF ev p(3) nm _ that])
  show "path \<in> dom (f_files a) \<and> names s' (rootdir bb @ path) = names s (rootdir bb @ path) \<or>
    (\<forall>x. names s x \<noteq> names s' (rootdir bb @ path))" using sz nm nm' by auto
qed (use sz in \<open>auto simp: fs_names_def open_path_def\<close>)

lemma stands_lookup:
  assumes "fs_stands sha D a (bb, s)" "f_open a fh = Some path" "f_files a path = Some (sz, af)"
  obtains i where "cfs_get_file (cfs bb) (s32 fh) = Some i" "cfs_get_file (cfs bb) fh = Some i" "opened sha D (cfs bb) i af s"
    "f_path (files (cfs bb) ! i) = rootdir bb @ path" "f_size (files (cfs bb) ! i) = sz" "f_fd (files (cfs bb) ! i) = fh"
    "s32 fh = fh" "fh \<noteq> -1"
  using stands_open [OF assms(1,2)] assms(3) by (metis fst_conv option.inject snd_conv)

lemma stands_handle:
  assumes "fs_stands sha D a (bb, s)" "f_open a fd \<noteq> None"
  shows "get_fd s fd \<noteq> None" "fd \<noteq> -1" "cfs_get_file (cfs bb) fd = Some i \<Longrightarrow> i < length (files (cfs bb))"
proof -
  obtain path where p: "f_open a fd = Some path" using assms(2) by blast
  obtain sz af j where j: "cfs_get_file (cfs bb) fd = Some j" "opened sha D (cfs bb) j af s" "f_fd (files (cfs bb) ! j) = fd" "fd \<noteq> -1"
    using stands_open [OF assms(1) p] by metis
  then show "get_fd s fd \<noteq> None" by (auto simp: opened_def on_disk_def live_def)
  show "fd \<noteq> -1" by (rule j(4))
  show "i < length (files (cfs bb))" if "cfs_get_file (cfs bb) fd = Some i" using j(1) opened_range [OF j(2)] that by simp
qed

lemma stands_inode:
  assumes "fs_stands sha D a (bb, s)" "f_files a path = Some (sz, af)"
  obtains n where "names s (rootdir bb @ path) = Some n" "length af < 100000000"
    "inodes s n = Some (Reg (file_image sz (of_nat (length af)) (table_of sha af)))"
proof (cases "open_path a path")
  case True
  then obtain fd where "f_open a fd = Some path" by (auto simp: open_path_def)
  then obtain i where "opened sha D (cfs bb) i af s" "f_path (files (cfs bb) ! i) = rootdir bb @ path" "f_size (files (cfs bb) ! i) = sz"
    using stands_lookup [OF assms(1) _ assms(2)] by metis
  then show ?thesis using that by (auto simp: opened_def on_disk_def live_def)
next
  case False
  then show ?thesis using stands_closed [OF assms False] that by (auto simp: closed_file_def)
qed

lemma stands_descriptors:
  assumes st: "fs_stands sha D a (bb, s)" and ok: "store_ok sha D (storage (cfs bb)) s'" "names s' = names s" "inodes s' = inodes s"
    and fd: "length (fdtab s') = length (fdtab s)" "\<And>fd. fd \<in> set (fds (cfs bb)) \<Longrightarrow> fd \<noteq> -1 \<Longrightarrow> get_fd s' fd = get_fd s fd"
    and room: "free_fds s' = n" and rv: "refs_valid s' = refs_valid s"
  shows "lasts sha D (a\<lparr>f_room := n\<rparr>) (bb, s) (bb, s')"
proof -
  let ?a = "a\<lparr>f_room := n\<rparr>"
  note q = stands_parts [OF st]
  have "get_fd s' fd' \<noteq> None" if "fd' \<in> set (fds (cfs bb))" "fd' \<noteq> -1" for fd'
    using q(1) fd(2) that by (metis session_ok_def)
  then have "session_ok (cfs bb) s'" using q(1) fd(1) by (simp add: session_ok_def)
  moreover have "file_stands sha D ?a path (bb\<lparr>cfs := cfs bb\<rparr>, s')" for path
  proof (rule file_stands_spared [OF _ _ _ _ spares_same [OF ok(2,3)] _ ok(1) refl refl])
    show "file_stands sha D a path (bb, s)" using st by (simp add: fs_stands_def)
    show "cfs_get_file (cfs bb) fd' = Some i \<and> files (cfs bb) ! i = files (cfs bb) ! i \<and> i < length (files (cfs bb)) \<and>
      get_fd s' fd' = get_fd s fd'" if "f_open a fd' = Some path" "cfs_get_file (cfs bb) fd' = Some i" for fd' i
    proof -
      have "f_open a fd' \<noteq> None" using that(1) by simp
      moreover have "fd' \<in> set (fds (cfs bb))" using get_file_mem [of "cfs bb" fd'] that(2) by simp
      ultimately show ?thesis using stands_handle(2,3) [OF st] fd(2) that(2) by blast
    qed
  qed simp_all
  moreover have "usable sha D path (bb, s')" if "path \<in> fs_names ?a" for path
    using st that is_dir_same [OF ok(2,3)] by (simp add: fs_stands_def usable_def fs_names_def)
  moreover have "dom (f_files ?a) = dom (f_files a)" by simp
  ultimately show ?thesis using st ok(1) room rv is_dir_same [OF ok(2,3)] unfolding fs_stands_def lasts_def by (simp add: ok(2))
qed

lemma lasts_trans: "lasts sha D a1 c c1 \<Longrightarrow> lasts sha D a2 c1 c2 \<Longrightarrow> lasts sha D a2 c c2"
  by (simp add: lasts_def)

subsection \<open>A descriptor that no handle stands for\<close>

definition loose :: "fs_spec \<Rightarrow> int \<Rightarrow> bb_state \<times> os \<Rightarrow> bool" where
  "loose a fd c \<longleftrightarrow> (case c of (bb, s) \<Rightarrow> get_fd s fd \<noteq> None \<and> fd \<notin> set (fds (cfs bb)) \<and> f_open a fd = None \<and>
     s32 fd = fd \<and> u64 fd = fd \<and> 0 \<le> fd)"

text \<open>Just opened: at the start of the file at \<open>path\<close>.\<close>

definition fresh_fd :: "fs_spec \<Rightarrow> path \<Rightarrow> int \<Rightarrow> bb_state \<times> os \<Rightarrow> bool" where
  "fresh_fd a path fd c \<longleftrightarrow> loose a fd c \<and> (case c of (bb, s) \<Rightarrow> \<exists>n. names s (rootdir bb @ path) = Some n \<and>
     get_fd s fd = Some \<lparr>of_ino = n, of_pos = 0, of_rd = True, of_wr = True, of_lock = F_UNLCK\<rparr>)"

lemma stands_registered: "fs_stands sha D a (bb, s) \<Longrightarrow> fd \<in> set (fds (cfs bb)) \<Longrightarrow> fd \<noteq> -1 \<Longrightarrow> get_fd s fd \<noteq> None"
  using stands_parts(1) by (metis session_ok_def)

lemma stands_fd_small: "fs_stands sha D a (bb, s) \<Longrightarrow> get_fd s fd \<noteq> None \<Longrightarrow> s32 fd = fd \<and> u64 fd = fd \<and> 0 \<le> fd"
  using stands_parts(1) [of sha D a bb s] get_fd_range [of s fd] by (auto simp: session_ok_def fd_range_def)

lemma upd_file_fd: "fd_range s fd \<Longrightarrow> get_fd (upd_file s fd f c) fd' = (if fd' = fd then Some f else get_fd s fd')"
  using get_fd_upd_file_other [of fd fd' s f c] by (auto simp: upd_file_def fd_range_def simp del: set_fd_push)

text \<open>The system call of \<open>bb_open\<close>.\<close>

lemma open_call:
  assumes st: "fs_stands sha D a (bb, s)" and f: "f_files a path \<noteq> None" and room: "2 \<le> f_room a"
  shows "\<exists>fd s'. sys_open (rootdir bb @ path) O_RDWR s = (fd, s') \<and> lasts sha D (a\<lparr>f_room := f_room a - 1\<rparr>) (bb, s) (bb, s') \<and>
    get_fd s fd = None \<and> fresh_fd (a\<lparr>f_room := f_room a - 1\<rparr>) path fd (bb, s') \<and>
    (\<forall>fd'. fd' \<noteq> fd \<longrightarrow> get_fd s' fd' = get_fd s fd') \<and> names s' = names s"
proof -
  note q = stands_parts [OF st]
  obtain sz af where fl: "f_files a path = Some (sz, af)" using f by fastforce
  let ?p = "rootdir bb @ path" and ?c = "file_image sz (of_nat (length af)) (table_of sha af)"
  obtain n where n: "names s ?p = Some n" "inodes s n = Some (Reg ?c)" using stands_inode [OF st fl] by metis
  obtain fd where fd: "first_free s = Some fd" using q(6) by blast
  note ff = first_free_Some [OF fd]
  let ?f = "\<lparr>of_ino = n, of_pos = 0, of_rd = True, of_wr = True, of_lock = F_UNLCK\<rparr>"
  let ?s = "upd_file s fd ?f ?c" and ?a = "a\<lparr>f_room := f_room a - 1\<rparr>"
  have lt: "of_ino ?f < next_ino s" "inodes s (of_ino ?f) = Some (Reg ?c)" using q(3) n by (auto simp: os_wf_def)
  have others: "get_fd ?s fd' = get_fd s fd'" if "fd' \<noteq> fd" for fd' using that ff by simp
  have la: "lasts sha D ?a (bb, s) (bb, ?s)"
  proof (rule stands_descriptors [OF st])
    show "store_ok sha D (storage (cfs bb)) ?s" by (rule store_ok_open [OF q(2) fd _ lt(2,1)]) (use q(5) room in simp)
    show "inodes ?s = inodes s" by (rule upd_file_fresh(2) [OF fd q(3) lt(2,1)])
    show "get_fd ?s fd' = get_fd s fd'" if "fd' \<in> set (fds (cfs bb))" "fd' \<noteq> -1" for fd'
      using stands_registered [OF st that] ff others by (cases "fd' = fd") simp_all
    show "free_fds ?s = f_room a - 1" using free_fds_open [OF fd, of ?f ?c] q(5) by simp
  qed (simp_all add: upd_file_def)
  have g: "get_fd ?s fd = Some ?f" using ff by (simp add: upd_file_def del: set_fd_push)
  have st': "fs_stands sha D ?a (bb, ?s)" using la by (simp add: lasts_def)
  have "fd \<notin> set (fds (cfs bb))" using stands_registered [OF st, of fd] ff by auto
  moreover have "f_open a fd = None" using stands_handle(1) [OF st, of fd] ff by metis
  ultimately have "fresh_fd ?a path fd (bb, ?s)"
    using stands_fd_small [OF st', of fd] g n(1) by (simp add: fresh_fd_def loose_def)
  moreover have "sys_open ?p O_RDWR s = (fd, ?s)" by (rule open_existing [OF q(4) n fd])
  ultimately show ?thesis using la ff others by (intro exI [of _ fd] exI [of _ ?s]) simp
qed

text \<open>The critical section of \<open>bb_open\<close>.\<close>

lemma fresh_position:
  assumes st: "fs_stands sha D a (bb, s)" and l: "live s fd f c" and f': "of_ino f' = of_ino f"
  shows "evolves sha D bs p fd s (upd_file s fd f' c)" "names (upd_file s fd f' c) = names s"
    "inodes (upd_file s fd f' c) = inodes s" "os_wf (upd_file s fd f' c)" "free_fds (upd_file s fd f' c) = free_fds s"
    "store_ok sha D (storage (cfs bb)) (upd_file s fd f' c)"
proof -
  note q = stands_parts [OF st]
  let ?s = "upd_file s fd f' c"
  have rg: "fd_range s fd" using live_range [OF l] .
  have g: "get_fd s fd = Some f" "inodes s (of_ino f) = Some (Reg c)" using l by (simp_all add: live_def)
  show n: "names ?s = names s" by simp
  show i: "inodes ?s = inodes s" using g(2) f' by (simp add: fun_upd_idem)
  have fd: "get_fd ?s fd' = (if fd' = fd then Some f' else get_fd s fd')" for fd' by (rule upd_file_fd [OF rg])
  show ev: "evolves sha D bs p fd s ?s" for bs p using g fd i by (simp add: evolves_def upd_file_def del: set_fd_push)
  show fr: "free_fds ?s = free_fds s" by (rule free_fds_evolves [OF ev])
  show wf: "os_wf ?s" using q(3) g(1) fd f' by (auto simp: os_wf_def)
  have "is_dir ?s x = is_dir s x" for x by (rule is_dir_same [OF n i])
  moreover have "reg_content ?s x = reg_content s x" for x by (simp only: reg_content_def n i)
  moreover have "first_free ?s \<noteq> None" using q(6) fr free_fds_first by metis
  ultimately show "store_ok sha D (storage (cfs bb)) ?s"
    using q(2,4) wf n by (simp add: store_ok_def ready_def stored_def)
qed

lemma register_call:
  assumes st: "fs_stands sha D a (bb, s)" and f: "f_files a path \<noteq> None" "\<not> open_path a path" and fr: "fresh_fd a path fd (bb, s)"
  shows "\<exists>st' s'. cfs_register_file (cfs bb) (rootdir bb @ path) fd s = Some ((fd, st'), s') \<and>
    lasts sha D (a\<lparr>f_open := (f_open a)(fd \<mapsto> path)\<rparr>) (bb, s) (bb\<lparr>cfs := st'\<rparr>, s') \<and>
    entered (cfs bb) (rootdir bb @ path) fd st' \<and> (\<forall>fd'. fd' \<noteq> fd \<longrightarrow> get_fd s' fd' = get_fd s fd') \<and> names s' = names s"
proof -
  note q = stands_parts [OF st]
  obtain sz af where fl: "f_files a path = Some (sz, af)" using f by fastforce
  have nm: "path \<in> fs_names a" using fl by (auto simp: fs_names_def)
  let ?p = "rootdir bb @ path" and ?c = "file_image sz (of_nat (length af)) (table_of sha af)" and ?bs = "storage (cfs bb)"
  obtain n f where n: "names s ?p = Some n" "get_fd s fd = Some f" "f = \<lparr>of_ino = n, of_pos = 0, of_rd = True, of_wr = True, of_lock = F_UNLCK\<rparr>"
    and lo: "fd \<notin> set (fds (cfs bb))" "f_open a fd = None" "s32 fd = fd" "u64 fd = fd" "0 \<le> fd"
    using fr by (auto simp: fresh_fd_def loose_def)
  have i: "inodes s n = Some (Reg ?c)" using stands_inode [OF st fl] n(1) by (metis option.inject)
  have l: "live s fd f ?c" using n i by (simp add: live_def)
  let ?f = "f\<lparr>of_pos := 23\<rparr>"
  let ?s = "upd_file s fd ?f ?c"
  have same: "of_ino ?f = of_ino f" by simp
  note fp = fresh_position [OF st l same]
  have rg: "fd_range s fd" using live_range [OF l] .
  have g: "get_fd ?s fd' = (if fd' = fd then Some ?f else get_fd s fd')" for fd' by (rule upd_file_fd [OF rg])
  have r: "registry_ok (cfs bb)" "fd \<noteq> -1" using q(1) lo(5) by (simp_all add: session_ok_def)
  have pl: "length ?p < PATH_MAX" using stands_usable(1) [OF st nm] by (simp add: bb_fullpath_def Let_def split: if_splits)
  obtain j st' where st': "cfs_register_file (cfs bb) ?p fd s = Some ((fd, st'), ?s)"
    "registry_ok st'" "entered (cfs bb) ?p fd st'" "cfs_get_file st' fd = Some j" "j < length (files st')"
    "files st' ! j = \<lparr>f_path = ?p, f_offset = 0, f_size = sz, f_total_blocks = of_nat (length af), f_fd = fd\<rparr>"
    using register_live [OF r(1) lo(1) r(2) session_bound [OF q(1)] q(4) l _ refl pl] n(3) by auto
  have sto: "storage st' = ?bs" using st'(3) by (simp add: entered_def)
  let ?a = "a\<lparr>f_open := (f_open a)(fd \<mapsto> path)\<rparr>"
  have cl: "closed_file sha D ?bs ?p sz af s" by (rule stands_closed [OF st fl f(2)])
  have "on_disk sha D st' j af ?f ?s"
    using cl n(1,3) fp(6) st'(2,5,6) sto rg by (auto simp: on_disk_def closed_file_def registry_ok_def apart_def)
  then have op: "opened sha D st' j af ?s" by (auto simp: opened_def)
  have "lasts sha D ?a (bb, s) (bb\<lparr>cfs := st'\<rparr>, ?s)"
  proof (rule fs_stands_step [OF st _ fp(6) sto])
    show "session_ok st' ?s"
    proof (rule session_ok_entered [OF q(1) st'(2,3)])
      show "length (fdtab ?s) = length (fdtab s)" by (simp add: upd_file_def)
    qed (use g in auto)
    show "free_fds ?s = f_room ?a" using fp(5) q(5) by simp
    have o: "open_path ?a path" "\<forall>fd'. f_open ?a fd' = Some path \<longleftrightarrow> fd' = fd" using f(2) by (auto simp: open_path_def)
    moreover have "file_open sha D (bb\<lparr>cfs := st'\<rparr>, ?s) fd ?p sz af" using st'(4,6) op lo(3) r(2) by (simp add: file_open_def)
    ultimately show "file_stands sha D ?a path (bb\<lparr>cfs := st'\<rparr>, ?s)"
      using fl stands_named [OF st] by (simp add: file_stands_def) blast
    show "handles_kept a path (cfs bb) s st' ?s"
      unfolding handles_kept_def
    proof (intro allI impI, elim conjE)
      fix fd' k
      assume o: "f_open a fd' \<noteq> None" "cfs_get_file (cfs bb) fd' = Some k"
      then have "fd' \<noteq> fd" "fd' \<noteq> -1" using lo(2) stands_handle(2) [OF st] by auto
      then have "cfs_get_file st' fd' = Some k" "files st' ! k = files (cfs bb) ! k" "get_fd ?s fd' = get_fd s fd'"
        using st'(3) g o(2) by (simp_all add: entered_def)
      moreover from this(1) have "k < length (files st')"
        using st'(2) by (auto simp: registry_ok_def slots_ok_def cfs_get_file_def find_fd_Some)
      ultimately show "cfs_get_file st' fd' = Some k \<and> files st' ! k = files (cfs bb) ! k \<and> k < length (files st') \<and>
        get_fd ?s fd' = get_fd s fd'" by simp
    qed
    show "f_open ?a fd' = Some x \<longleftrightarrow> f_open a fd' = Some x" if "x \<noteq> path" for x fd' using that lo(2) by auto
    show "is_dir ?s x" if "is_dir s x" for x using is_dir_same [OF fp(2,3)] that by simp
  qed (use spares_same [OF fp(2,3)] fl in \<open>auto simp: fs_names_def\<close>)
  then show ?thesis using st'(1,3) g by (intro exI [of _ st'] exI [of _ ?s]) simp
qed

text \<open>The critical section of \<open>bb_release\<close>, and its system call.\<close>

lemma release_call:
  assumes st: "fs_stands sha D a (bb, s)" and p: "f_open a fh = Some path"
  shows "\<exists>st'. cfs_release_file (cfs bb) (s32 fh) = Some (0, st') \<and>
    lasts sha D (a\<lparr>f_open := (f_open a)(fh := None)\<rparr>) (bb, s) (bb\<lparr>cfs := st'\<rparr>, s) \<and>
    left (cfs bb) fh st' \<and> loose (a\<lparr>f_open := (f_open a)(fh := None)\<rparr>) fh (bb\<lparr>cfs := st'\<rparr>, s)"
proof -
  note q = stands_parts [OF st]
  obtain sz af where f: "f_files a path = Some (sz, af)" using stands_open [OF st p] by metis
  obtain i where i: "cfs_get_file (cfs bb) fh = Some i" "opened sha D (cfs bb) i af s"
    "f_path (files (cfs bb) ! i) = rootdir bb @ path" "f_size (files (cfs bb) ! i) = sz" "s32 fh = fh" "fh \<noteq> -1"
    using stands_lookup [OF st p f] by metis
  have only: "f_open a fd' = Some path \<longleftrightarrow> fd' = fh" for fd' using stands_open [OF st p] by metis
  have "registry_ok (cfs bb)" "fh \<in> set (fds (cfs bb))" using q(1) i(1) get_file_mem [of "cfs bb" fh] by (simp_all add: session_ok_def)
  then obtain st' where st': "cfs_release_file (cfs bb) fh = Some (0, st')" "registry_ok st'" "left (cfs bb) fh st'"
    using release_keeps i(6) by blast
  let ?a = "a\<lparr>f_open := (f_open a)(fh := None)\<rparr>"
  have la: "lasts sha D ?a (bb, s) (bb\<lparr>cfs := st'\<rparr>, s)"
  proof (rule fs_stands_step [OF st _ q(2)])
    show "session_ok st' s" by (rule session_ok_left [OF q(1) st'(2,3)]) simp_all
    show "storage st' = storage (cfs bb)" using st'(3) by (simp add: left_def)
    moreover have "\<not> open_path ?a path" using only by (simp add: open_path_def)
    moreover have "closed_file sha D (storage (cfs bb)) (rootdir bb @ path) sz af s"
      using i(2-4) by (auto simp: opened_def on_disk_def live_def closed_file_def)
    ultimately show "file_stands sha D ?a path (bb\<lparr>cfs := st'\<rparr>, s)" using f stands_named [OF st] by (simp add: file_stands_def)
    show "handles_kept a path (cfs bb) s st' s"
      using st'(3) only stands_handle(2,3) [OF st] unfolding handles_kept_def left_def by metis
    show "f_open ?a fd' = Some x \<longleftrightarrow> f_open a fd' = Some x" if "x \<noteq> path" for x fd' using that p by auto
  qed (use spares_same [OF refl refl] q(5) f in \<open>auto simp: fs_names_def\<close>)
  have "get_fd s fh \<noteq> None" using stands_handle(1) [OF st] p by simp
  moreover have "fh \<notin> set (fds st')" using st'(3) get_file_mem [of st' fh] by (simp add: left_def)
  ultimately have "loose ?a fh (bb\<lparr>cfs := st'\<rparr>, s)" using stands_fd_small [OF st] by (simp add: loose_def)
  then show ?thesis using st'(1,3) i(5) la by (intro exI [of _ st']) simp
qed

lemma close_call:
  assumes st: "fs_stands sha D a (bb, s)" and fd: "loose a fd (bb, s)"
  shows "\<exists>s'. sys_close (s32 fd) s = (0, s') \<and> lasts sha D (a\<lparr>f_room := f_room a + 1\<rparr>) (bb, s) (bb, s') \<and>
    (\<forall>fd'. fd' \<noteq> fd \<longrightarrow> get_fd s' fd' = get_fd s fd') \<and> names s' = names s"
proof -
  note q = stands_parts [OF st]
  obtain f where f: "get_fd s fd = Some f" and lo: "fd \<notin> set (fds (cfs bb))" "s32 fd = fd" "0 \<le> fd"
    using fd by (auto simp: loose_def)
  let ?s = "set_fd s fd None"
  have others: "get_fd ?s fd' = get_fd s fd'" if "fd' \<noteq> fd" for fd' using that lo(3) by simp
  have "lasts sha D (a\<lparr>f_room := f_room a + 1\<rparr>) (bb, s) (bb, ?s)"
  proof (rule stands_descriptors [OF st])
    show "store_ok sha D (storage (cfs bb)) ?s" by (rule store_ok_close [OF q(2)]) (simp add: f)
    show "free_fds ?s = f_room a + 1" using free_fds_close [OF f] q(5) by simp
    show "get_fd ?s fd' = get_fd s fd'" if "fd' \<in> set (fds (cfs bb))" for fd' by (rule others) (use that lo(1) in auto)
  qed (simp_all add: set_fd_def)
  moreover have "sys_close (s32 fd) s = (0, ?s)" using f lo(2) q(4) by (simp add: sys_close_def ideal_simps)
  ultimately show ?thesis using others by (intro exI [of _ ?s]) (simp add: set_fd_def)
qed

end
