(* ===== verification/Served.thy ===== *)
theory Served
  imports Sections
begin

text \<open>
  Every request the specification allows is served as it says: one lemma for each request, and the interpretation of
  the contract \<open>server\<close> on the table \<open>bb_oper\<close>.
\<close>

definition served ::
  "(byte list \<Rightarrow> byte list) \<Rightarrow> byte list set \<Rightarrow> calls \<Rightarrow> fs_spec \<Rightarrow> request \<Rightarrow> bb_state \<times> os \<Rightarrow> bool" where
  "served sha D c a rq st \<longleftrightarrow>
     (\<exists>r st'. fs_serve sha c rq st = Some (r, st') \<and> fs_correct a rq r \<and> lasts sha D (fs_after a rq r) st st')"

lemma servedI:
  "bb_oper sha c rq bb s = Some ((r, bb'), s') \<Longrightarrow> fs_correct a rq r \<Longrightarrow> lasts sha D (fs_after a rq r) (bb, s) (bb', s') \<Longrightarrow>
   served sha D c a rq (bb, s)"
  unfolding served_def by (intro exI [of _ r] exI [of _ "(bb', s')"]) (simp add: fs_serve_def)

lemma served_read:
  assumes st: "fs_stands sha D a (bb, s)" and al: "fs_allowed D a (Read buf sz offset fh)" and rv: "refs_valid s"
  shows "served sha D c a (Read buf sz offset fh) (bb, s)"
proof -
  have h: "f_open a fh \<noteq> None" "sz = int (length buf)" "length buf mod 4096 = 0" "length buf < 2147483648"
    "0 \<le> offset" "offset mod 4096 = 0" "offset + sz < 9223372036854775808" using al by simp_all
  obtain path where p: "f_open a fh = Some path" using h(1) by blast
  obtain sz1 af where f: "f_files a path = Some (sz1, af)" using stands_open [OF st p] by metis
  obtain i where i: "cfs_get_file (cfs bb) (s32 fh) = Some i" "cfs_get_file (cfs bb) fh = Some i" "opened sha D (cfs bb) i af s"
    "f_path (files (cfs bb) ! i) = rootdir bb @ path" "f_fd (files (cfs bb) ! i) = fh"
    using stands_lookup [OF st p f] by metis
  obtain m where m: "length buf = 4096 * m" using whole_blocks [OF h(3)] by blast
  let ?a = "nat (offset div 4096)"
  have off: "offset = 4096 * int ?a" by (rule whole_offset [OF h(5,6)])
  have "4096 * int ?a + 4096 * int m < 9223372036854775808" using h(2,7) m off by linarith
  then have "int (4096 * (?a + m)) < int 9223372036854775808" by (simp only: of_nat_mult of_nat_add of_nat_numeral distrib_left)
  then have "4096 * (?a + m) < 9223372036854775808" unfolding of_nat_less_iff .
  then obtain s' where r: "bb_read bb buf sz offset fh s = Some ((sz, pages af ?a buf, bb), s')"
    "opened sha D (cfs bb) i af s'" "evolves sha D (storage (cfs bb)) (rootdir bb @ path) fh s s'"
    using read_aligned [OF i(1,3) m _ h(4) [unfolded m]] rv h(2) off i(4,5) by (metis readable_valid)
  have "lasts sha D (a\<lparr>f_files := (f_files a)(path \<mapsto> (sz1 + of_nat 0, af))\<rparr>) (bb, s) (bb\<lparr>cfs := cfs bb\<rparr>, s')"
    by (rule stands_evolved [OF st p i(2) r(2) advanced_0 r(3) f])
  moreover have "a\<lparr>f_files := (f_files a)(path \<mapsto> (sz1 + of_nat 0, af))\<rparr> = a" using f by (simp add: fun_upd_idem)
  ultimately have "lasts sha D a (bb, s) (bb, s')" by simp
  then show ?thesis using r(1) p f by (intro servedI [where r = "Data sz (pages af ?a buf)" and bb' = bb and s' = s']) simp_all
qed

lemma served_write:
  assumes st: "fs_stands sha D a (bb, s)" and al: "fs_allowed D a (Write buf sz offset fh)"
  shows "served sha D c a (Write buf sz offset fh) (bb, s)"
proof -
  obtain path n af where h: "f_open a fh = Some path" "f_files a path = Some (n, af)" "sz = int (length buf)" "0 \<le> offset"
    "offset mod 4096 = 0" "fresh_blocks D af (nat (offset div 4096)) buf" using al by auto
  obtain i where i: "cfs_get_file (cfs bb) (s32 fh) = Some i" "cfs_get_file (cfs bb) fh = Some i" "opened sha D (cfs bb) i af s"
    "f_path (files (cfs bb) ! i) = rootdir bb @ path" "f_fd (files (cfs bb) ! i) = fh"
    using stands_lookup [OF st h(1,2)] by metis
  let ?a = "nat (offset div 4096)"
  have off: "offset = 4096 * int ?a" by (rule whole_offset [OF h(4,5)])
  obtain st' s' where w: "bb_write sha bb buf sz offset fh s = Some ((sz, bb\<lparr>cfs := st'\<rparr>), s')"
    "opened sha D st' i (af @ chunks ?a buf) s'" "advanced i (length buf) (cfs bb) st'"
    "evolves sha D (storage (cfs bb)) (rootdir bb @ path) fh s s'"
    using write_aligned [OF i(1,3) h(6)] h(3) off i(4,5) by metis
  have "lasts sha D (a\<lparr>f_files := (f_files a)(path \<mapsto> (n + of_nat (length buf), af @ chunks ?a buf))\<rparr>) (bb, s) (bb\<lparr>cfs := st'\<rparr>, s')"
    by (rule stands_evolved [OF st h(1) i(2) w(2,3,4) h(2)])
  then show ?thesis using w(1) h
    by (intro servedI [where r = "Status sz" and bb' = "bb\<lparr>cfs := st'\<rparr>" and s' = s']) simp_all
qed

text \<open>Opening and releasing are made of their sections.\<close>

lemma served_open:
  assumes st: "fs_stands sha D a (bb, s)" and al: "fs_allowed D a (Open path)"
  shows "served sha D c a (Open path) (bb, s)"
proof -
  have h: "f_files a path \<noteq> None" "\<not> open_path a path" "2 \<le> f_room a" using al by auto
  then have nm: "path \<in> fs_names a" by (auto simp: fs_names_def)
  let ?a = "a\<lparr>f_room := f_room a - 1\<rparr>"
  obtain fd s1 where o: "sys_open (rootdir bb @ path) O_RDWR s = (fd, s1)" "lasts sha D ?a (bb, s) (bb, s1)"
    "get_fd s fd = None" "fresh_fd ?a path fd (bb, s1)" using open_call [OF st h(1,3)] by blast
  have st1: "fs_stands sha D ?a (bb, s1)" using o(2) by (simp add: lasts_def)
  have "f_files ?a path \<noteq> None" "\<not> open_path ?a path" using h(1,2) by (simp_all add: open_path_def)
  then obtain st' s' where r: "cfs_register_file (cfs bb) (rootdir bb @ path) fd s1 = Some ((fd, st'), s')"
    "lasts sha D (?a\<lparr>f_open := (f_open ?a)(fd \<mapsto> path)\<rparr>) (bb, s1) (bb\<lparr>cfs := st'\<rparr>, s')"
    using register_call [OF st1 _ _ o(4)] by blast
  have lo: "0 \<le> fd" "u64 fd = fd" "f_open a fd = None" using o(4) by (simp_all add: fresh_fd_def loose_def)
  have "ideal s1" using stands_parts(4) [OF st1] .
  then have "bb_open bb path s = Some ((0, fd, bb\<lparr>cfs := st'\<rparr>), s')"
    using o(1) r(1) lo stands_usable(1) [OF st nm] by (simp add: bb_open_def ideal_simps)
  then show ?thesis using lasts_trans [OF o(2) r(2)] lo(3)
    by (intro servedI [where r = "Handle 0 fd" and bb' = "bb\<lparr>cfs := st'\<rparr>" and s' = s']) simp_all
qed

lemma served_release:
  assumes st: "fs_stands sha D a (bb, s)" and al: "fs_allowed D a (Release fh)"
  shows "served sha D c a (Release fh) (bb, s)"
proof -
  obtain path where p: "f_open a fh = Some path" using al by auto
  let ?a = "a\<lparr>f_open := (f_open a)(fh := None)\<rparr>"
  obtain st' where r: "cfs_release_file (cfs bb) (s32 fh) = Some (0, st')" "lasts sha D ?a (bb, s) (bb\<lparr>cfs := st'\<rparr>, s)"
    "loose ?a fh (bb\<lparr>cfs := st'\<rparr>, s)" using release_call [OF st p] by blast
  have st1: "fs_stands sha D ?a (bb\<lparr>cfs := st'\<rparr>, s)" using r(2) by (simp add: lasts_def)
  obtain s' where s': "sys_close (s32 fh) s = (0, s')"
    "lasts sha D (?a\<lparr>f_room := f_room ?a + 1\<rparr>) (bb\<lparr>cfs := st'\<rparr>, s) (bb\<lparr>cfs := st'\<rparr>, s')" using close_call [OF st1 r(3)] by blast
  have "ideal s'" using s'(2) stands_parts(4) by (auto simp: lasts_def)
  then have "bb_release bb fh s = Some ((0, bb\<lparr>cfs := st'\<rparr>), s')" using r(1) s'(1) by (simp add: bb_release_def ideal_simps)
  then show ?thesis using lasts_trans [OF r(2) s'(2)]
    by (intro servedI [where r = "Status 0" and bb' = "bb\<lparr>cfs := st'\<rparr>" and s' = s']) simp_all
qed

text \<open>A file is made under a free name, with an inode that no other name has.\<close>

lemma is_dir_new_node:
  assumes "os_wf s" "names s p = None" "is_dir s x"
  shows "is_dir (new_node p nd s) x"
proof -
  obtain n where n: "names s x = Some n" "inodes s n = Some Dir" using assms(3) by (auto simp: is_dir_def split: option.splits)
  then have "n < next_ino s" "x \<noteq> p" using assms(1,2) by (auto simp: os_wf_def)
  then show ?thesis using n by (simp add: is_dir_def new_node_def)
qed

lemma handles_kept_same: "fs_stands sha D a (bb, s) \<Longrightarrow> fdtab s' = fdtab s \<Longrightarrow> handles_kept a path (cfs bb) s (cfs bb) s'"
  using stands_handle(3) by (fastforce simp: handles_kept_def get_fd_def)

lemma served_mknod:
  assumes st: "fs_stands sha D a (bb, s)" and al: "fs_allowed D a (Mknod path mode dev)"
  shows "served sha D c a (Mknod path mode dev) (bb, s)"
proof -
  have h: "S_ISREG mode" "path \<in> f_free a" using al by simp_all
  note q = stands_parts [OF st] and fr = stands_free [OF st h(2)]
  have nm: "path \<in> fs_names a" using h by (simp add: fs_names_def)
  note us = stands_usable [OF st nm]
  let ?p = "rootdir bb @ path" and ?nd = "Reg (file_image 0 0 [])"
  let ?s = "new_node ?p ?nd s" and ?a = "a\<lparr>f_files := (f_files a)(path \<mapsto> (0, [])), f_free := f_free a - {path}\<rparr>"
  have cl: "closed_file sha D (storage (cfs bb)) ?p 0 [] ?s" by (rule closed_new_file [OF q(2) fr(2) us(2)])
  have n: "names ?s = (names s)(?p \<mapsto> next_ino s)" "fdtab ?s = fdtab s" by (simp_all add: new_node_def)
  have new: "names s x \<noteq> Some (next_ino s)" for x using q(3) by (auto simp: os_wf_def)
  have "lasts sha D ?a (bb, s) (bb\<lparr>cfs := cfs bb\<rparr>, ?s)"
  proof (rule fs_stands_step [OF st _ _ refl])
    show "session_ok (cfs bb) ?s" "free_fds ?s = f_room ?a" using q by (simp_all add: session_ok_new_node)
    show "store_ok sha D (storage (cfs bb)) ?s" using cl by (auto simp: closed_file_def)
    have "\<not> open_path ?a path" using fr(3) by (simp add: open_path_def)
    then show "file_stands sha D ?a path (bb\<lparr>cfs := cfs bb\<rparr>, ?s)" using cl n by (simp add: file_stands_def)
    show "path \<in> dom (f_files a) \<and> names ?s ?p = names s ?p \<or> (\<forall>x. names s x \<noteq> names ?s ?p)" using n new by simp
    show "spares sha D (storage (cfs bb)) (rootdir bb @ x) s ?s" if "x \<noteq> path" for x
      using spares_new_node [OF q(3) _ us(2)] that by simp
    show "handles_kept a path (cfs bb) s (cfs bb) ?s" by (rule handles_kept_same [OF st n(2)])
    show "is_dir ?s x" if "is_dir s x" for x by (rule is_dir_new_node [OF q(3) fr(2) that])
    show "refs_valid ?s = refs_valid s" by (simp add: new_node_def)
  qed (use h in \<open>auto simp: fs_names_def\<close>)
  then show ?thesis using mknod_new [OF us(1) h(1) q(4) fr(2) us(3) q(6)]
    by (intro servedI [where r = "Status 0" and bb' = bb and s' = ?s]) (simp_all add: replies_def)
qed

text \<open>The name of a closed file is taken away.\<close>

lemma served_unlink:
  assumes st: "fs_stands sha D a (bb, s)" and al: "fs_allowed D a (Unlink path)"
  shows "served sha D c a (Unlink path) (bb, s)"
proof -
  obtain sz af where f: "f_files a path = Some (sz, af)" and h: "\<not> open_path a path" using al by auto
  note q = stands_parts [OF st]
  have nm: "path \<in> fs_names a" using f by (auto simp: fs_names_def)
  note us = stands_usable [OF st nm]
  let ?p = "rootdir bb @ path"
  let ?s = "s\<lparr>names := (names s)(?p := None)\<rparr>" and ?a = "a\<lparr>f_files := (f_files a)(path := None), f_free := insert path (f_free a)\<rparr>"
  obtain n where n: "names s ?p = Some n" "inodes s n = Some (Reg (file_image sz (of_nat (length af)) (table_of sha af)))"
    using stands_inode [OF st f] by metis
  have ne: "x \<noteq> ?p" if "is_dir s x" for x using that n by (auto simp: is_dir_def)
  then have d: "is_dir ?s x" if "is_dir s x" for x using that ne [OF that] by (auto simp: is_dir_def split: option.splits)
  have b: "block_of sha (storage (cfs bb)) d \<noteq> ?p" if "d \<in> D" for d using us(2) imageI [OF that] by metis
  have ok: "store_ok sha D (storage (cfs bb)) ?s"
  proof -
    have "get_fd ?s = get_fd s" by (simp add: get_fd_def fun_eq_iff)
    then have "os_wf ?s" using q(3) by (simp add: os_wf_def)
    moreover have "ideal ?s" "first_free ?s = first_free s" using q(4) by (simp_all add: ideal_def first_free_def)
    moreover have "reg_content ?s x = reg_content s x" if "x \<noteq> ?p" for x using that by (simp add: reg_content_def cong: option.case_cong)
    ultimately show ?thesis using q(2) b d by (simp add: store_ok_def ready_def stored_def)
  qed
  have "lasts sha D ?a (bb, s) (bb\<lparr>cfs := cfs bb\<rparr>, ?s)"
  proof (rule fs_stands_step [OF st _ ok refl])
    have "get_fd ?s = get_fd s" by (simp add: get_fd_def fun_eq_iff)
    then show "session_ok (cfs bb) ?s" "free_fds ?s = f_room ?a" using q by (simp_all add: session_ok_def free_fds_def)
    show "file_stands sha D ?a path (bb\<lparr>cfs := cfs bb\<rparr>, ?s)" using h by (simp add: file_stands_def open_path_def)
    show "spares sha D (storage (cfs bb)) (rootdir bb @ x) s ?s" if "x \<noteq> path" for x
      using that b by (simp add: spares_def)
    show "handles_kept a path (cfs bb) s (cfs bb) ?s" by (rule handles_kept_same [OF st]) simp
  qed (use d f in \<open>auto simp: fs_names_def\<close>)
  moreover have "bb_unlink bb path s = Some (0, ?s)"
    using us(1) n q(4) by (simp add: bb_unlink_def pass_def sys_unlink_def ideal_simps)
  ultimately show ?thesis
    by (intro servedI [where r = "Status 0" and bb' = bb and s' = ?s]) (simp_all add: replies_def)
qed

text \<open>
  Attributes are read from the header on disk, for a file that is open too. The descriptor for it is never closed, so
  one less is left.
\<close>

definition lstat_works :: "calls \<Rightarrow> bool" where
  "lstat_works c \<longleftrightarrow> (\<forall>p b s. ideal s \<longrightarrow> names s p \<noteq> None \<longrightarrow> (\<exists>b'. c_lstat c p b s = ((0, b'), s)))"

lemma served_getattr:
  assumes st: "fs_stands sha D a (bb, s)" and al: "fs_allowed D a (Getattr path buf)" and c: "lstat_works c"
  shows "served sha D c a (Getattr path buf) (bb, s)"
proof -
  obtain sz af where f: "f_files a path = Some (sz, af)" and h: "2 \<le> f_room a" using al by auto
  note q = stands_parts [OF st]
  have nm: "path \<in> fs_names a" using f by (auto simp: fs_names_def)
  note us = stands_usable [OF st nm]
  let ?p = "rootdir bb @ path" and ?c = "file_image sz (of_nat (length af)) (table_of sha af)"
  obtain n where n: "names s ?p = Some n" "length af < 100000000" "inodes s n = Some (Reg ?c)"
    using stands_inode [OF st f] by metis
  obtain fd where fd: "first_free s = Some fd" using q(6) by blast
  obtain b where b: "c_lstat c ?p buf s = ((0, b), s)" using c q(4) n(1) by (fastforce simp: lstat_works_def)
  let ?f = "\<lparr>of_ino = n, of_pos = 23, of_rd = True, of_wr = False, of_lock = F_UNLCK\<rparr>"
  let ?s = "upd_file s fd ?f ?c"
  have lt: "of_ino ?f < next_ino s" "inodes s (of_ino ?f) = Some (Reg ?c)" using q(3) n by (auto simp: os_wf_def)
  note ff = first_free_Some [OF fd]
  have "lasts sha D (a\<lparr>f_room := f_room a - 1\<rparr>) (bb, s) (bb, ?s)"
  proof (rule stands_descriptors [OF st])
    show "store_ok sha D (storage (cfs bb)) ?s" by (rule store_ok_open [OF q(2) fd _ lt(2,1)]) (use q(5) h in simp)
    show "inodes ?s = inodes s" by (rule upd_file_fresh(2) [OF fd q(3) lt(2,1)])
    show "get_fd ?s fd' = get_fd s fd'" if "fd' \<in> set (fds (cfs bb))" "fd' \<noteq> -1" for fd'
    proof -
      have "get_fd s fd' \<noteq> None" using q(1) that by (metis session_ok_def)
      then show ?thesis using ff by (cases "fd' = fd") simp_all
    qed
    show "free_fds ?s = f_room a - 1" using free_fds_open [OF fd, of ?f ?c] q(5) by simp
  qed (simp_all add: upd_file_def)
  moreover have "sint (of_nat (length af) :: w64) = int (length af)"
    using n(2) by (simp add: signed_of_nat signed_take_bit_int_eq_self)
  then have "looks (sz, af) (b\<lparr>st_size := sint sz, st_blksize := int BLOCK_SIZE, st_blocks := sint (of_nat (length af) :: w64)\<rparr>)"
    by (simp add: looks_def)
  moreover have "bb_getattr (c_lstat c) bb path buf s =
      Some ((0, b\<lparr>st_size := sint sz, st_blksize := int BLOCK_SIZE, st_blocks := sint (of_nat (length af) :: w64)\<rparr>), ?s)"
    using us(1) b file_stat_closed [OF q(4) n(1,3) fd, of "uninit_file s"] q(4) by (simp add: bb_getattr_def ideal_simps)
  ultimately show ?thesis using f
    by (intro servedI [where r = "Attributes 0 (b\<lparr>st_size := sint sz, st_blksize := int BLOCK_SIZE,
      st_blocks := sint (of_nat (length af) :: w64)\<rparr>)" and bb' = bb and s' = ?s]) (simp_all add: replies_def)
qed

lemma served_flush: "fs_stands sha D a (bb, s) \<Longrightarrow> served sha D c a Flush (bb, s)"
  by (intro servedI [where r = "Status 0" and bb' = bb and s' = s]) (simp_all add: replies_def bb_flush_def lasts_def)

subsection \<open>The contract\<close>

text \<open>The directory that \<open>bbfs\<close> is mounted on.\<close>

definition mounted_on :: "string \<Rightarrow> bb_state \<times> os \<Rightarrow> bool" where
  "mounted_on root c \<longleftrightarrow> (case c of (bb, s) \<Rightarrow> rootdir bb = root \<and> root \<noteq> [] \<and> last root \<noteq> DIR_SEPARATOR \<and> is_dir s root \<and>
     blocks_path (storage (cfs bb)) = root @ DIR_SEPARATOR # BLOCKS_DIRECTORY)"

lemma mounted_on_lasts: "mounted_on root c \<Longrightarrow> lasts sha D a c c' \<Longrightarrow> mounted_on root c'"
  by (auto simp: mounted_on_def lasts_def)

interpretation fs: server "\<lambda>a st. lstat_works c \<and> mounted_on root st \<and> refs_valid (snd st) = v \<and> fs_stands sha D a st"
    "fs_serve sha c" "fs_permits D v" fs_correct fs_after
  for sha D c root v
proof
  fix a :: fs_spec and st :: "bb_state \<times> os" and rq
  assume pre: "lstat_works c \<and> mounted_on root st \<and> refs_valid (snd st) = v \<and> fs_stands sha D a st" and pm: "fs_permits D v a rq"
  have al: "fs_allowed D a rq" using pm by (simp add: fs_permits_def)
  obtain bb s where "st = (bb, s)" by fastforce
  with pre have st: "st = (bb, s)" "fs_stands sha D a (bb, s)" "lstat_works c" by simp_all
  have "served sha D c a rq (bb, s)"
  proof (cases rq)
    case Getattr then show ?thesis using served_getattr [OF st(2) _ st(3)] al by blast
  next
    case Mknod then show ?thesis using served_mknod [OF st(2)] al by blast
  next
    case Unlink then show ?thesis using served_unlink [OF st(2)] al by blast
  next
    case Open then show ?thesis using served_open [OF st(2)] al by blast
  next
    case Read then show ?thesis using served_read [OF st(2)] al pm pre st(1) by (simp add: fs_permits_def)
  next
    case Write then show ?thesis using served_write [OF st(2)] al by blast
  next
    case Release then show ?thesis using served_release [OF st(2)] al by blast
  next
    case Flush then show ?thesis using served_flush [OF st(2)] by blast
  qed (use al in simp_all)
  then show "\<exists>r st'. fs_serve sha c rq st = Some (r, st') \<and> fs_correct a rq r \<and>
      lstat_works c \<and> mounted_on root st' \<and> refs_valid (snd st') = v \<and> fs_stands sha D (fs_after a rq r) st'"
    using pre st(1) mounted_on_lasts unfolding served_def by (metis lasts_def)
qed

end
