(* ===== verification/Restart.thy ===== *)
theory Restart
  imports Served
begin

text \<open>
  A process that ends, and one that is started on what it left: the table of descriptors and the registry are gone,
  the directory is not. What \<open>bbfs\<close> finds is what the specification says of files that nobody has open.
\<close>

subsection \<open>A new process\<close>

definition restarted :: "nat \<Rightarrow> os \<Rightarrow> os" where
  "restarted k s = s\<lparr>fdtab := replicate k None\<rparr>"

text \<open>What is left of a specification: no handles, and as much room as the new process has descriptors.\<close>

definition at_rest :: "nat \<Rightarrow> fs_spec \<Rightarrow> fs_spec" where
  "at_rest k a = a\<lparr>f_open := \<lambda>_. None, f_room := k\<rparr>"

lemma restarted_simps [simp]:
  "names (restarted k s) = names s" "inodes (restarted k s) = inodes s" "next_ino (restarted k s) = next_ino s"
  "ideal (restarted k s) = ideal s" "fdtab (restarted k s) = replicate k None" "is_dir (restarted k s) x = is_dir s x"
  by (simp_all add: restarted_def ideal_def is_dir_def split: option.split)

lemma restarted_fds [simp]: "get_fd (restarted k s) fd = None" "free_fds (restarted k s) = k"
  by (simp_all add: get_fd_def free_fds_def)

lemma restarted_wf: "os_wf s \<Longrightarrow> os_wf (restarted k s)"
  by (simp add: os_wf_def)

lemma restarted_free: "0 < k \<Longrightarrow> first_free (restarted k s) \<noteq> None"
  using free_fds_first [of "restarted k s"] by simp

lemma block_of_same: "blocks_path bs' = blocks_path bs \<Longrightarrow> block_of sha bs' = block_of sha bs"
  by (simp add: fun_eq_iff block_of_def block_path_def)

lemma store_ok_restarted:
  assumes "store_ok sha D bs s" "blocks_path bs' = blocks_path bs" "0 < k"
  shows "store_ok sha D bs' (restarted k s)"
proof -
  have "reg_content (restarted k s) x = reg_content s x" for x by (simp add: reg_content_def cong: option.case_cong)
  then show ?thesis
    using assms(1) restarted_free [OF assms(3), of s] restarted_wf [of s k] block_of_same [OF assms(2)] assms(2)
    by (simp add: store_ok_def ready_def storage_dir_def stored_def)
qed

text \<open>The header is written with every block, so a file that is open is on disk as it would be closed.\<close>

lemma opened_on_disk:
  "opened sha D st i af s \<Longrightarrow> closed_file sha D (storage st) (f_path (files st ! i)) (f_size (files st ! i)) af s"
  by (auto simp: opened_def on_disk_def live_def closed_file_def)

lemma stands_on_disk:
  assumes "fs_stands sha D a (bb, s)" "f_files a path = Some (sz, af)"
  shows "closed_file sha D (storage (cfs bb)) (rootdir bb @ path) sz af s"
proof (cases "open_path a path")
  case True
  then obtain fd where "f_open a fd = Some path" by (auto simp: open_path_def)
  then obtain i where "opened sha D (cfs bb) i af s" "f_path (files (cfs bb) ! i) = rootdir bb @ path" "f_size (files (cfs bb) ! i) = sz"
    using stands_lookup [OF assms(1) _ assms(2)] by metis
  then show ?thesis using opened_on_disk by metis
qed (rule stands_closed [OF assms])

lemma closed_restarted:
  assumes "closed_file sha D bs p sz af s" "blocks_path bs' = blocks_path bs" "store_ok sha D bs' (restarted k s)"
  shows "closed_file sha D bs' p sz af (restarted k s)"
  using assms by (simp add: closed_file_def apart_def block_of_same [OF assms(2)])

lemma stands_restarted:
  assumes st: "fs_stands sha D a (bb, s)" and k: "0 < k"
    and bs: "blocks_path (storage st') = blocks_path (storage (cfs bb))" and ok: "session_ok st' (restarted k s)"
  shows "fs_stands sha D (at_rest k a) (bb\<lparr>cfs := st'\<rparr>, restarted k s)"
proof -
  have sto: "store_ok sha D (storage st') (restarted k s)" by (rule store_ok_restarted [OF stands_parts(2) [OF st] bs k])
  have "file_stands sha D (at_rest k a) path (bb\<lparr>cfs := st'\<rparr>, restarted k s)" for path
  proof (cases "f_files a path")
    case None
    then show ?thesis using stands_free(2) [OF st] by (simp add: file_stands_def at_rest_def open_path_def)
  next
    case (Some x)
    then obtain sz af where f: "f_files a path = Some (sz, af)" by (metis prod.collapse)
    then have "closed_file sha D (storage st') (rootdir bb @ path) sz af (restarted k s)"
      using closed_restarted [OF stands_on_disk [OF st f] bs sto] by blast
    moreover have "path \<notin> f_free a" "names s (rootdir bb @ path) \<noteq> None" using stands_named [OF st] f by simp_all
    ultimately show ?thesis using f by (simp add: file_stands_def at_rest_def open_path_def)
  qed
  moreover have "usable sha D path (bb\<lparr>cfs := st'\<rparr>, restarted k s)" if "path \<in> fs_names (at_rest k a)" for path
    using st that block_of_same [OF bs] by (simp add: fs_stands_def usable_def fs_names_def at_rest_def)
  ultimately show ?thesis using st ok sto unfolding fs_stands_def by (simp add: at_rest_def)
qed

subsection \<open>\<open>bbfs\<close>, started again\<close>

lemma restarting:
  assumes st: "fs_stands sha D a (bb, s)" "mounted_on root (bb, s)" and k: "0 < k" "k < 2147483648" "0 \<le> open_max"
    and "uid \<noteq> 0" "euid \<noteq> 0" "opts \<noteq> []" "take 1 arg \<noteq> ''-''" "take 1 mnt \<noteq> ''-''"
    and "realpath arg (restarted k s) = (Some root, restarted k s)" "fopen ''bbfs.log'' (restarted k s) = (lg, restarted k s)"
    and "lg \<noteq> 0"
  shows "\<exists>bb'. bbfs_main uid euid realpath fopen open_max fuse_main st0 (opts @ [arg, mnt]) (restarted k s) =
      (case fuse_main (opts @ [mnt]) bb' (restarted k s) of (r, s') \<Rightarrow> Some (Returned r, s')) \<and>
    mounted_on root (bb', restarted k s) \<and> fs_stands sha D (at_rest k a) (bb', restarted k s)"
proof -
  note p = stands_parts [OF st(1)]
  let ?s = "restarted k s"
  have m: "is_dir s root" "root \<noteq> []" "last root \<noteq> DIR_SEPARATOR" "rootdir bb = root"
    "blocks_path (storage (cfs bb)) = root @ DIR_SEPARATOR # BLOCKS_DIRECTORY" using st(2) by (simp_all add: mounted_on_def)
  have d: "is_dir s (root @ DIR_SEPARATOR # BLOCKS_DIRECTORY)" using p(2) m(5) by (simp add: store_ok_def ready_def)
  then have same: "mounted root ?s = ?s" by (auto simp: mounted_def Let_def is_dir_def split: option.splits)
  obtain st' where st': "bbfs_main uid euid realpath fopen open_max fuse_main st0 (opts @ [arg, mnt]) ?s =
      (case fuse_main (opts @ [mnt]) \<lparr>rootdir = root, cfs = st'\<rparr> ?s of (r, s') \<Rightarrow> Some (Returned r, s'))"
    "session_ok st' ?s" "blocks_path (storage st') = root @ DIR_SEPARATOR # BLOCKS_DIRECTORY"
    using bbfs_mounting [of ?s root open_max uid euid opts arg mnt realpath fopen lg fuse_main st0] same d m p(3,4) k
      restarted_wf [OF p(3)] restarted_free [OF k(1)] assms(6-) by auto
  have "bb\<lparr>cfs := st'\<rparr> = \<lparr>rootdir = root, cfs = st'\<rparr>" using m(4) by (cases bb) simp
  then have "fs_stands sha D (at_rest k a) (\<lparr>rootdir = root, cfs = st'\<rparr>, ?s)"
    using stands_restarted [OF st(1) k(1) _ st'(2)] st'(3) m(5) by simp
  moreover have "mounted_on root (\<lparr>rootdir = root, cfs = st'\<rparr>, ?s)" using m st'(3) by (simp add: mounted_on_def)
  ultimately show ?thesis using st'(1) by (intro exI [of _ "\<lparr>rootdir = root, cfs = st'\<rparr>"]) simp
qed

end
