(* ===== verification/Threads.thy ===== *)
theory Threads
  imports Bbfs_Session
begin

text \<open>
  A thread of FUSE in \<open>bb_write\<close>: the loop in two critical sections, the variables it keeps between them, and what
  is written so far. \<open>Concurrency\<close> and \<open>Interleaved\<close> put many threads together.
\<close>

subsection \<open>A turn of the loop in two critical sections\<close>

text \<open>The first makes the block: it is read when the offset is inside a block. The second registers it.\<close>

definition load_turn :: "nat \<Rightarrow> int \<Rightarrow> cfs_state \<Rightarrow> os \<Rightarrow> ((int \<times> cfs_block \<times> cfs_state) \<times> os) option" where
  "load_turn i cur st s =
     (if cur smod int BLOCK_SIZE \<noteq> 0 then cfs_file_read_block st i (word_of_int (cur sdiv int BLOCK_SIZE)) zero_block s
      else Some ((0, zero_block, st), s))"

definition register_turn ::
  "(byte list \<Rightarrow> byte list) \<Rightarrow> nat \<Rightarrow> byte list \<Rightarrow> int \<Rightarrow> int \<Rightarrow> int \<Rightarrow> int \<Rightarrow> cfs_block \<Rightarrow> cfs_state \<Rightarrow> os
     \<Rightarrow> ((int \<times> int \<times> cfs_state) \<times> os) option" where
  "register_turn sha1 i buf sz offset cur bi blk_buf st s =
     (let left = cur smod int BLOCK_SIZE; index = word_of_int (cur sdiv int BLOCK_SIZE);
          right = s64 (min (int BLOCK_SIZE) (u64 (left + offset + sz - cur))) in do {
        data \<leftarrow> mem_copy (b_data blk_buf) left buf bi (right - left);
        let blk_buf = blk_buf\<lparr>b_data := data, b_size := word_of_int right, b_index := index\<rparr>;
        ((_, st), s) \<leftarrow> cfs_file_register_block sha1 st i blk_buf s;
        Some ((cur + uint (b_size blk_buf), bi + (right - left), st), s)
      })"

text \<open>The loop of \<open>bb_write\<close> is made of these turns.\<close>

lemma write_loop_turns:
  "bb_write_loop sha1 i buf sz offset cur bi st s =
     (if u64 cur < u64 (offset + sz) then do {
        ((_, blk_buf, st), s) \<leftarrow> load_turn i cur st s;
        ((cur, bi, st), s) \<leftarrow> register_turn sha1 i buf sz offset cur bi blk_buf st s;
        bb_write_loop sha1 i buf sz offset cur bi st s
      } else Some ((s32 sz, st), s))"
  by (subst bb_write_loop.simps)
    (simp add: load_turn_def register_turn_def Let_def case_prod_unfold Option.bind_assoc)

subsection \<open>The threads\<close>

text \<open>A thread in \<open>bb_write\<close>: its arguments, and the variables of the loop.\<close>

record writer =
  w_file :: nat
  w_buf :: "byte list"
  w_size :: int
  w_offset :: int
  w_current :: int
  w_buffer_index :: int
  w_block :: "cfs_block option"

definition w_done :: "writer \<Rightarrow> bool" where
  "w_done w \<longleftrightarrow> w_block w = None \<and> \<not> u64 (w_current w) < u64 (w_offset w + w_size w)"

definition writer_step ::
  "(byte list \<Rightarrow> byte list) \<Rightarrow> writer \<Rightarrow> cfs_state \<Rightarrow> os \<Rightarrow> ((writer \<times> cfs_state) \<times> os) option" where
  "writer_step sha1 w st s =
     (case w_block w of
        None \<Rightarrow>
          if u64 (w_current w) < u64 (w_offset w + w_size w) then do {
            ((_, blk, st), s) \<leftarrow> load_turn (w_file w) (w_current w) st s;
            Some ((w\<lparr>w_block := Some blk\<rparr>, st), s)
          } else None
      | Some blk \<Rightarrow> do {
          ((cur, bi, st), s) \<leftarrow> register_turn sha1 (w_file w) (w_buf w) (w_size w) (w_offset w) (w_current w)
            (w_buffer_index w) blk st s;
          Some ((w\<lparr>w_current := cur, w_buffer_index := bi, w_block := None\<rparr>, st), s)
        })"

text \<open>A thread that enters \<open>bb_write\<close> at block \<open>a\<close> of the file at entry \<open>i\<close>.\<close>

definition writer_at :: "nat \<Rightarrow> nat \<Rightarrow> byte list \<Rightarrow> writer" where
  "writer_at i a bs = \<lparr>w_file = i, w_buf = bs, w_size = int (length bs), w_offset = 4096 * int a,
     w_current = 4096 * int a, w_buffer_index = 0, w_block = None\<rparr>"

subsection \<open>One thread\<close>

text \<open>
  \<open>due_at\<close>: the thread is at a block boundary or at the end of its buffer; its file has the blocks \<open>af\<close>, with those
  of what is written, and will have \<open>fin\<close>.
\<close>

definition due_at ::
  "(byte list \<Rightarrow> byte list) \<Rightarrow> byte list set \<Rightarrow> writer \<Rightarrow> blocks \<Rightarrow> blocks \<Rightarrow> cfs_state \<Rightarrow> os \<Rightarrow> bool" where
  "due_at sha D w af fin st s \<longleftrightarrow> (\<exists>a pre rest. w_buf w = pre @ rest \<and> (rest = [] \<or> w_current w = 4096 * int a) \<and>
     w_offset w = w_current w - int (length pre) \<and> w_buffer_index w = int (length pre) \<and>
     w_size w = int (length pre) + int (length rest) \<and> 0 \<le> w_offset w \<and>
     w_current w + int (length rest) < 9223372036854775808 \<and> opened sha D st (w_file w) af s \<and>
     fin = af @ chunks a rest \<and> 23 + 28 * length fin < 2147483648 \<and> distinct (map fst fin) \<and>
     snd ` set (chunks a rest) \<subseteq> D \<and> (w_block w = None \<or> w_block w = Some zero_block \<and> rest \<noteq> []))"

lemma dueE:
  assumes "due_at sha D w af fin st s"
  obtains a pre rest where "w_buf w = pre @ rest" "rest = [] \<or> w_current w = 4096 * int a"
    "w_offset w = w_current w - int (length pre)" "w_buffer_index w = int (length pre)"
    "w_size w = int (length pre) + int (length rest)" "0 \<le> w_offset w"
    "w_current w + int (length rest) < 9223372036854775808" "opened sha D st (w_file w) af s"
    "fin = af @ chunks a rest" "23 + 28 * length fin < 2147483648" "distinct (map fst fin)" "snd ` set (chunks a rest) \<subseteq> D"
    "w_block w = None \<or> w_block w = Some zero_block \<and> rest \<noteq> []"
  using assms unfolding due_at_def by (elim exE conjE) (rule that; assumption)

lemma due_at_done:
  assumes "due_at sha D w af fin st s" "w_done w"
  shows "af = fin" "w_buffer_index w = w_size w"
proof -
  from assms(1) obtain a pre rest where w: "w_buf w = pre @ rest" "rest = [] \<or> w_current w = 4096 * int a"
    "w_offset w = w_current w - int (length pre)" "w_buffer_index w = int (length pre)"
    "w_size w = int (length pre) + int (length rest)" "0 \<le> w_offset w"
    "w_current w + int (length rest) < 9223372036854775808" "opened sha D st (w_file w) af s" "fin = af @ chunks a rest"
    by (rule dueE)
  have "rest = []"
  proof (rule ccontr)
    assume "rest \<noteq> []"
    then have "0 < int (length rest)" by simp
    then have "u64 (w_current w) < u64 (w_offset w + w_size w)" using w(3,5-7) by simp
    then show False using assms(2) by (simp add: w_done_def)
  qed
  then show "af = fin" "w_buffer_index w = w_size w" using w(4,5,9) by (simp_all add: chunks.simps [of a "[]"])
qed

text \<open>What is left to do: two critical sections at most for each byte.\<close>

definition todo :: "writer \<Rightarrow> nat" where
  "todo w = 2 * nat (w_size w - w_buffer_index w) + (if w_block w = None then 1 else 0)"

lemma due_step:
  assumes "due_at sha D w af fin st s" "\<not> w_done w"
  shows "\<exists>w' st' s' n af'. writer_step sha w st s = Some ((w', st'), s') \<and> due_at sha D w' af' fin st' s' \<and> w_file w' = w_file w \<and>
    w_buf w' = w_buf w \<and> w_size w' = w_size w \<and> w_buffer_index w' = w_buffer_index w + int n \<and>
    todo w' < todo w \<and> advanced (w_file w) n st st' \<and>
    evolves sha D (storage st) (f_path (files st ! w_file w)) (f_fd (files st ! w_file w)) s s'"
proof -
  from assms(1) obtain a pre rest where w: "w_buf w = pre @ rest" "rest = [] \<or> w_current w = 4096 * int a"
    "w_offset w = w_current w - int (length pre)" "w_buffer_index w = int (length pre)"
    "w_size w = int (length pre) + int (length rest)" "0 \<le> w_offset w"
    "w_current w + int (length rest) < 9223372036854775808" "opened sha D st (w_file w) af s"
    and fin: "fin = af @ chunks a rest" "23 + 28 * length fin < 2147483648" "distinct (map fst fin)" "snd ` set (chunks a rest) \<subseteq> D"
    and blk: "w_block w = None \<or> w_block w = Some zero_block \<and> rest \<noteq> []"
    by (rule dueE)
  have ne: "rest \<noteq> []" using assms(2) blk w(3,5) by (auto simp: w_done_def)
  then have cur: "w_current w = 4096 * int a" using w(2) by simp
  have ch: "chunks a rest = (of_nat a, take 4096 rest) # chunks (Suc a) (drop 4096 rest)"
    using ne by (simp add: chunks.simps [of a rest])
  let ?m = "min 4096 (length rest)"
  have lt: "51 + 28 * length af < 2147483648" "of_nat a \<notin> fst ` set af" "take 4096 rest \<in> D"
    using fin by (auto simp: ch)
  note t = write_turn [OF w(8) lt ne w(3) [unfolded cur] w(5,6) w(7) [unfolded cur]]
  show ?thesis
  proof (cases "w_block w")
    case None
    have "u64 (w_current w) < u64 (w_offset w + w_size w)" using assms(2) None by (simp add: w_done_def)
    then have "writer_step sha w st s = Some ((w\<lparr>w_block := Some zero_block\<rparr>, st), s)"
      using None by (simp add: writer_step_def load_turn_def cur block_index)
    moreover have "due_at sha D (w\<lparr>w_block := Some zero_block\<rparr>) af fin st s"
      unfolding due_at_def using w fin ne
      by (intro exI [of _ a] exI [of _ pre] exI [of _ rest]) simp
    moreover have "todo (w\<lparr>w_block := Some zero_block\<rparr>) < todo w" using None by (simp add: todo_def)
    ultimately show ?thesis
      using advanced_0 by (intro exI [of _ "w\<lparr>w_block := Some zero_block\<rparr>"] exI [of _ st] exI [of _ s] exI [of _ 0] exI [of _ af]) simp
  next
    case (Some b)
    then have b: "w_block w = Some zero_block" using blk by simp
    obtain data st' s' where s': "mem_copy (replicate BLOCK_SIZE 0) 0 (pre @ rest) (int (length pre)) (int ?m) = Some data"
      "cfs_file_register_block sha st (w_file w) \<lparr>b_index = of_nat a, b_size = of_nat ?m, b_data = data\<rparr> s = Some ((0, st'), s')"
      "opened sha D st' (w_file w) (af @ [(of_nat a, take 4096 rest)]) s'" "advanced (w_file w) ?m st st'"
      "evolves sha D (storage st) (f_path (files st ! w_file w)) (f_fd (files st ! w_file w)) s s'"
      using t(1) by blast
    let ?w = "w\<lparr>w_current := 4096 * int a + int ?m, w_buffer_index := int (length pre) + int ?m, w_block := None\<rparr>"
    have "writer_step sha w st s = Some ((?w, st'), s')"
      using t(4) s'(1,2) by (simp add: writer_step_def b register_turn_def cur w(1,4) block_index t(2) Let_def)
    moreover have "due_at sha D ?w (af @ [(of_nat a, take 4096 rest)]) fin st' s'"
      unfolding due_at_def
      using w(1,3,5-7) fin s'(3) cur
      by (intro exI [of _ "Suc a"] exI [of _ "pre @ take 4096 rest"]
          exI [of _ "drop 4096 rest"]) (auto simp: ch min_def)
    moreover have "todo ?w < todo w"
    proof -
      have "0 < ?m" "w_size w - w_buffer_index w = int (length rest)" "w_size ?w - w_buffer_index ?w = int (length rest - ?m)"
        using ne w(4,5) by simp_all
      moreover have "0 < length rest" using ne by simp
      ultimately show ?thesis
        using b by (simp only: todo_def nat_int) (simp add: min_def del: length_greater_0_conv split: if_splits)
    qed
    ultimately show ?thesis using s'(4,5) w(4)
      by (intro exI [of _ ?w] exI [of _ st'] exI [of _ s'] exI [of _ ?m] exI [of _ "af @ [(of_nat a, take 4096 rest)]"]) simp
  qed
qed

lemma writer_due_at:
  assumes "opened sha D st i af s" "fresh_blocks D af a bs"
  shows "due_at sha D (writer_at i a bs) af (af @ chunks a bs) st s"
proof -
  note fr = assms(2) [unfolded fresh_blocks_def]
  have "distinct (map fst (af @ chunks a bs))"
    using opened_distinct [OF assms(1)] chunks_distinct [of a bs] fr by auto
  then show ?thesis
    unfolding due_at_def using assms(1) fr
    by (intro exI [of _ a] exI [of _ "[]"] exI [of _ bs]) (simp add: writer_at_def)
qed

end
