(* ===== verification/Concurrency.thy ===== *)
theory Concurrency
  imports Sections Threads Memory
begin

text \<open>
  FUSE runs handlers in several threads. Here each thread is in \<open>bb_open\<close>, \<open>bb_read\<close>, \<open>bb_write\<close> or
  \<open>bb_release\<close>; between two steps, which are a system call, a critical section, or the search for an entry without
  the mutex, any other may run. A thread keeps the \<open>cfs_file_t*\<close> it found, as the address of the array and the
  index in it; the array may be freed when another thread makes the registry grow.
\<close>

subsection \<open>The steps of a handler\<close>

record reader =
  r_file :: nat
  r_buf :: "byte list"
  r_size :: int
  r_offset :: int
  r_current :: int
  r_buffer_index :: int

datatype task =
    To_open path
  | To_register path int
  | To_release int
  | To_close int int
  | To_read "byte list" int int int
  | Reading nat reader
  | To_write "byte list" int int int
  | Writing nat writer
  | Finished reply

type_synonym shared = "bb_state \<times> pointers \<times> heap \<times> os"

text \<open>Using a pointer into memory that was freed is undefined.\<close>

definition points :: "nat \<Rightarrow> pointers \<Rightarrow> heap \<Rightarrow> bool" where
  "points b p h \<longleftrightarrow> b = files_p p \<and> b \<in> set (h_live h)"

text \<open>\<open>m\<close>: whether the two arrays move, if the registry grows.\<close>

definition open_enter :: "path \<Rightarrow> shared \<Rightarrow> (task \<times> shared) option" where
  "open_enter path = (\<lambda>(bb, p, h, s). do {
     fpath \<leftarrow> bb_fullpath bb path;
     let (r, s) = sys_open fpath O_RDWR s;
     let (fd, s) = log_syscall r 0 s;
     if fd < 0 then (let (retstat, s) = log_error s in Some (Finished (Handle retstat (u64 fd)), bb, p, h, s))
     else Some (To_register fpath fd, bb, p, h, s)
   })"

definition open_register :: "bool \<times> bool \<Rightarrow> path \<Rightarrow> int \<Rightarrow> shared \<Rightarrow> (task \<times> shared) option" where
  "open_register m fpath fd = (\<lambda>(bb, p, h, s). do {
     (p, h) \<leftarrow> (if fds_cap (cfs bb) div 2 \<le> unat (n_fds (cfs bb)) then grow_pointers m p h else Some (p, h));
     ((_, st), s) \<leftarrow> cfs_register_file (cfs bb) fpath fd s;
     Some (Finished (Handle 0 (u64 fd)), bb\<lparr>cfs := st\<rparr>, p, h, s)
   })"

definition release_enter :: "int \<Rightarrow> shared \<Rightarrow> (task \<times> shared) option" where
  "release_enter fh = (\<lambda>(bb, p, h, s). do {
     (ret, st) \<leftarrow> cfs_release_file (cfs bb) (s32 fh);
     Some (To_close ret fh, bb\<lparr>cfs := st\<rparr>, p, h, s)
   })"

definition release_close :: "int \<Rightarrow> int \<Rightarrow> shared \<Rightarrow> (task \<times> shared) option" where
  "release_close ret fh = (\<lambda>(bb, p, h, s).
     let (r, s) = sys_close (s32 fh) s; (r, s) = log_syscall r 0 s in Some (Finished (Status (ret OR r)), bb, p, h, s))"

definition read_enter :: "byte list \<Rightarrow> int \<Rightarrow> int \<Rightarrow> int \<Rightarrow> shared \<Rightarrow> (task \<times> shared) option" where
  "read_enter buf sz offset fh = (\<lambda>(bb, p, h, s). case cfs_get_file (cfs bb) (s32 fh) of
       None \<Rightarrow> Some (Finished (Data (-1) buf), bb, p, h, s)
     | Some i \<Rightarrow> Some (Reading (files_p p) \<lparr>r_file = i, r_buf = buf, r_size = sz, r_offset = offset, r_current = offset,
         r_buffer_index = 0\<rparr>, bb, p, h, s))"

definition read_go :: "nat \<Rightarrow> reader \<Rightarrow> shared \<Rightarrow> (task \<times> shared) option" where
  "read_go b r = (\<lambda>(bb, p, h, s).
     if u64 (r_current r) < u64 (r_offset r + r_size r) then
       if points b p h then do {
         ((cur, bi, buf, st), s) \<leftarrow>
           read_turn (r_file r) (r_size r) (r_offset r) (r_current r) (r_buffer_index r) (r_buf r) (cfs bb) s;
         Some (Reading b (r\<lparr>r_current := cur, r_buffer_index := bi, r_buf := buf\<rparr>), bb\<lparr>cfs := st\<rparr>, p, h, s)
       } else None
     else Some (Finished (Data (s32 (r_current r - r_offset r)) (r_buf r)), bb, p, h, s))"

definition write_enter :: "byte list \<Rightarrow> int \<Rightarrow> int \<Rightarrow> int \<Rightarrow> shared \<Rightarrow> (task \<times> shared) option" where
  "write_enter buf sz offset fh = (\<lambda>(bb, p, h, s). case cfs_get_file (cfs bb) (s32 fh) of
       None \<Rightarrow> Some (Finished (Status (-1)), bb, p, h, s)
     | Some i \<Rightarrow> Some (Writing (files_p p) \<lparr>w_file = i, w_buf = buf, w_size = sz, w_offset = offset, w_current = offset,
         w_buffer_index = 0, w_block = None\<rparr>, bb, p, h, s))"

definition write_go :: "(byte list \<Rightarrow> byte list) \<Rightarrow> nat \<Rightarrow> writer \<Rightarrow> shared \<Rightarrow> (task \<times> shared) option" where
  "write_go sha b w = (\<lambda>(bb, p, h, s).
     if w_done w then Some (Finished (Status (s32 (w_size w))), bb, p, h, s)
     else if points b p h then do {
       ((w, st), s) \<leftarrow> writer_step sha w (cfs bb) s;
       Some (Writing b w, bb\<lparr>cfs := st\<rparr>, p, h, s)
     } else None)"

lemmas task_parts [simp] = open_enter_def open_register_def release_enter_def release_close_def read_enter_def read_go_def
  write_enter_def write_go_def

fun task_step ::
  "(byte list \<Rightarrow> byte list) \<Rightarrow> bool \<times> bool \<Rightarrow> task \<Rightarrow> shared \<Rightarrow> (task \<times> shared) option" where
  "task_step sha m (To_open path) c = open_enter path c"
| "task_step sha m (To_register fpath fd) c = open_register m fpath fd c"
| "task_step sha m (To_release fh) c = release_enter fh c"
| "task_step sha m (To_close ret fh) c = release_close ret fh c"
| "task_step sha m (To_read buf sz offset fh) c = read_enter buf sz offset fh c"
| "task_step sha m (Reading b r) c = read_go b r c"
| "task_step sha m (To_write buf sz offset fh) c = write_enter buf sz offset fh c"
| "task_step sha m (Writing b w) c = write_go sha b w c"
| "task_step sha m (Finished r) c = None"

text \<open>The task a request starts.\<close>

fun task_of :: "request \<Rightarrow> task option" where
  "task_of (Open path) = Some (To_open path)"
| "task_of (Release fh) = Some (To_release fh)"
| "task_of (Read buf sz offset fh) = Some (To_read buf sz offset fh)"
| "task_of (Write buf sz offset fh) = Some (To_write buf sz offset fh)"
| "task_of _ = None"

subsection \<open>A thread alone\<close>

text \<open>Without another thread in between, the steps are those of the handler in the table.\<close>

inductive alone :: "(byte list \<Rightarrow> byte list) \<Rightarrow> task \<times> shared \<Rightarrow> task \<times> shared \<Rightarrow> bool" for sha where
  alone_end: "alone sha c c"
| alone_step: "task_step sha (False, False) t sh = Some (t1, sh1) \<Longrightarrow> alone sha (t1, sh1) c \<Longrightarrow> alone sha (t, sh) c"

definition reading :: "nat \<Rightarrow> nat \<Rightarrow> int \<Rightarrow> int \<Rightarrow> int \<Rightarrow> int \<Rightarrow> byte list \<Rightarrow> task" where
  "reading b i sz offset cur bi buf =
     Reading b \<lparr>r_file = i, r_buf = buf, r_size = sz, r_offset = offset, r_current = cur, r_buffer_index = bi\<rparr>"

lemma read_step:
  "points b p h \<Longrightarrow> task_step sha m (reading b i sz offset cur bi buf) (bb, p, h, s) =
     (if u64 cur < u64 (offset + sz) then do {
        ((cur, bi, buf, st), s) \<leftarrow> read_turn i sz offset cur bi buf (cfs bb) s;
        Some (reading b i sz offset cur bi buf, bb\<lparr>cfs := st\<rparr>, p, h, s)
      } else Some (Finished (Data (s32 (cur - offset)) buf), bb, p, h, s))"
  by (simp add: reading_def)

lemma alone_reads:
  assumes "bb_read_loop i sz offset cur bi buf st s = Some y" "points b p h"
  shows "alone sha (reading b i sz offset cur bi buf, bb\<lparr>cfs := st\<rparr>, p, h, s)
    (Finished (Data (fst (fst y)) (fst (snd (fst y)))), bb\<lparr>cfs := snd (snd (fst y))\<rparr>, p, h, snd y)"
proof (rule bb_read_loop.raw_induct [where P = "\<lambda>i sz offset cur bi buf st s y. alone sha
    (reading b i sz offset cur bi buf, bb\<lparr>cfs := st\<rparr>, p, h, s)
    (Finished (Data (fst (fst y)) (fst (snd (fst y)))), bb\<lparr>cfs := snd (snd (fst y))\<rparr>, p, h, snd y)", OF _ assms(1)], goal_cases)
  case (1 loop i sz offset cur bi buf st s y)
  have eq: "(if u64 cur < u64 (offset + sz) then do {
        ((cur, bi, buf, st), s) \<leftarrow> read_turn i sz offset cur bi buf st s;
        loop i sz offset cur bi buf st s
      } else Some ((s32 (cur - offset), buf, st), s)) = Some y"
    using 1(2) by (simp add: read_turn_def Let_def case_prod_unfold Option.bind_assoc cong: if_cong)
  show ?case
  proof (cases "u64 cur < u64 (offset + sz)")
    case True
    then obtain cur' bi' buf' st' s' where t: "read_turn i sz offset cur bi buf st s = Some ((cur', bi', buf', st'), s')"
      "loop i sz offset cur' bi' buf' st' s' = Some y" using eq by (auto split: Option.bind_splits)
    show ?thesis by (rule alone_step [OF _ 1(1) [OF t(2)]]) (simp add: read_step [OF assms(2)] True t(1))
  next
    case False
    then show ?thesis using eq by (intro alone_step [OF _ alone_end]) (auto simp: read_step [OF assms(2)])
  qed
qed

definition writing :: "nat \<Rightarrow> nat \<Rightarrow> byte list \<Rightarrow> int \<Rightarrow> int \<Rightarrow> int \<Rightarrow> int \<Rightarrow> cfs_block option \<Rightarrow> task" where
  "writing b i buf sz offset cur bi blk =
     Writing b \<lparr>w_file = i, w_buf = buf, w_size = sz, w_offset = offset, w_current = cur, w_buffer_index = bi, w_block = blk\<rparr>"

lemma write_steps:
  assumes "points b p h"
  shows "task_step sha m (writing b i buf sz offset cur bi None) (bb, p, h, s) =
     (if u64 cur < u64 (offset + sz) then do {
        ((_, blk, st), s) \<leftarrow> load_turn i cur (cfs bb) s;
        Some (writing b i buf sz offset cur bi (Some blk), bb\<lparr>cfs := st\<rparr>, p, h, s)
      } else Some (Finished (Status (s32 sz)), bb, p, h, s))"
    "task_step sha m (writing b i buf sz offset cur bi (Some blk)) (bb, p, h, s) = do {
       ((cur, bi, st), s) \<leftarrow> register_turn sha i buf sz offset cur bi blk (cfs bb) s;
       Some (writing b i buf sz offset cur bi None, bb\<lparr>cfs := st\<rparr>, p, h, s)
     }"
  using assms
  by (simp_all add: writing_def w_done_def writer_step_def Option.bind_assoc case_prod_unfold)

lemma alone_writes:
  assumes "bb_write_loop sha i buf sz offset cur bi st s = Some y" "points b p h"
  shows "alone sha (writing b i buf sz offset cur bi None, bb\<lparr>cfs := st\<rparr>, p, h, s)
    (Finished (Status (fst (fst y))), bb\<lparr>cfs := snd (fst y)\<rparr>, p, h, snd y)"
proof (rule bb_write_loop.raw_induct [where P = "\<lambda>sha i buf sz offset cur bi st s y. alone sha
    (writing b i buf sz offset cur bi None, bb\<lparr>cfs := st\<rparr>, p, h, s)
    (Finished (Status (fst (fst y))), bb\<lparr>cfs := snd (fst y)\<rparr>, p, h, snd y)", OF _ assms(1)], goal_cases)
  case (1 loop sha i buf sz offset cur bi st s y)
  have eq: "(if u64 cur < u64 (offset + sz) then do {
        ((_, blk_buf, st), s) \<leftarrow> load_turn i cur st s;
        ((cur, bi, st), s) \<leftarrow> register_turn sha i buf sz offset cur bi blk_buf st s;
        loop sha i buf sz offset cur bi st s
      } else Some ((s32 sz, st), s)) = Some y"
    using 1(2) by (simp add: load_turn_def register_turn_def Let_def case_prod_unfold Option.bind_assoc cong: if_cong)
  note w = write_steps [OF assms(2)]
  show ?case
  proof (cases "u64 cur < u64 (offset + sz)")
    case True
    then obtain r blk st1 s1 cur' bi' st' s' where t: "load_turn i cur st s = Some ((r, blk, st1), s1)"
      "register_turn sha i buf sz offset cur bi blk st1 s1 = Some ((cur', bi', st'), s')"
      "loop sha i buf sz offset cur' bi' st' s' = Some y" using eq by (auto split: Option.bind_splits)
    have "alone sha (writing b i buf sz offset cur bi (Some blk), bb\<lparr>cfs := st1\<rparr>, p, h, s1)
      (Finished (Status (fst (fst y))), bb\<lparr>cfs := snd (fst y)\<rparr>, p, h, snd y)"
      by (rule alone_step [OF _ 1(1) [OF t(3)]]) (simp add: w t(2))
    then show ?thesis by (rule alone_step [rotated]) (simp add: w True t(1))
  next
    case False
    then show ?thesis using eq by (intro alone_step [OF _ alone_end]) (auto simp: w)
  qed
qed

lemma alone_handler:
  assumes "bb_oper sha c rq bb s = Some ((r, bb'), s')" "task_of rq = Some t" "holds base (owned p) h"
  shows "alone sha (t, bb, p, h, s) (Finished r, bb', p, h, s')"
proof -
  have pt: "points (files_p p) p h" "fds_p p \<in> set (h_live h)" using assms(3) by (simp_all add: points_def holds_def owned_def)
  then have gr: "grow_pointers (False, False) p h = Some (p, h)" by (simp add: grow_pointers_def realloc_def points_def)
  have bb: "bb\<lparr>cfs := cfs bb\<rparr> = bb" by simp
  show ?thesis
  proof (cases rq)
    case (Open path)
    obtain fp r1 s1 fd s2 where o: "bb_fullpath bb path = Some fp" "sys_open fp O_RDWR s = (r1, s1)" "log_syscall r1 0 s1 = (fd, s2)"
      using assms(1) by (fastforce simp: Open bb_open_def split: Option.bind_splits)
    show ?thesis
    proof (cases "fd < 0")
      case True
      show ?thesis
        by (rule alone_step [OF _ alone_end])
          (use assms(1,2) o True in \<open>auto simp: Open bb_open_def split: prod.splits\<close>)
    next
      case False
      then obtain x st where x: "cfs_register_file (cfs bb) fp fd s2 = Some ((x, st), s')" "r = Handle 0 (u64 fd)" "bb' = bb\<lparr>cfs := st\<rparr>"
        using assms(1) o by (auto simp: Open bb_open_def split: Option.bind_splits)
      have "alone sha (To_register fp fd, bb, p, h, s2) (Finished r, bb', p, h, s')"
        by (rule alone_step [OF _ alone_end]) (use x gr in simp)
      then show ?thesis by (rule alone_step [rotated]) (use assms(2) o False in \<open>auto simp: Open\<close>)
    qed
  next
    case (Release fh)
    obtain ret st s1 r1 r2 where o: "cfs_release_file (cfs bb) (s32 fh) = Some (ret, st)" "sys_close (s32 fh) s = (r1, s1)"
      "log_syscall r1 0 s1 = (r2, s')" "r = Status (ret OR r2)" "bb' = bb\<lparr>cfs := st\<rparr>"
      using assms(1) by (auto simp: Release bb_release_def split: Option.bind_splits prod.splits)
    have "alone sha (To_close ret fh, bb', p, h, s) (Finished r, bb', p, h, s')"
      by (rule alone_step [OF _ alone_end]) (use o in simp)
    then show ?thesis by (rule alone_step [rotated]) (use assms(2) o in \<open>auto simp: Release\<close>)
  next
    case (Read buf sz offset fh)
    show ?thesis
    proof (cases "cfs_get_file (cfs bb) (s32 fh)")
      case None
      show ?thesis by (rule alone_step [OF _ alone_end]) (use assms(1,2) None in \<open>auto simp: Read bb_read_def\<close>)
    next
      case (Some i)
      then obtain y where y: "bb_read_loop i sz offset offset 0 buf (cfs bb) s = Some y" "r = Data (fst (fst y)) (fst (snd (fst y)))"
        "bb' = bb\<lparr>cfs := snd (snd (fst y))\<rparr>" "s' = snd y"
        using assms(1) by (auto simp: Read bb_read_def split: Option.bind_splits)
      show ?thesis
        by (rule alone_step [OF _ alone_reads [OF y(1) pt(1), of sha bb, unfolded bb, folded y(2-4)]])
          (use assms(2) Some in \<open>auto simp: Read reading_def\<close>)
    qed
  next
    case (Write buf sz offset fh)
    show ?thesis
    proof (cases "cfs_get_file (cfs bb) (s32 fh)")
      case None
      show ?thesis by (rule alone_step [OF _ alone_end]) (use assms(1,2) None in \<open>auto simp: Write bb_write_def\<close>)
    next
      case (Some i)
      then obtain y where y: "bb_write_loop sha i buf sz offset offset 0 (cfs bb) s = Some y" "r = Status (fst (fst y))"
        "bb' = bb\<lparr>cfs := snd (fst y)\<rparr>" "s' = snd y"
        using assms(1) by (auto simp: Write bb_write_def split: Option.bind_splits)
      show ?thesis
        by (rule alone_step [OF _ alone_writes [OF y(1) pt(1), of bb, unfolded bb, folded y(2-4)]])
          (use assms(2) Some in \<open>auto simp: Write writing_def\<close>)
    qed
  qed (use assms(2) in simp_all)
qed

end
