(* ===== verification/Interleaved.thy ===== *)
theory Interleaved
  imports Concurrency
begin

text \<open>
  Threads that work on different files do not disturb each other, as long as the array of open files stays where it
  is: each gets the reply, and leaves its file, as if it had run alone. When the array moves, a thread that holds a
  pointer into it goes on with memory that was freed.
\<close>

subsection \<open>Where a thread is\<close>

fun path_of :: "fs_spec \<Rightarrow> request \<Rightarrow> path option" where
  "path_of a (Open path) = Some path"
| "path_of a (Release fh) = f_open a fh"
| "path_of a (Read buf sz offset fh) = f_open a fh"
| "path_of a (Write buf sz offset fh) = f_open a fh"
| "path_of a _ = None"

text \<open>The reply to a request of a thread that started when \<open>a\<close> was the case, and what it is about when \<open>b\<close> is.\<close>

fun settled :: "fs_spec \<Rightarrow> fs_spec \<Rightarrow> request \<Rightarrow> reply \<Rightarrow> bool" where
  "settled a b (Open path) r \<longleftrightarrow> f_files b path = f_files a path \<and> (\<exists>fd. r = Handle 0 fd \<and> f_open b fd = Some path)"
| "settled a b (Release fh) r \<longleftrightarrow> (\<exists>path. f_open a fh = Some path \<and> f_files b path = f_files a path \<and> \<not> open_path b path \<and> r = Status 0)"
| "settled a b (Read buf sz offset fh) r \<longleftrightarrow> (\<exists>path. f_open a fh = Some path \<and> f_files b path = f_files a path \<and>
     f_open b fh = Some path \<and> fs_correct a (Read buf sz offset fh) r)"
| "settled a b (Write buf sz offset fh) r \<longleftrightarrow> (\<exists>path. f_open a fh = Some path \<and> f_open b fh = Some path \<and>
     f_files b path = f_files (fs_after a (Write buf sz offset fh) r) path \<and> r = Status sz)"
| "settled a b _ r \<longleftrightarrow> False"

text \<open>A reader at a block boundary, with the pages before it in its buffer.\<close>

definition reader_at :: "blocks \<Rightarrow> nat \<Rightarrow> byte list \<Rightarrow> reader \<Rightarrow> bool" where
  "reader_at af a0 buf r \<longleftrightarrow> (\<exists>a pre rest. r_buf r = pre @ rest \<and> length rest mod 4096 = 0 \<and> r_current r = 4096 * int a \<and>
     r_offset r = 4096 * int a - int (length pre) \<and> 0 \<le> r_offset r \<and> r_size r = int (length buf) \<and>
     r_size r = int (length pre) + int (length rest) \<and> r_size r < 2147483648 \<and> r_buffer_index r = int (length pre) \<and>
     4096 * int a + int (length rest) < 9223372036854775808 \<and> pre @ pages af a rest = pages af a0 buf)"

fun at_work ::
  "(byte list \<Rightarrow> byte list) \<Rightarrow> byte list set \<Rightarrow> fs_spec \<Rightarrow> fs_spec \<Rightarrow> nat \<Rightarrow> bb_state \<times> os \<Rightarrow> request \<Rightarrow> task \<Rightarrow> bool" where
  "at_work sha D a0 a q c (Open path) t \<longleftrightarrow> (\<exists>r. t = Finished r \<and> settled a0 a (Open path) r) \<or>
     f_files a path = f_files a0 path \<and> f_files a path \<noteq> None \<and> \<not> open_path a path \<and>
       (t = To_open path \<or> (\<exists>fd. t = To_register (rootdir (fst c) @ path) fd \<and> fresh_fd a path fd c))"
| "at_work sha D a0 a q c (Release fh) t \<longleftrightarrow> (\<exists>r. t = Finished r \<and> settled a0 a (Release fh) r) \<or>
     (\<exists>path. f_open a0 fh = Some path \<and> f_files a path = f_files a0 path \<and>
       (t = To_release fh \<and> f_open a fh = Some path \<or> t = To_close 0 fh \<and> \<not> open_path a path \<and> loose a fh c))"
| "at_work sha D a0 a q c (Read buf sz offset fh) t \<longleftrightarrow> (\<exists>r. t = Finished r \<and> settled a0 a (Read buf sz offset fh) r) \<or>
     (\<exists>path n af. f_open a0 fh = Some path \<and> f_open a fh = Some path \<and> f_files a0 path = Some (n, af) \<and>
       f_files a path = Some (n, af) \<and> (t = To_read buf sz offset fh \<or>
       (\<exists>r. t = Reading q r \<and> cfs_get_file (cfs (fst c)) fh = Some (r_file r) \<and> reader_at af (nat (offset div 4096)) buf r)))"
| "at_work sha D a0 a q c (Write buf sz offset fh) t \<longleftrightarrow> (\<exists>r. t = Finished r \<and> settled a0 a (Write buf sz offset fh) r) \<or>
     (\<exists>path n af n' af'. f_open a0 fh = Some path \<and> f_open a fh = Some path \<and> f_files a0 path = Some (n, af) \<and>
       f_files a path = Some (n', af') \<and> (t = To_write buf sz offset fh \<and> n' = n \<and> af' = af \<or>
       (\<exists>w. t = Writing q w \<and> cfs_get_file (cfs (fst c)) fh = Some (w_file w) \<and> w_size w = sz \<and> 0 \<le> w_buffer_index w \<and>
         n' = n + of_int (w_buffer_index w) \<and>
         due_at sha D w af' (af @ chunks (nat (offset div 4096)) buf) (cfs (fst c)) (snd c))))"
| "at_work sha D a0 a q c _ t \<longleftrightarrow> False"

text \<open>The descriptor that belongs to a thread and to no handle.\<close>

fun task_fd :: "task \<Rightarrow> int option" where
  "task_fd (To_register path fd) = Some fd"
| "task_fd (To_close r fd) = Some fd"
| "task_fd _ = None"

fun task_todo :: "task \<Rightarrow> nat" where
  "task_todo (To_open path) = 2"
| "task_todo (To_register path fd) = 1"
| "task_todo (To_release fh) = 2"
| "task_todo (To_close r fh) = 1"
| "task_todo (To_read buf sz offset fh) = 2 + nat sz"
| "task_todo (Reading b r) = 1 + nat (r_size r - r_buffer_index r)"
| "task_todo (To_write buf sz offset fh) = 3 + 2 * nat sz"
| "task_todo (Writing b w) = 1 + todo w"
| "task_todo (Finished r) = 0"

fun is_opening :: "task \<Rightarrow> bool" where
  "is_opening (To_open path) = True"
| "is_opening _ = False"

subsection \<open>What a step leaves to the others\<close>

definition gentle :: "int \<Rightarrow> path \<Rightarrow> fs_spec \<Rightarrow> fs_spec \<Rightarrow> bb_state \<times> os \<Rightarrow> bb_state \<times> os \<Rightarrow> bool" where
  "gentle fd path a a' c c' \<longleftrightarrow> rootdir (fst c') = rootdir (fst c) \<and>
     (\<forall>q. names (snd c) q \<noteq> None \<longrightarrow> names (snd c') q = names (snd c) q) \<and>
     (\<forall>fd'. fd' \<noteq> fd \<longrightarrow> get_fd (snd c) fd' \<noteq> None \<longrightarrow> get_fd (snd c') fd' = get_fd (snd c) fd') \<and>
     (\<forall>fd'. fd' \<noteq> fd \<longrightarrow> fd' \<noteq> -1 \<longrightarrow> cfs_get_file (cfs (fst c')) fd' = cfs_get_file (cfs (fst c)) fd') \<and>
     (\<forall>q. q \<noteq> path \<longrightarrow> f_files a' q = f_files a q) \<and> (\<forall>fd'. fd' \<noteq> fd \<longrightarrow> f_open a' fd' = f_open a fd') \<and>
     f_open a fd \<in> {None, Some path} \<and> f_open a' fd \<in> {None, Some path}"

lemma gentleD:
  assumes "gentle fd path a a' c c'"
  shows "rootdir (fst c') = rootdir (fst c)" "names (snd c) q = Some n \<Longrightarrow> names (snd c') q = Some n"
    "fd' \<noteq> fd \<Longrightarrow> get_fd (snd c) fd' \<noteq> None \<Longrightarrow> get_fd (snd c') fd' = get_fd (snd c) fd'"
    "fd' \<noteq> fd \<Longrightarrow> fd' \<noteq> -1 \<Longrightarrow> cfs_get_file (cfs (fst c')) fd' = cfs_get_file (cfs (fst c)) fd'"
    "p \<noteq> path \<Longrightarrow> f_files a' p = f_files a p" "fd' \<noteq> fd \<Longrightarrow> f_open a' fd' = f_open a fd'"
  using assms by (auto simp: gentle_def)

lemma gentle_handle:
  assumes "gentle fd path a a' c c'" "p \<noteq> path"
  shows "f_open a' fd' = Some p \<longleftrightarrow> f_open a fd' = Some p" "open_path a' p = open_path a p" "f_open a fd' = Some p \<Longrightarrow> fd' \<noteq> fd"
proof -
  show h: "f_open a' fd' = Some p \<longleftrightarrow> f_open a fd' = Some p" for fd'
    using assms by (cases "fd' = fd") (auto simp: gentle_def)
  show "open_path a' p = open_path a p" by (simp add: open_path_def h)
  show "f_open a fd' = Some p \<Longrightarrow> fd' \<noteq> fd" using assms by (auto simp: gentle_def)
qed

lemma gentle_loose:
  assumes "gentle fd path a a' c c'" "fd' \<noteq> fd" "loose a fd' c"
  shows "loose a' fd' c'" "get_fd (snd c') fd' = get_fd (snd c) fd'"
proof -
  note g = gentleD [OF assms(1)]
  have l: "get_fd (snd c) fd' \<noteq> None" "fd' \<notin> set (fds (cfs (fst c)))" "f_open a fd' = None" "0 \<le> fd'" "s32 fd' = fd'" "u64 fd' = fd'"
    using assms(3) by (auto simp: loose_def split: prod.splits)
  show s: "get_fd (snd c') fd' = get_fd (snd c) fd'" by (rule g(3) [OF assms(2) l(1)])
  have "fd' \<noteq> -1" using l(4) by simp
  then have "cfs_get_file (cfs (fst c')) fd' = cfs_get_file (cfs (fst c)) fd'" by (rule g(4) [OF assms(2)])
  then have "fd' \<notin> set (fds (cfs (fst c')))" using l(2) get_file_mem [of _ fd'] by metis
  then show "loose a' fd' c'" using l s g(6) [OF assms(2)] by (simp add: loose_def case_prod_unfold)
qed

lemma gentle_fresh:
  assumes "gentle fd path a a' c c'" "fd' \<noteq> fd" "fresh_fd a p fd' c"
  shows "fresh_fd a' p fd' c'"
proof -
  have l: "loose a fd' c" using assms(3) by (simp add: fresh_fd_def)
  note g = gentleD [OF assms(1)] gentle_loose [OF assms(1,2) l]
  show ?thesis using assms(3) g(1,2,7,8) by (auto simp: fresh_fd_def case_prod_unfold)
qed

lemma gentle_settled:
  assumes "gentle fd path a a' c c'" "path_of a0 rq \<noteq> Some path" "settled a0 a rq r"
  shows "settled a0 a' rq r"
  using assms(2,3) gentleD(5) [OF assms(1)] gentle_handle [OF assms(1)] by (cases rq) auto

lemma due_at_opened: "due_at sha D w af fin st s \<Longrightarrow> opened sha D st' (w_file w) af s' \<Longrightarrow> due_at sha D w af fin st' s'"
  unfolding due_at_def by blast

lemma at_work_beside:
  assumes at: "at_work sha D a0 a q c rq t" and st: "fs_stands sha D a c" "fs_stands sha D a' c'"
    and g: "gentle fd path a a' c c'" and ne: "path_of a0 rq \<noteq> Some path" "task_fd t \<noteq> Some fd"
  shows "at_work sha D a0 a' q c' rq t"
proof -
  obtain bb s bb' s' where c: "c = (bb, s)" "c' = (bb', s')" by (metis prod.exhaust)
  note gd = gentleD [OF g] and gh = gentle_handle [OF g]
  have same: "cfs_get_file (cfs bb') fh = cfs_get_file (cfs bb) fh" if "f_open a fh = Some p" "p \<noteq> path" for fh p
    using gd(4) gh(3) [OF that(2,1)] stands_handle(2) [OF st(1) [unfolded c]] that(1) c by fastforce
  show ?thesis
  proof (cases "\<exists>r. t = Finished r \<and> settled a0 a rq r")
    case True
    then obtain r where "t = Finished r" "settled a0 a' rq r" using gentle_settled [OF g ne(1)] by blast
    then show ?thesis by (cases rq) simp_all
  next
    case False
    show ?thesis
    proof (cases rq)
      case (Open p)
      then show ?thesis using at False ne gd(1,5) gh(2) gentle_fresh [OF g] by auto
    next
      case (Release fh)
      then show ?thesis using at False ne gd(5) gh(1,2) gentle_loose(1) [OF g] by auto
    next
      case (Read buf sz offset fh)
      then show ?thesis using at False ne gd(5) gh(1) same c by auto
    next
      case (Write buf sz offset fh)
      then obtain p n af n' af' where w: "f_open a0 fh = Some p" "f_open a fh = Some p" "f_files a0 p = Some (n, af)" "f_files a p = Some (n', af')"
        and t: "t = To_write buf sz offset fh \<and> n' = n \<and> af' = af \<or> (\<exists>w. t = Writing q w \<and> cfs_get_file (cfs bb) fh = Some (w_file w) \<and>
          w_size w = sz \<and> 0 \<le> w_buffer_index w \<and> n' = n + of_int (w_buffer_index w) \<and>
          due_at sha D w af' (af @ chunks (nat (offset div 4096)) buf) (cfs bb) s)"
        using at False c by auto
      have p: "p \<noteq> path" using ne(1) w(1) Write by simp
      have w': "f_open a' fh = Some p" "f_files a' p = Some (n', af')" using gh(1) [OF p] gd(5) [OF p] w(2,4) by simp_all
      obtain i where "cfs_get_file (cfs bb') fh = Some i" "opened sha D (cfs bb') i af' s'"
        using stands_lookup [OF st(2) [unfolded c] w'] by metis
      then have "due_at sha D w af' fin (cfs bb') s'" if "cfs_get_file (cfs bb) fh = Some (w_file w)" "due_at sha D w af' fin (cfs bb) s" for w fin
        using due_at_opened [OF that(2)] same [OF w(2) p] that(1) by simp
      then show ?thesis using w w' t same [OF w(2) p] Write c by auto
    qed (use at in simp_all)
  qed
qed

subsection \<open>One step\<close>

definition goes ::
  "(byte list \<Rightarrow> byte list) \<Rightarrow> byte list set \<Rightarrow> fs_spec \<Rightarrow> nat set \<Rightarrow> bool \<times> bool \<Rightarrow> request \<Rightarrow> task \<Rightarrow> fs_spec \<Rightarrow> shared \<Rightarrow> bool" where
  "goes sha D a0 base m rq t a c \<longleftrightarrow> (case c of (bb, p, h, s) \<Rightarrow> \<exists>t' bb' p' h' s' a' fd path.
     task_step sha m t (bb, p, h, s) = Some (t', bb', p', h', s') \<and> files_p p' = files_p p \<and> holds base (owned p') h' \<and>
     fs_stands sha D a' (bb', s') \<and> path_of a0 rq = Some path \<and> gentle fd path a a' (bb, s) (bb', s') \<and>
     at_work sha D a0 a' (files_p p) (bb', s') rq t' \<and>
     (get_fd s fd = None \<or> f_open a fd = Some path \<or> task_fd t = Some fd) \<and> task_fd t' \<in> {None, Some fd} \<and>
     task_todo t' < task_todo t \<and> \<not> is_opening t' \<and> f_room a \<le> f_room a' + (if is_opening t then 1 else 0) \<and>
     refs_valid s' = refs_valid s)"

lemma goesI:
  assumes "task_step sha m t (bb, p, h, s) = Some (t', bb', p', h', s')" "lasts sha D a' (bb, s) (bb', s')"
    and "path_of a0 rq = Some path" "gentle fd path a a' (bb, s) (bb', s')" "at_work sha D a0 a' (files_p p) (bb', s') rq t'"
    and "get_fd s fd = None \<or> f_open a fd = Some path \<or> task_fd t = Some fd" "task_fd t' \<in> {None, Some fd}"
    and "task_todo t' < task_todo t" "\<not> is_opening t'" "f_room a \<le> f_room a' + (if is_opening t then 1 else 0)"
    and "holds base (owned p') h'" "files_p p' = files_p p"
  shows "goes sha D a0 base m rq t a (bb, p, h, s)"
  unfolding goes_def prod.case using assms
  by (intro exI [of _ t'] exI [of _ bb'] exI [of _ p'] exI [of _ h'] exI [of _ s'] exI [of _ a'] exI [of _ fd] exI [of _ path])
    (simp add: lasts_def)

lemma lasts_same: "fs_stands sha D a (bb, s) \<Longrightarrow> lasts sha D a (bb, s) (bb, s)"
  by (simp add: lasts_def)

lemma gentle_same: "f_open a fd = Some path \<Longrightarrow> gentle fd path a a c c"
  by (simp add: gentle_def)

lemma holds_points: "holds base (owned p) h \<Longrightarrow> points (files_p p) p h"
  by (simp add: points_def holds_def owned_def)

lemma grow_stays: "grow_pointers m p h = Some (p', h') \<Longrightarrow> \<not> fst m \<Longrightarrow> files_p p' = files_p p"
  by (auto simp: grow_pointers_def realloc_def split: Option.bind_splits if_splits)

lemma open_goes:
  assumes st: "fs_stands sha D a (bb, s)" and at: "at_work sha D a0 a (files_p p) (bb, s) (Open path) t"
    and t: "\<forall>r. t \<noteq> Finished r" "is_opening t \<Longrightarrow> 2 \<le> f_room a" and h: "holds base (owned p) h" "\<not> fst m"
  shows "goes sha D a0 base m (Open path) t a (bb, p, h, s)"
proof -
  have f: "f_files a path = f_files a0 path" "f_files a path \<noteq> None" "\<not> open_path a path"
    and w: "t = To_open path \<or> (\<exists>fd. t = To_register (rootdir bb @ path) fd \<and> fresh_fd a path fd (bb, s))"
    using at t(1) unfolding at_work.simps fst_conv by metis+
  have nm: "path \<in> fs_names a" using f(2) by (auto simp: fs_names_def)
  show ?thesis
  proof (cases "t = To_open path")
    case True
    let ?a = "a\<lparr>f_room := f_room a - 1\<rparr>"
    obtain fd s' where o: "sys_open (rootdir bb @ path) O_RDWR s = (fd, s')" "lasts sha D ?a (bb, s) (bb, s')" "get_fd s fd = None"
      "fresh_fd ?a path fd (bb, s')" "\<forall>fd'. fd' \<noteq> fd \<longrightarrow> get_fd s' fd' = get_fd s fd'" "names s' = names s"
      using open_call [OF st f(2)] t(2) True by auto
    have lo: "0 \<le> fd" "f_open a fd = None" using o(4) by (simp_all add: fresh_fd_def loose_def)
    have "ideal s'" using o(2) stands_parts(4) by (auto simp: lasts_def)
    then have "task_step sha m t (bb, p, h, s) = Some (To_register (rootdir bb @ path) fd, bb, p, h, s')"
      using o(1) lo(1) stands_usable(1) [OF st nm] True by (simp add: ideal_simps)
    then show ?thesis
      by (rule goesI [OF _ o(2), where fd = fd and path = path])
        (use o f lo t(2) True h(1) in \<open>auto simp: gentle_def open_path_def\<close>)
  next
    case False
    then obtain fd where fd: "t = To_register (rootdir bb @ path) fd" "fresh_fd a path fd (bb, s)" using w by blast
    let ?a = "a\<lparr>f_open := (f_open a)(fd \<mapsto> path)\<rparr>"
    obtain st' s' where r: "cfs_register_file (cfs bb) (rootdir bb @ path) fd s = Some ((fd, st'), s')"
      "lasts sha D ?a (bb, s) (bb\<lparr>cfs := st'\<rparr>, s')" "entered (cfs bb) (rootdir bb @ path) fd st'"
      "\<forall>fd'. fd' \<noteq> fd \<longrightarrow> get_fd s' fd' = get_fd s fd'" "names s' = names s"
      using register_call [OF st f(2,3) fd(2)] by blast
    have lo: "u64 fd = fd" "f_open a fd = None" using fd(2) by (simp_all add: fresh_fd_def loose_def)
    obtain p1 h1 where "grow_pointers m p h = Some (p1, h1)" "holds base (owned p1) h1" using grow_owns [OF h(1)] by blast
    moreover from this have "files_p p1 = files_p p" using grow_stays h(2) by blast
    ultimately obtain p' h' where g: "(if fds_cap (cfs bb) div 2 \<le> unat (n_fds (cfs bb)) then grow_pointers m p h else Some (p, h)) = Some (p', h')"
      "holds base (owned p') h'" "files_p p' = files_p p"
      using h(1) by (cases "fds_cap (cfs bb) div 2 \<le> unat (n_fds (cfs bb))") auto
    have "task_step sha m t (bb, p, h, s) = Some (Finished (Handle 0 fd), bb\<lparr>cfs := st'\<rparr>, p', h', s')"
      using fd(1) g(1) r(1) lo(1) by simp
    then show ?thesis
      by (rule goesI [OF _ r(2), where fd = fd and path = path])
        (use r f lo fd g in \<open>auto simp: gentle_def open_path_def entered_def\<close>)
  qed
qed

lemma release_goes:
  assumes st: "fs_stands sha D a (bb, s)" and at: "at_work sha D a0 a (files_p p) (bb, s) (Release fh) t"
    and t: "\<forall>r. t \<noteq> Finished r" and h: "holds base (owned p) h"
  shows "goes sha D a0 base m (Release fh) t a (bb, p, h, s)"
proof -
  obtain path where f: "f_open a0 fh = Some path" "f_files a path = f_files a0 path"
    and w: "t = To_release fh \<and> f_open a fh = Some path \<or> t = To_close 0 fh \<and> \<not> open_path a path \<and> loose a fh (bb, s)"
    using at t(1) by auto
  show ?thesis
  proof (cases "t = To_release fh")
    case True
    then have p: "f_open a fh = Some path" using w by simp
    let ?a = "a\<lparr>f_open := (f_open a)(fh := None)\<rparr>"
    obtain st' where r: "cfs_release_file (cfs bb) (s32 fh) = Some (0, st')" "lasts sha D ?a (bb, s) (bb\<lparr>cfs := st'\<rparr>, s)"
      "left (cfs bb) fh st'" "loose ?a fh (bb\<lparr>cfs := st'\<rparr>, s)" using release_call [OF st p] by blast
    have only: "f_open a fd' = Some path \<longleftrightarrow> fd' = fh" for fd' using stands_open [OF st p] by metis
    have "task_step sha m t (bb, p, h, s) = Some (To_close 0 fh, bb\<lparr>cfs := st'\<rparr>, p, h, s)" using True r(1) by simp
    then show ?thesis
      by (rule goesI [OF _ r(2), where fd = fh and path = path])
        (use r f only p h True in \<open>auto simp: gentle_def open_path_def left_def\<close>)
  next
    case False
    then have l: "t = To_close 0 fh" "\<not> open_path a path" "loose a fh (bb, s)" using w by simp_all
    let ?a = "a\<lparr>f_room := f_room a + 1\<rparr>"
    obtain s' where r: "sys_close (s32 fh) s = (0, s')" "lasts sha D ?a (bb, s) (bb, s')"
      "\<forall>fd'. fd' \<noteq> fh \<longrightarrow> get_fd s' fd' = get_fd s fd'" "names s' = names s" using close_call [OF st l(3)] by blast
    have "ideal s'" using r(2) stands_parts(4) by (auto simp: lasts_def)
    then have "task_step sha m t (bb, p, h, s) = Some (Finished (Status 0), bb, p, h, s')" using l(1) r(1) by (simp add: ideal_simps)
    then show ?thesis
      by (rule goesI [OF _ r(2), where fd = fh and path = path])
        (use r f l h in \<open>auto simp: gentle_def open_path_def loose_def\<close>)
  qed
qed

lemma reader_starts:
  "sz = int (length buf) \<Longrightarrow> length buf mod 4096 = 0 \<Longrightarrow> length buf < 2147483648 \<Longrightarrow> 4096 * int k + sz < 9223372036854775808 \<Longrightarrow>
   reader_at af k buf \<lparr>r_file = i, r_buf = buf, r_size = sz, r_offset = 4096 * int k, r_current = 4096 * int k, r_buffer_index = 0\<rparr>"
  unfolding reader_at_def by (rule exI [of _ k], rule exI [of _ "[]"], rule exI [of _ buf]) simp

lemma read_goes:
  assumes st: "fs_stands sha D a (bb, s)" and at: "at_work sha D a0 a (files_p p) (bb, s) (Read buf sz offset fh) t"
    and al: "fs_allowed D a0 (Read buf sz offset fh)" and t: "\<forall>r. t \<noteq> Finished r" and h: "holds base (owned p) h"
    and rv: "refs_valid s"
  shows "goes sha D a0 base m (Read buf sz offset fh) t a (bb, p, h, s)"
proof -
  obtain path n af where f: "f_open a0 fh = Some path" "f_open a fh = Some path" "f_files a0 path = Some (n, af)"
    "f_files a path = Some (n, af)" and w: "t = To_read buf sz offset fh \<or>
       (\<exists>r. t = Reading (files_p p) r \<and> cfs_get_file (cfs bb) fh = Some (r_file r) \<and> reader_at af (nat (offset div 4096)) buf r)"
    using at t(1) by auto
  obtain i where i: "cfs_get_file (cfs bb) (s32 fh) = Some i" "cfs_get_file (cfs bb) fh = Some i" "opened sha D (cfs bb) i af s"
    "f_path (files (cfs bb) ! i) = rootdir bb @ path" "f_fd (files (cfs bb) ! i) = fh"
    using stands_lookup [OF st f(2,4)] by metis
  have al': "sz = int (length buf)" "length buf mod 4096 = 0" "length buf < 2147483648" "0 \<le> offset" "offset mod 4096 = 0"
    "offset + sz < 9223372036854775808" using al by simp_all
  have off: "offset = 4096 * int (nat (offset div 4096))" by (rule whole_offset [OF al'(4,5)])
  note same = lasts_same [OF st] and gs = gentle_same [OF f(2), of "(bb, s)"]
  show ?thesis
  proof (cases "t = To_read buf sz offset fh")
    case True
    let ?r = "\<lparr>r_file = i, r_buf = buf, r_size = sz, r_offset = offset, r_current = offset, r_buffer_index = 0\<rparr>"
    have "reader_at af (nat (offset div 4096)) buf ?r"
      using reader_starts [of sz buf "nat (offset div 4096)" af i] al'(1,2,3,6) unfolding off [symmetric] by blast
    then show ?thesis
      using True f i(1,2) al'(1) h
      by (intro goesI [OF _ same, where t' = "Reading (files_p p) ?r" and p' = p and h' = h and fd = fh and path = path, OF _ _ gs]) auto
  next
    case False
    then obtain r where r: "t = Reading (files_p p) r" "r_file r = i" "reader_at af (nat (offset div 4096)) buf r"
      using w i(2) by auto
    obtain k pre rest where b: "r_buf r = pre @ rest" "length rest mod 4096 = 0" "r_current r = 4096 * int k"
      "r_offset r = 4096 * int k - int (length pre)" "0 \<le> r_offset r" "r_size r = int (length buf)"
      "r_size r = int (length pre) + int (length rest)" "r_size r < 2147483648" "r_buffer_index r = int (length pre)"
      "4096 * int k + int (length rest) < 9223372036854775808" "pre @ pages af k rest = pages af (nat (offset div 4096)) buf"
      using r(3) unfolding reader_at_def by metis
    show ?thesis
    proof (cases "rest = []")
      case True
      then have "\<not> u64 (r_current r) < u64 (r_offset r + r_size r)" using b(3,4,7) by simp
      then have "task_step sha m t (bb, p, h, s) = Some (Finished (Data sz pre), bb, p, h, s)"
        using r(1) b(1,3,4,6,7,8) al'(1) True s32_small [of "length buf"] by simp
      moreover have "pages af (nat (offset div 4096)) buf = pre" using b(11) True by (simp add: pages.simps [of _ _ "[]"])
      ultimately show ?thesis
        using r(1) f h by (intro goesI [OF _ same, where path = path and fd = fh, OF _ _ gs]) auto
    next
      case False
      have long: "4096 \<le> length rest" using False b(2) by (metis length_0_conv mod_less not_le)
      let ?p = "overlay (take 4096 rest) (fetch af k)"
      have lf: "length (fetch af k) \<le> 4096" by (rule fetch_length [OF i(3)])
      have ov: "overlay rest (fetch af k) = ?p @ drop 4096 rest" using lf by (rule overlay_split)
      have lp: "length ?p = 4096" using lf long by simp
      note u = read_turn_aligned [OF i(3) long b(4,7,5,10)]
      obtain s' where s': "opened sha D (cfs bb) i af s'" "evolves sha D (storage (cfs bb)) (rootdir bb @ path) fh s s'"
        "read_turn i (r_size r) (r_offset r) (4096 * int k) (int (length pre)) (pre @ rest) (cfs bb) s =
         Some ((4096 * int (Suc k), int (length pre) + 4096, (pre @ ?p) @ drop 4096 rest, cfs bb), s')"
        using u(1) i(4,5) ov rv by auto
      let ?r = "r\<lparr>r_current := 4096 * int (Suc k), r_buffer_index := int (length pre) + 4096, r_buf := (pre @ ?p) @ drop 4096 rest\<rparr>"
      have "lasts sha D (a\<lparr>f_files := (f_files a)(path \<mapsto> (n + of_nat 0, af))\<rparr>) (bb, s) (bb\<lparr>cfs := cfs bb\<rparr>, s')"
        by (rule stands_evolved [OF st f(2) i(2) s'(1) advanced_0 s'(2) f(4)])
      moreover have "a\<lparr>f_files := (f_files a)(path \<mapsto> (n + of_nat 0, af))\<rparr> = a" using f(4) by (simp add: fun_upd_idem)
      ultimately have la: "lasts sha D a (bb, s) (bb, s')" by simp
      have ne: "rest \<noteq> []" and less: "(length rest - 4096) mod 4096 = 0" using False b(2) le_mod_geq [OF long] by simp_all
      have "reader_at af (nat (offset div 4096)) buf ?r"
        unfolding reader_at_def
        by (rule exI [of _ "Suc k"], rule exI [of _ "pre @ ?p"], rule exI [of _ "drop 4096 rest"], insert b lp long ne less)
          (auto simp: pages.simps [of af k rest])
      moreover have "task_step sha m t (bb, p, h, s) = Some (Reading (files_p p) ?r, bb, p, h, s')"
        using r(1,2) u(2) holds_points [OF h] s'(3) b(1,3,9) by simp
      moreover have "gentle fh path a a (bb, s) (bb, s')" using s'(2) f(2) by (auto simp: gentle_def evolves_def)
      moreover have "nat (r_size ?r - r_buffer_index ?r) < nat (r_size r - r_buffer_index r)" using b(7,9) long by simp
      ultimately show ?thesis
        using r(1,2) f i(2) h by (intro goesI [OF _ la, where path = path and fd = fh and p' = p and h' = h]) auto
    qed
  qed
qed

lemma write_goes:
  assumes st: "fs_stands sha D a (bb, s)" and at: "at_work sha D a0 a (files_p p) (bb, s) (Write buf sz offset fh) t"
    and al: "fs_allowed D a0 (Write buf sz offset fh)" and t: "\<forall>r. t \<noteq> Finished r" and h: "holds base (owned p) h"
  shows "goes sha D a0 base m (Write buf sz offset fh) t a (bb, p, h, s)"
proof -
  let ?k = "nat (offset div 4096)"
  obtain path n af n' af' where f: "f_open a0 fh = Some path" "f_open a fh = Some path" "f_files a0 path = Some (n, af)"
    "f_files a path = Some (n', af')" and w: "t = To_write buf sz offset fh \<and> n' = n \<and> af' = af \<or>
       (\<exists>w. t = Writing (files_p p) w \<and> cfs_get_file (cfs bb) fh = Some (w_file w) \<and> w_size w = sz \<and> 0 \<le> w_buffer_index w \<and>
         n' = n + of_int (w_buffer_index w) \<and> due_at sha D w af' (af @ chunks ?k buf) (cfs bb) s)"
    using at t(1) by auto
  obtain i where i: "cfs_get_file (cfs bb) (s32 fh) = Some i" "cfs_get_file (cfs bb) fh = Some i" "opened sha D (cfs bb) i af' s"
    "f_path (files (cfs bb) ! i) = rootdir bb @ path" "f_fd (files (cfs bb) ! i) = fh"
    using stands_lookup [OF st f(2,4)] by metis
  have al': "sz = int (length buf)" "0 \<le> offset" "offset mod 4096 = 0" "fresh_blocks D af ?k buf"
    using al f(1,3) by simp_all
  have off: "offset = 4096 * int ?k" by (rule whole_offset [OF al'(2,3)])
  have small: "length buf < 2147483648" using al'(4) by (simp add: fresh_blocks_def)
  note same = lasts_same [OF st] and gs = gentle_same [OF f(2), of "(bb, s)"]
  show ?thesis
  proof (cases "t = To_write buf sz offset fh")
    case True
    then have e: "n' = n" "af' = af" using w by auto
    let ?w = "writer_at i ?k buf"
    have "due_at sha D ?w af (af @ chunks ?k buf) (cfs bb) s" using writer_due_at [OF _ al'(4)] i(3) e(2) by simp
    moreover have "?w = \<lparr>w_file = i, w_buf = buf, w_size = sz, w_offset = offset, w_current = offset, w_buffer_index = 0, w_block = None\<rparr>"
      unfolding writer_at_def al'(1) off [symmetric] by simp
    ultimately show ?thesis
      using True f e i(1,2) al'(1) h
      by (intro goesI [OF _ same, where t' = "Writing (files_p p) ?w" and p' = p and h' = h and fd = fh and path = path, OF _ _ gs])
        (auto simp: todo_def)
  next
    case False
    then obtain w where w: "t = Writing (files_p p) w" "w_file w = i" "w_size w = sz" "0 \<le> w_buffer_index w"
      "n' = n + of_int (w_buffer_index w)" "due_at sha D w af' (af @ chunks ?k buf) (cfs bb) s" using w i(2) by auto
    show ?thesis
    proof (cases "w_done w")
      case True
      note d = due_at_done [OF w(6) True]
      have "task_step sha m t (bb, p, h, s) = Some (Finished (Status sz), bb, p, h, s)"
        using w(1,3) True al'(1) s32_small [OF small] by simp
      then show ?thesis
        using w(1,3,5) d f h by (intro goesI [OF _ same, where path = path and fd = fh, OF _ _ gs]) auto
    next
      case False
      obtain w' st' s' l af2 where g: "writer_step sha w (cfs bb) s = Some ((w', st'), s')" "due_at sha D w' af2 (af @ chunks ?k buf) st' s'"
        "w_file w' = w_file w" "w_size w' = w_size w" "w_buffer_index w' = w_buffer_index w + int l" "todo w' < todo w"
        "advanced i l (cfs bb) st'" "evolves sha D (storage (cfs bb)) (rootdir bb @ path) fh s s'"
        using due_step [OF w(6) False] w(2) i(4,5) by auto
      let ?a = "a\<lparr>f_files := (f_files a)(path \<mapsto> (n' + of_nat l, af2))\<rparr>"
      have op: "opened sha D st' i af2 s'" using g(2,3) w(2) by (auto simp: due_at_def)
      have la: "lasts sha D ?a (bb, s) (bb\<lparr>cfs := st'\<rparr>, s')"
        by (rule stands_evolved [OF st f(2) i(2) op g(7,8) f(4)])
      have same': "cfs_get_file st' = cfs_get_file (cfs bb)"
        using advanced_frame(1) [OF g(7)] by (simp add: fun_eq_iff cfs_get_file_def)
      have "task_step sha m t (bb, p, h, s) = Some (Writing (files_p p) w', bb\<lparr>cfs := st'\<rparr>, p, h, s')"
        using w(1) False holds_points [OF h] g(1) by simp
      moreover have "gentle fh path a ?a (bb, s) (bb\<lparr>cfs := st'\<rparr>, s')"
        using g(8) f(2) same' by (auto simp: gentle_def evolves_def)
      ultimately show ?thesis
        using w f i(2) h g same' by (intro goesI [OF _ la, where path = path and fd = fh and p' = p and h' = h]) auto
    qed
  qed
qed

lemma task_goes:
  assumes "fs_stands sha D a (bb, s)" "at_work sha D a0 a (files_p p) (bb, s) rq t" "fs_allowed D a0 rq"
    and "\<forall>r. t \<noteq> Finished r" "is_opening t \<Longrightarrow> 2 \<le> f_room a" "holds base (owned p) h" "\<not> fst m" "is_read rq \<Longrightarrow> refs_valid s"
  shows "goes sha D a0 base m rq t a (bb, p, h, s)"
  using assms open_goes release_goes read_goes write_goes by (cases rq) (simp_all del: fs_allowed.simps, blast+)

subsection \<open>All threads\<close>

type_synonym pool = "task list \<times> shared"

text \<open>\<open>mv\<close>: the array of open files may move when the registry grows.\<close>

inductive proceed :: "(byte list \<Rightarrow> byte list) \<Rightarrow> bool \<Rightarrow> pool \<Rightarrow> pool \<Rightarrow> bool" for sha mv where
  proceed_one: "k < length ts \<Longrightarrow> task_step sha m (ts ! k) c = Some (t, c') \<Longrightarrow> (fst m \<Longrightarrow> mv) \<Longrightarrow>
    proceed sha mv (ts, c) (ts[k := t], c')"

inductive_cases proceedE: "proceed sha mv (ts, c) x"

text \<open>Requests that are permitted, of handlers that are modelled as tasks, on different files.\<close>

definition concurrent :: "byte list set \<Rightarrow> bool \<Rightarrow> fs_spec \<Rightarrow> request list \<Rightarrow> bool" where
  "concurrent D v a rqs \<longleftrightarrow> distinct (map (path_of a) rqs) \<and> list_all (\<lambda>rq. fs_permits D v a rq \<and> task_of rq \<noteq> None) rqs \<and>
     length (filter is_opening (map (the \<circ> task_of) rqs)) < f_room a"

definition all_at_work ::
  "(byte list \<Rightarrow> byte list) \<Rightarrow> byte list set \<Rightarrow> fs_spec \<Rightarrow> nat set \<Rightarrow> request list \<Rightarrow> bool \<Rightarrow> fs_spec \<Rightarrow> pool \<Rightarrow> bool" where
  "all_at_work sha D a0 base rqs v a x \<longleftrightarrow> (case x of (ts, bb, p, h, s) \<Rightarrow>
     fs_stands sha D a (bb, s) \<and> refs_valid s = v \<and> holds base (owned p) h \<and> length ts = length rqs \<and> length (filter is_opening ts) < f_room a \<and>
     (\<forall>k < length ts. at_work sha D a0 a (files_p p) (bb, s) (rqs ! k) (ts ! k)) \<and>
     (\<forall>j < length ts. \<forall>k < length ts. \<forall>fd. j \<noteq> k \<longrightarrow> task_fd (ts ! j) = Some fd \<longrightarrow> task_fd (ts ! k) \<noteq> Some fd))"

text \<open>The descriptor of a thread is open, and no handle stands for it.\<close>

lemma at_work_loose:
  assumes "at_work sha D a0 a q (bb, s) rq t" "task_fd t = Some fd"
  shows "get_fd s fd \<noteq> None" "f_open a fd = None"
  using assms by (cases rq; auto simp: fresh_fd_def loose_def)+

lemma filter_update_le:
  "k < length xs \<Longrightarrow> \<not> P y \<Longrightarrow> length (filter P (xs[k := y])) + (if P (xs ! k) then 1 else 0) = length (filter P xs)"
proof (induction xs arbitrary: k)
  case (Cons x xs)
  then show ?case by (cases k) auto
qed simp

lemma all_at_work_step:
  assumes "all_at_work sha D a0 base rqs v a (ts, bb, p, h, s)" "concurrent D v a0 rqs" "k < length ts" "\<not> fst m"
    and nf: "\<forall>r. ts ! k \<noteq> Finished r"
  shows "\<exists>t c'. task_step sha m (ts ! k) (bb, p, h, s) = Some (t, c') \<and> task_todo t < task_todo (ts ! k) \<and>
    (\<exists>a'. all_at_work sha D a0 base rqs v a' (ts[k := t], c'))"
proof -
  have rv: "refs_valid s = v" using assms(1) by (simp add: all_at_work_def)
  have w: "fs_stands sha D a (bb, s)" "holds base (owned p) h" "length ts = length rqs" "length (filter is_opening ts) < f_room a"
    "\<And>k. k < length ts \<Longrightarrow> at_work sha D a0 a (files_p p) (bb, s) (rqs ! k) (ts ! k)"
    "\<And>j k fd. j < length ts \<Longrightarrow> k < length ts \<Longrightarrow> j \<noteq> k \<Longrightarrow> task_fd (ts ! j) = Some fd \<Longrightarrow> task_fd (ts ! k) \<noteq> Some fd"
    using assms(1) by (auto simp: all_at_work_def)
  have c: "distinct (map (path_of a0) rqs)" "fs_allowed D a0 (rqs ! k)" "is_read (rqs ! k) \<Longrightarrow> refs_valid s"
    using assms(2,3) w(3) rv by (auto simp: concurrent_def fs_permits_def list_all_length)
  have room: "2 \<le> f_room a" if "is_opening (ts ! k)"
  proof -
    have "0 < length (filter is_opening ts)" using that assms(3) by (auto simp: filter_empty_conv)
    then show ?thesis using w(4) by linarith
  qed
  obtain t bb' p' h' s' a' fd path where g: "task_step sha m (ts ! k) (bb, p, h, s) = Some (t, bb', p', h', s')"
    "files_p p' = files_p p" "holds base (owned p') h'" "fs_stands sha D a' (bb', s')" "path_of a0 (rqs ! k) = Some path"
    "gentle fd path a a' (bb, s) (bb', s')" "at_work sha D a0 a' (files_p p) (bb', s') (rqs ! k) t"
    "get_fd s fd = None \<or> f_open a fd = Some path \<or> task_fd (ts ! k) = Some fd" "task_fd t \<in> {None, Some fd}"
    "task_todo t < task_todo (ts ! k)" "\<not> is_opening t" "f_room a \<le> f_room a' + (if is_opening (ts ! k) then 1 else 0)"
    "refs_valid s' = refs_valid s"
    using task_goes [OF w(1) w(5) [OF assms(3)] c(2) nf room w(2) assms(4) c(3)] unfolding goes_def prod.case by blast
  have apart: "task_fd (ts ! j) \<noteq> Some fd" if "j < length ts" "j \<noteq> k" for j
    using at_work_loose [OF w(5) [OF that(1)], of fd] w(6) [OF assms(3) that(1)] g(8) that(2) by (metis option.distinct(1))
  have "at_work sha D a0 a' (files_p p') (bb', s') (rqs ! j) (ts[k := t] ! j)" if "j < length ts" for j
  proof (cases "j = k")
    case False
    have "path_of a0 (rqs ! j) \<noteq> Some path"
      using c(1) g(5) False that assms(3) w(3) nth_eq_iff_index_eq [OF c(1), of j k] by auto
    then show ?thesis
      using at_work_beside [OF w(5) [OF that] w(1) g(4,6) _ apart [OF that False]] False g(2) by simp
  qed (use g(2,7) assms(3) in simp)
  moreover have "task_fd (ts[k := t] ! j) = Some x \<Longrightarrow> task_fd (ts[k := t] ! l) \<noteq> Some x"
    if "j < length ts" "l < length ts" "j \<noteq> l" for j l x
    using that apart w(6) [OF that] g(9) by (cases "j = k"; cases "l = k") auto
  moreover have "length (filter is_opening (ts[k := t])) < f_room a'"
    using filter_update_le [of k ts is_opening t, OF assms(3) g(11)] g(12) w(4) by linarith
  ultimately have "all_at_work sha D a0 base rqs v a' (ts[k := t], bb', p', h', s')"
    using g(3,4,13) w(3) rv by (simp add: all_at_work_def)
  then show ?thesis using g(1,10) by blast
qed

text \<open>What is left to do gets less with every step, and nothing a thread may do next is undefined.\<close>

definition left_over :: "task list \<Rightarrow> nat" where
  "left_over ts = sum_list (map task_todo ts)"

lemma left_over_update:
  assumes "k < length ts" "task_todo t < task_todo (ts ! k)"
  shows "left_over (ts[k := t]) < left_over ts"
  using assms elem_le_sum_list [of k "map task_todo ts"] by (simp add: left_over_def map_update sum_list_update)

lemma all_at_work_proceed:
  assumes "all_at_work sha D a0 base rqs v a (ts, c)" "concurrent D v a0 rqs" "proceed sha False (ts, c) x"
  shows "\<exists>a'. all_at_work sha D a0 base rqs v a' x \<and> left_over (fst x) < left_over ts"
proof -
  obtain bb p h s where c: "c = (bb, p, h, s)" by (metis prod.exhaust)
  from assms(3) show ?thesis
  proof (rule proceedE)
    fix k m t c'
    assume r: "x = (ts[k := t], c')" "k < length ts" "task_step sha m (ts ! k) c = Some (t, c')" "fst m \<Longrightarrow> False"
    have "\<forall>r. ts ! k \<noteq> Finished r" using r(3) by (cases "ts ! k") auto
    then obtain t1 c1 a' where t: "task_step sha m (ts ! k) c = Some (t1, c1)" "task_todo t1 < task_todo (ts ! k)"
      "all_at_work sha D a0 base rqs v a' (ts[k := t1], c1)"
      using all_at_work_step [OF assms(1) [unfolded c] assms(2) r(2)] r(4) unfolding c by blast
    then have "t1 = t" "c1 = c'" using r(3) by simp_all
    then show ?thesis using t(3) left_over_update [OF r(2) t(2)] r(1) by auto
  qed
qed

lemma all_at_work_reachable:
  assumes "(proceed sha False ^^ n) (ts, c) x" "all_at_work sha D a0 base rqs v a (ts, c)" "concurrent D v a0 rqs"
  shows "\<exists>a'. all_at_work sha D a0 base rqs v a' x \<and> left_over (fst x) + n \<le> left_over ts"
  using assms(1)
proof (induction n arbitrary: x)
  case (Suc n)
  then obtain ts1 c1 where c1: "(proceed sha False ^^ n) (ts, c) (ts1, c1)" "proceed sha False (ts1, c1) x" by auto
  obtain a1 where a1: "all_at_work sha D a0 base rqs v a1 (ts1, c1)" "left_over ts1 + n \<le> left_over ts"
    using Suc.IH [OF c1(1)] by auto
  obtain a' where "all_at_work sha D a0 base rqs v a' x" "left_over (fst x) < left_over ts1"
    using all_at_work_proceed [OF a1(1) assms(3) c1(2)] by blast
  then show ?case using a1(2) by (intro exI [of _ a']) simp
qed (use assms(2) in auto)

lemma starts_at_work:
  assumes st: "fs_stands sha D a (bb, s)" and h: "holds base (owned p) h" and c: "concurrent D (refs_valid s) a rqs"
  shows "all_at_work sha D a base rqs (refs_valid s) a (map (the \<circ> task_of) rqs, bb, p, h, s)"
proof -
  have rq: "fs_allowed D a rq" "task_of rq \<noteq> None" if "rq \<in> set rqs" for rq
    using c that by (auto simp: concurrent_def fs_permits_def list_all_iff)
  have "at_work sha D a a (files_p p) (bb, s) rq (the (task_of rq)) \<and> task_fd (the (task_of rq)) = None" if "rq \<in> set rqs" for rq
  proof -
    have "\<exists>n af. f_files a path = Some (n, af)" if "f_open a fh = Some path" for fh path
      using stands_open [OF st that] by metis
    then show ?thesis using rq [OF that] by (cases rq) fastforce+
  qed
  moreover have "length (filter is_opening (map (the \<circ> task_of) rqs)) < f_room a"
    using c unfolding concurrent_def by blast
  ultimately show ?thesis using st h by (simp add: all_at_work_def)
qed

text \<open>Threads that can go no further have the replies of the specification.\<close>

lemma at_work_finished: "at_work sha D a0 a q c rq (Finished r) \<Longrightarrow> settled a0 a rq r"
  by (cases rq) auto

lemma all_finished:
  assumes "all_at_work sha D a0 base rqs v a (ts, bb, p, h, s)" "\<forall>t \<in> set ts. \<exists>r. t = Finished r"
  shows "\<exists>rs. ts = map Finished rs \<and> list_all2 (settled a0 a) rqs rs"
proof -
  have ts: "ts = map Finished (map (\<lambda>t. case t of Finished r \<Rightarrow> r) ts)"
    using assms(2) by (induction ts) auto
  have "settled a0 a (rqs ! k) (case ts ! k of Finished r \<Rightarrow> r)" if "k < length ts" for k
  proof -
    obtain r where "ts ! k = Finished r" using bspec [OF assms(2) nth_mem [OF \<open>k < length ts\<close>]] by blast
    then show ?thesis using assms(1) that at_work_finished by (fastforce simp: all_at_work_def)
  qed
  then have "list_all2 (settled a0 a) rqs (map (\<lambda>t. case t of Finished r \<Rightarrow> r) ts)"
    using assms(1) by (simp add: list_all2_conv_all_nth all_at_work_def)
  then show ?thesis using ts by blast
qed

lemma interleaving:
  assumes "fs_stands sha D a (bb, s)" "holds base (owned p) h" "concurrent D (refs_valid s) a rqs"
    and "(proceed sha False ^^ n) (map (the \<circ> task_of) rqs, bb, p, h, s) (ts, bb', p', h', s')"
  shows "n \<le> left_over (map (the \<circ> task_of) rqs) \<and>
    (\<forall>t \<in> set ts. (\<exists>r. t = Finished r) \<or> (\<forall>m. fst m \<or> task_step sha m t (bb', p', h', s') \<noteq> None)) \<and>
    ((\<forall>t \<in> set ts. \<exists>r. t = Finished r) \<longrightarrow>
     (\<exists>rs b. ts = map Finished rs \<and> list_all2 (settled a b) rqs rs \<and> fs_stands sha D b (bb', s')))"
proof -
  obtain b where b: "all_at_work sha D a base rqs (refs_valid s) b (ts, bb', p', h', s')"
    "left_over ts + n \<le> left_over (map (the \<circ> task_of) rqs)"
    using all_at_work_reachable [OF assms(4) starts_at_work [OF assms(1-3)] assms(3)] by auto
  have "task_step sha m t (bb', p', h', s') \<noteq> None" if "t \<in> set ts" "\<forall>r. t \<noteq> Finished r" "\<not> fst m" for t m
    using that all_at_work_step [OF b(1) assms(3) _ that(3)] by (metis in_set_conv_nth option.distinct(1))
  moreover have "fs_stands sha D b (bb', s')" using b(1) by (simp add: all_at_work_def)
  ultimately show ?thesis using b all_finished [OF b(1)] by auto
qed

lemma all_finish:
  assumes "all_at_work sha D a0 base rqs v a (ts, c)" "concurrent D v a0 rqs"
  shows "\<exists>n ts' c'. (proceed sha False ^^ n) (ts, c) (ts', c') \<and> (\<forall>t \<in> set ts'. \<exists>r. t = Finished r)"
  using assms(1)
proof (induction "left_over ts" arbitrary: ts c a rule: less_induct)
  case less
  show ?case
  proof (cases "\<forall>t \<in> set ts. \<exists>r. t = Finished r")
    case True
    then show ?thesis by (metis relpowp_0_I)
  next
    case False
    then obtain k where k: "k < length ts" "\<forall>r. ts ! k \<noteq> Finished r" by (metis in_set_conv_nth)
    obtain bb p h s where c: "c = (bb, p, h, s)" by (metis prod.exhaust)
    obtain t c' a' where t: "task_step sha (False, False) (ts ! k) c = Some (t, c')" "task_todo t < task_todo (ts ! k)"
      "all_at_work sha D a0 base rqs v a' (ts[k := t], c')"
      using all_at_work_step [OF less.prems [unfolded c] assms(2) k(1) _ k(2), of "(False, False)"] c by auto
    have "proceed sha False (ts, c) (ts[k := t], c')" using proceed_one [OF k(1) t(1)] by simp
    then show ?thesis using less.hyps [OF left_over_update [OF k(1) t(2)] t(3)] by (meson relpowp_Suc_I2)
  qed
qed

subsection \<open>When the array moves\<close>

lemma growth_breaks_pointers:
  assumes st: "fs_stands sha D a (bb, s)" and f: "f_files a path \<noteq> None" "\<not> open_path a path" and fr: "fresh_fd a path fd (bb, s)"
    and full: "fds_cap (cfs bb) div 2 \<le> unat (n_fds (cfs bb))" and h: "holds base (owned p) h" and m: "fst m"
    and w: "\<not> w_done w"
  shows "\<exists>c'. task_step sha m (To_register (rootdir bb @ path) fd) (bb, p, h, s) = Some (Finished (Handle 0 fd), c') \<and>
    task_step sha m' (Writing (files_p p) w) c' = None"
proof -
  obtain st' s' where r: "cfs_register_file (cfs bb) (rootdir bb @ path) fd s = Some ((fd, st'), s')"
    using register_call [OF st f fr] by blast
  obtain p' h' where g: "grow_pointers m p h = Some (p', h')" "files_p p \<notin> set (h_live h')"
    using grow_owns [OF h, of m] m by blast
  have "u64 fd = fd" using fr by (simp add: fresh_fd_def loose_def)
  then show ?thesis using r g full w by (intro exI [of _ "(bb\<lparr>cfs := st'\<rparr>, p', h', s')"]) (simp add: points_def)
qed

end
