(* ===== verification/Samples_System.thy ===== *)
theory Samples_System
  imports Restart Interleaved Samples
begin

text \<open>
  Specifications that the concrete systems of \<open>Samples\<close> stand for, a client, and threads.
\<close>

text \<open>The sample system: a file of one block, an empty file, a free name and four descriptors.\<close>

definition sample_fs :: fs_spec where
  "sample_fs = \<lparr>f_files = [''/f'' \<mapsto> (2, [(0, [1, 3])]), ''/g'' \<mapsto> (0, [])], f_open = \<lambda>_. None, f_free = {''/h''}, f_room = 4\<rparr>"

text \<open>A client that makes a file, writes it, reads another one, and looks at its own before it unlinks it.\<close>

fun handle_of :: "(request, reply) history \<Rightarrow> nat \<Rightarrow> int" where
  "handle_of h k = (case snd (h ! k) of Handle r fd \<Rightarrow> fd | _ \<Rightarrow> -1)"

definition sample_client :: "(request, reply) history \<Rightarrow> request" where
  "sample_client h = [Mknod ''/h'' 33188 0, Open ''/h'', Write [1, 3] 2 0 (handle_of h 1), Open ''/f'',
     Read (replicate 4096 0) 4096 0 (handle_of h 3), Release (handle_of h 1),
     Getattr ''/h'' \<lparr>st_size = 0, st_blksize = 0, st_blocks = 0\<rparr>, Unlink ''/h''] ! length h"

lemma safe_next:
  "client h = q \<Longrightarrow> allowed a q \<Longrightarrow> (\<And>r. correct a q r \<Longrightarrow> safe allowed correct after client n (h @ [(q, r)]) (after a q r)) \<Longrightarrow>
   safe allowed correct after client (Suc n) h a"
  by simp

lemma sample_safe: "safe (fs_permits sample_D (refs_valid sample_os)) fs_correct fs_after sample_client 8 [] sample_fs"
proof -
  note step = safe_next [where client = sample_client and correct = fs_correct]
  have n: "8 = Suc (Suc (Suc (Suc (Suc (Suc (Suc (Suc 0)))))))" by simp
  note c = sample_client_def open_path_def sample_fresh0 S_ISREG_def fs_permits_def
  show ?thesis
    unfolding n sample_fs_def
    by (rule step, simp add: c, simp add: c, clarsimp simp: Let_def simp del: safe.simps)+ simp
qed

lemma sample_stands: "fs_stands sample_sha sample_D sample_fs (sample_bb, sample_os)"
proof -
  have d: "is_dir sample_os (parent_of ''/r/f'')" "is_dir sample_os (parent_of ''/r/g'')" by (auto simp: is_dir_def parent_of_def)
  have "file_stands sample_sha sample_D sample_fs path (sample_bb, sample_os)" for path
    using sample_closed sample_closed_g sample_h by (auto simp: file_stands_def sample_fs_def open_path_def)
  moreover have "usable sample_sha sample_D path (sample_bb, sample_os)" if "path \<in> fs_names sample_fs" for path
    using that sample_h d sample_not_block by (auto simp: usable_def fs_names_def sample_fs_def)
  ultimately show ?thesis
    using sample_session sample_store_ok sample_free by (simp add: fs_stands_def) (simp add: sample_fs_def)
qed

lemma sample_mounted: "mounted_on ''/r'' (sample_bb, sample_os)"
  by (simp add: mounted_on_def is_dir_def)

lemma idle_lstat: "lstat_works idle_calls"
  by (simp add: lstat_works_def idle_calls_def)

text \<open>With both files open, as descriptors 0 and 1.\<close>

definition both_fs :: fs_spec where
  "both_fs = sample_fs\<lparr>f_open := [0 \<mapsto> ''/f'', 1 \<mapsto> ''/g''], f_room := 2\<rparr>"

lemma both_stands: "fs_stands sample_sha sample_D both_fs (both_bb, both_os)"
proof -
  have r: "rootdir both_bb = ''/r''" "fds (cfs both_bb) = 0 # 1 # replicate 18 (-1)" "n_fds (cfs both_bb) = 2" "length (fdtab both_os) = 4"
    "free_fds both_os = 2" "cfs_get_file (cfs both_bb) 0 = Some 0"
    by (simp_all add: both_bb_def both_os_def sample_bb_def free_fds_def cfs_get_file_def)
  have "registry_ok (cfs both_bb)" by (simp add: registry_ok_def slots_ok_def used_def nth_Cons' r)
  then have ok: "session_ok (cfs both_bb) both_os" by (simp add: session_ok_def r both_get_fd)
  have fo: "file_open sample_sha sample_D (both_bb, both_os) 0 ''/r/f'' 2 sample_blocks"
    "file_open sample_sha sample_D (both_bb, both_os) 1 ''/r/g'' 0 []"
    using both_opened r(6) by (simp_all add: file_open_def) (simp_all add: sample_file_def)
  have f: "f_files both_fs = [''/f'' \<mapsto> (2, sample_blocks), ''/g'' \<mapsto> (0, [])]" "f_free both_fs = {''/h''}"
    "f_open both_fs fd = Some ''/f'' \<longleftrightarrow> fd = 0" "f_open both_fs fd = Some ''/g'' \<longleftrightarrow> fd = 1"
    "path \<noteq> ''/f'' \<Longrightarrow> path \<noteq> ''/g'' \<Longrightarrow> \<not> open_path both_fs path" for fd path
    by (auto simp: both_fs_def sample_fs_def open_path_def split: if_splits)
  have op: "open_path both_fs ''/f''" "open_path both_fs ''/g''" by (auto simp: open_path_def f(3,4))
  have "file_stands sample_sha sample_D both_fs path (both_bb, both_os)" for path
  proof -
    consider "path = ''/f''" | "path = ''/g''" | "path \<noteq> ''/f''" "path \<noteq> ''/g''" by blast
    then show ?thesis
      using fo op r(1) sample_h(1) by cases (simp_all add: file_stands_def f, blast+)
  qed
  moreover have "usable sample_sha sample_D path (both_bb, both_os)" if "path \<in> fs_names both_fs" for path
    using sample_stands that r(1) is_dir_same [of both_os sample_os] by (auto simp: fs_stands_def usable_def fs_names_def both_fs_def)
  ultimately show ?thesis
    using ok both_store_ok sample_stands r(1,5) by (simp add: fs_stands_def) (simp add: both_fs_def)
qed

definition sample_heap :: heap where
  "sample_heap = snd (init_pointers \<lparr>h_live = [], h_next = 1\<rparr>)"

definition sample_pointers :: pointers where
  "sample_pointers = fst (init_pointers \<lparr>h_live = [], h_next = 1\<rparr>)"

lemma sample_holds: "holds {} (owned sample_pointers) sample_heap"
  using init_owns [of "\<lparr>h_live = [], h_next = 1\<rparr>" sample_pointers sample_heap]
  by (simp add: heap_ok_def sample_pointers_def sample_heap_def)

definition both_requests :: "request list" where
  "both_requests = [Write [2] 1 4096 0, Release 1]"

lemma both_concurrent: "concurrent sample_D (refs_valid both_os) both_fs both_requests"
  using sample_fresh by (simp add: concurrent_def fs_permits_def both_requests_def both_fs_def sample_fs_def)

text \<open>A registry that is half full, of two entries, and a descriptor for the other file.\<close>

definition half_bb :: bb_state where
  "half_bb = sample_bb\<lparr>cfs := sample_st\<lparr>fds := [0, -1], n_fds := 1, files := [sample_file, sample_file]\<rparr>\<rparr>"

definition half_os :: os where
  "half_os = sample_os\<lparr>fdtab := [Some sample_ofile, Some (sample_ofile\<lparr>of_ino := 4, of_pos := 0\<rparr>), None, None]\<rparr>"

definition half_fs :: fs_spec where
  "half_fs = sample_fs\<lparr>f_open := [0 \<mapsto> ''/f''], f_room := 2\<rparr>"

lemma half_simps [simp]:
  "names half_os = names sample_os" "inodes half_os = inodes sample_os" "next_ino half_os = 5" "ideal half_os"
  "fdtab half_os = [Some sample_ofile, Some (sample_ofile\<lparr>of_ino := 4, of_pos := 0\<rparr>), None, None]"
  "rootdir half_bb = ''/r''" "storage (cfs half_bb) = sample_store" "lock (cfs half_bb) = Unlocked" "n_fds (cfs half_bb) = 1"
  "files (cfs half_bb) = [sample_file, sample_file]" "fds (cfs half_bb) = [0, -1]"
  by (simp_all add: half_os_def half_bb_def)

lemma half_get_fd: "get_fd half_os fd =
    (if fd = 0 then Some sample_ofile else if fd = 1 then Some (sample_ofile\<lparr>of_ino := 4, of_pos := 0\<rparr>) else None)"
  by (auto simp: get_fd_def numeral_eq_Suc less_Suc_eq nth_Cons' nat_eq_iff)

lemma half_dirs: "is_dir half_os = is_dir sample_os"
  by (simp add: fun_eq_iff is_dir_def cong: option.case_cong)

lemma half_store_ok: "store_ok sample_sha sample_D sample_store half_os"
proof -
  have "os_wf half_os" using sample_wf by (auto simp: os_wf_def half_get_fd sample_ofile_def)
  moreover have "first_free half_os = Some 2" by (simp add: first_free_def)
  moreover have "reg_content half_os = reg_content sample_os" by (simp add: fun_eq_iff reg_content_def cong: option.case_cong)
  ultimately show ?thesis using sample_store_ok half_dirs by (simp add: store_ok_def ready_def stored_def)
qed

lemma half_stands: "fs_stands sample_sha sample_D half_fs (half_bb, half_os)"
proof -
  have "registry_ok (cfs half_bb)" by (simp add: registry_ok_def slots_ok_def used_def nth_Cons')
  then have ok: "session_ok (cfs half_bb) half_os" by (simp add: session_ok_def half_get_fd)
  have "on_disk sample_sha sample_D (cfs half_bb) 0 sample_blocks sample_ofile half_os"
    using half_store_ok sample_apart(1) sample_not_block(1)
    by (simp add: on_disk_def live_def half_get_fd) (simp add: sample_ofile_def sample_file_def apart_def sample_D_def)
  then have "file_open sample_sha sample_D (half_bb, half_os) 0 ''/r/f'' 2 sample_blocks"
    by (auto simp: file_open_def opened_def cfs_get_file_def) (simp_all add: sample_file_def)
  moreover have "closed_file sample_sha sample_D sample_store ''/r/g'' 0 [] half_os"
    by (rule closed_file_same [OF sample_closed_g _ _ half_store_ok]) simp_all
  moreover have "open_path half_fs path \<longleftrightarrow> path = ''/f''" for path by (auto simp: open_path_def half_fs_def)
  ultimately have "file_stands sample_sha sample_D half_fs path (half_bb, half_os)" for path
    using sample_h by (auto simp: file_stands_def half_fs_def sample_fs_def)
  moreover have "usable sample_sha sample_D path (half_bb, half_os)" if "path \<in> fs_names half_fs" for path
    using sample_stands that half_dirs by (auto simp: fs_stands_def usable_def fs_names_def half_fs_def)
  moreover have "free_fds half_os = 2" by (simp add: free_fds_def)
  ultimately show ?thesis
    using ok half_store_ok sample_stands by (simp add: fs_stands_def) (simp add: half_fs_def)
qed

lemma half_fresh: "fresh_fd half_fs ''/g'' 1 (half_bb, half_os)" "f_files half_fs ''/g'' \<noteq> None" "\<not> open_path half_fs ''/g''"
proof -
  show "fresh_fd half_fs ''/g'' 1 (half_bb, half_os)"
    by (simp add: fresh_fd_def loose_def half_get_fd half_fs_def) (simp add: sample_ofile_def s32_def u64_def)
  show "f_files half_fs ''/g'' \<noteq> None" "\<not> open_path half_fs ''/g''" by (auto simp: half_fs_def sample_fs_def open_path_def)
qed

end
