(* ===== verification/File_System_Properties.thy ===== *)
theory File_System_Properties
  imports Samples_System
begin

text \<open>
  The file system as its users see it: any program that keeps to what the specification allows gets the replies the
  specification promises, and finds its files again after \<open>bbfs\<close> was killed; requests in several threads at once.
\<close>

text \<open>C1. A mounted file system serves its clients as specified. Whatever program makes requests, each chosen by the
  replies to the ones before, as long as each is allowed (files made under free names, one handle for a file, reads and
  writes at block boundaries, of blocks a file does not have yet): every request returns, with the reply that files,
  lists of blocks and handles explain. Reading is permitted only if the pointer that the call of \<open>load_block\<close> in
  \<open>cfs.c\<close> lacks happens to be valid; everything else does not depend on it.\<close>

theorem serves_as_specified:
  assumes "lstat_works c" "mounted_on root (bb, s)" "fs_stands sha D a (bb, s)"
    and "safe (fs_permits D (refs_valid s)) fs_correct fs_after client n [] a"
  shows "\<exists>h bb' s' b. run (fs_serve sha c) client n [] (bb, s) = Some (h, bb', s') \<and> length h = n \<and>
    explains (fs_permits D (refs_valid s)) fs_correct fs_after h a b \<and> mounted_on root (bb', s') \<and> fs_stands sha D b (bb', s')"
  using fs.runs [where c = c and root = root and v = "refs_valid s" and s = "(bb, s)" and h = "[]"] assms by fastforce

theorem serves_as_specified_witness:
  "\<exists>h bb' s' b. run (fs_serve sample_sha idle_calls) sample_client 8 [] (sample_bb, sample_os) = Some (h, bb', s') \<and>
    length h = 8 \<and> explains (fs_permits sample_D (refs_valid sample_os)) fs_correct fs_after h sample_fs b \<and> mounted_on ''/r'' (bb', s') \<and>
    fs_stands sample_sha sample_D b (bb', s')"
  by (rule serves_as_specified [OF idle_lstat sample_mounted sample_stands sample_safe])

text \<open>C2. Files survive the process. If \<open>bbfs\<close> ends between two requests, with handles open or not, and is
  started on the same directory again, the file system it hands to FUSE has every file with its size and its blocks,
  and no handles.\<close>

theorem survives_restart:
  assumes "fs_stands sha D a (bb, s)" "mounted_on root (bb, s)" "0 < k" "k < 2147483648" "0 \<le> open_max"
    and "uid \<noteq> 0" "euid \<noteq> 0" "opts \<noteq> []" "take 1 arg \<noteq> ''-''" "take 1 mnt \<noteq> ''-''"
    and "realpath arg (restarted k s) = (Some root, restarted k s)" "fopen ''bbfs.log'' (restarted k s) = (lg, restarted k s)"
    and "lg \<noteq> 0"
  shows "\<exists>bb'. bbfs_main uid euid realpath fopen open_max fuse_main st0 (opts @ [arg, mnt]) (restarted k s) =
      (case fuse_main (opts @ [mnt]) bb' (restarted k s) of (r, s') \<Rightarrow> Some (Returned r, s')) \<and>
    mounted_on root (bb', restarted k s) \<and> fs_stands sha D (at_rest k a) (bb', restarted k s)"
  using assms by (rule restarting)

theorem survives_restart_witness:
  "\<exists>bb'. bbfs_main 1000 1000 (\<lambda>p s. (Some ''/r'', s)) (\<lambda>p s. (1, s)) 1024 (\<lambda>args bb s. (int (length args), s)) sample_st
      ([''bbfs''] @ [''r'', ''mnt'']) (restarted 9 sample_os) =
      (case (\<lambda>args bb s. (int (length args), s)) ([''bbfs''] @ [''mnt'']) bb' (restarted 9 sample_os) of (r, s') \<Rightarrow>
        Some (Returned r, s')) \<and>
    mounted_on ''/r'' (bb', restarted 9 sample_os) \<and>
    fs_stands sample_sha sample_D (at_rest 9 sample_fs) (bb', restarted 9 sample_os)"
  by (rule survives_restart [OF sample_stands sample_mounted, where lg = 1]) simp_all

subsection \<open>Requests at once\<close>

text \<open>C3. Threads that open, read, write and release different files at once, with any interleaving of their system
  calls and critical sections, never do anything undefined as long as the array of open files does not move (and, if
  one of them reads, the pointer that the call of \<open>load_block\<close> lacks happens to be valid). They end
  after a number of steps that is bounded beforehand; then every reply, and every file, is as the specification has it
  for that request alone.\<close>

theorem requests_interleave:
  assumes "fs_stands sha D a (bb, s)" "holds base (owned p) h" "concurrent D (refs_valid s) a rqs"
    and "(proceed sha False ^^ n) (map (the \<circ> task_of) rqs, bb, p, h, s) (ts, bb', p', h', s')"
  shows "n \<le> left_over (map (the \<circ> task_of) rqs) \<and>
    (\<forall>t \<in> set ts. (\<exists>r. t = Finished r) \<or> (\<forall>m. fst m \<or> task_step sha m t (bb', p', h', s') \<noteq> None)) \<and>
    ((\<forall>t \<in> set ts. \<exists>r. t = Finished r) \<longrightarrow>
     (\<exists>rs b. ts = map Finished rs \<and> list_all2 (settled a b) rqs rs \<and> fs_stands sha D b (bb', s')))"
  using assms by (rule interleaving)

theorem requests_interleave_witness:
  "\<exists>n bb' p' h' s' rs b. (proceed sample_sha False ^^ n)
      (map (the \<circ> task_of) both_requests, both_bb, sample_pointers, sample_heap, both_os) (map Finished rs, bb', p', h', s') \<and>
    n \<le> left_over (map (the \<circ> task_of) both_requests) \<and>
    list_all2 (settled both_fs b) both_requests rs \<and> fs_stands sample_sha sample_D b (bb', s')"
proof -
  obtain n ts c where r: "(proceed sample_sha False ^^ n)
      (map (the \<circ> task_of) both_requests, both_bb, sample_pointers, sample_heap, both_os) (ts, c)" "\<forall>t \<in> set ts. \<exists>r. t = Finished r"
    using all_finish [OF starts_at_work [OF both_stands sample_holds both_concurrent] both_concurrent] by blast
  obtain bb' p' h' s' where c: "c = (bb', p', h', s')" by (metis prod.exhaust)
  from requests_interleave [OF both_stands sample_holds both_concurrent r(1) [unfolded c]] r c show ?thesis by blast
qed

text \<open>C4. When the registry grows while a thread is in \<open>bb_write\<close>, and \<open>realloc\<close> moves the array, the thread goes on
  with a pointer into memory that was freed: its next step is undefined, although the one that opened a file succeeds.\<close>

theorem growth_breaks_writers:
  assumes "fs_stands sha D a (bb, s)" "f_files a path \<noteq> None" "\<not> open_path a path" "fresh_fd a path fd (bb, s)"
    and "fds_cap (cfs bb) div 2 \<le> unat (n_fds (cfs bb))" "holds base (owned p) h" "fst m" "\<not> w_done w"
  shows "\<exists>c'. task_step sha m (To_register (rootdir bb @ path) fd) (bb, p, h, s) = Some (Finished (Handle 0 fd), c') \<and>
    task_step sha m' (Writing (files_p p) w) c' = None"
  using assms by (rule growth_breaks_pointers)

theorem growth_breaks_writers_witness:
  "\<exists>c'. task_step sample_sha (True, True) (To_register (rootdir half_bb @ ''/g'') 1) (half_bb, sample_pointers, sample_heap, half_os) =
      Some (Finished (Handle 0 1), c') \<and>
    task_step sample_sha (True, True) (Writing (files_p sample_pointers) (writer_at 0 1 [2])) c' = None"
  by (rule growth_breaks_writers [OF half_stands half_fresh(2,3,1) _ sample_holds])
    (simp_all add: fds_cap_def w_done_def writer_at_def)

end
