(* ===== verification/Spec2Isabelle.thy ===== *)
theory Spec2Isabelle
  imports Storage_Properties Cfs_Properties Bbfs_Properties Reachable_Properties File_System_Properties
begin

text \<open>
  fusefs-block: a FUSE file system (\<open>src/cfs/src\<close>) that keeps the data of files in blocks of 4096 bytes,
  each stored once under the SHA-1 of its content, and in the place of each file a small \<^emph>\<open>CFS file\<close> with a
  table of block indices and hashes.

  \<^bold>\<open>The program and its model.\<close>

  \<^item> \<open>Prelude\<close>: C conversions (\<open>s32\<close>, \<open>s64\<close>, \<open>u32\<close>, \<open>u64\<close>), little-endian fields, \<open>memcpy\<close> and \<open>memset\<close>
    with their bounds. \<open>Posix\<close>: the system calls the sources use, over a state \<open>os\<close> of names, inodes,
    descriptors and \<open>errno\<close>. For each kind of call the state has a schedule of outcomes: success, failure
    with an \<open>errno\<close>, a short transfer; \<open>ideal\<close> is the state with no faults to come. \<open>junk\<close> is the content of
    uninitialised variables; \<open>sext\<close> says how a negative offset reaches \<open>s_lseek\<close>, which is declared with
    another type than it is defined with; \<open>refs_valid\<close> whether the pointer that \<open>cfs_file_read_block\<close> does not pass to
    \<open>load_block\<close> (\<open>cfs.c\<close>, line 355: four arguments of five, which a compiler that checks the prototype rejects) happens to
    point to memory of its own.
  \<^item> \<open>Io\<close> (\<open>io.c\<close>), \<open>Util\<close> (\<open>util.c\<close>), \<open>Log\<close> (of \<open>log.c\<close> what returns to the callers),
    \<open>Dumps\<close> (what \<open>log.c\<close> prints of the structures, \<open>bb_init\<close>, \<open>bb_destroy\<close>, and \<open>fakelog.c\<close>).
  \<^item> \<open>Storage\<close> (\<open>storage.c\<close>): a block file is a reference counter of 8 bytes and the data. \<open>Block_Store\<close> gives
    the contract, the locale \<open>keyed_store\<close>, and interprets it on \<open>store_block\<close> and \<open>load_block\<close>.
    \<open>Descriptors\<close>: which operations leave the open descriptors as they were, whatever fails.
  \<^item> \<open>Cfs\<close> (\<open>cfs.c\<close>, \<open>cfs.h\<close>): the record of an open file, the registry (two arrays that grow together), the
    mutex, the search of the table, reading and registering blocks. \<open>Table\<close> is the file format,
    \<open>Block_File\<close> the operations on a file of that format, \<open>Registry\<close> the invariant of the registry,
    \<open>Memory\<close> which addresses the registry and the block store own until \<open>cfs_destroy\<close>.
  \<^item> \<open>File_Map\<close>: what an open file stands for, a list of block indices with their data; the relation
    \<open>opened\<close> ties it to the state, \<open>evolves\<close> says what an operation on one file may change of the rest,
    and the locale \<open>block_file\<close> is the contract of reading and registering blocks.
  \<^item> \<open>Bbfs\<close> (\<open>bbfs.c\<close>): the handlers. \<open>Bbfs_Data\<close>: the loops of \<open>bb_read\<close> and \<open>bb_write\<close>; \<open>Unaligned\<close>: the same
    inside a block; \<open>Bbfs_Session\<close>: a file from its creation to its release (\<open>closed_file\<close>,
    \<open>session_ok\<close>); \<open>Startup\<close>: mounting, attributes, listing; \<open>Programs\<close>: \<open>main\<close> of \<open>bbfs\<close>; \<open>Cfscat\<close>: \<open>main\<close> of
    \<open>cfscat\<close> with all that it and the functions of \<open>cfs.c\<close> and \<open>fakelog.c\<close> print, and the memory it frees;
    \<open>Dispatch\<close>: the table \<open>bb_oper\<close>, from FUSE's requests to the handlers.
  \<^item> \<open>File_System\<close>: the specification of the whole, over files that are lists of blocks and handles that stand for
    files (\<open>fs_spec\<close>: which requests are allowed, which replies are correct, what is the case afterwards), its relation
    \<open>fs_stands\<close> to the program's state, and the locale \<open>server\<close>: what a client sees that chooses each request by the
    replies so far. \<open>Sections\<close>: \<open>bb_open\<close> and \<open>bb_release\<close> in the pieces between which another thread may run, for this
    relation. \<open>Served\<close>: the table \<open>bb_oper\<close> does as specified, request by request. \<open>Restart\<close>: what a new process
    finds of the files of one that ended.
  \<^item> With faults: \<open>Faults\<close>: errors, with the locale \<open>posix_call\<close>; \<open>Steady\<close>: what no operation on an open file
    disturbs; \<open>Reachable\<close>: requests as a step relation, in any order, and the invariant \<open>consistent\<close> of the
    states that can be reached; \<open>Progress\<close> and \<open>Liveness\<close>: loops and handlers that return whatever fails.
  \<^item> Threads, each in a handler of its own. \<open>Threads\<close>: \<open>bb_write\<close> as a sequence of critical sections. \<open>Concurrency\<close>: opening,
    reading, writing and releasing as tasks whose steps (\<open>task_step\<close>) are a system call, a critical section, or the search of
    \<open>cfs_get_file\<close>; a task keeps its \<open>cfs_file_t*\<close> as an address of \<open>Memory\<close>, and using it when it was freed is undefined; without
    interference the steps are those of the handler. \<open>Interleaved\<close>: many tasks over one state, in any order (\<open>proceed\<close>).
  \<^item> \<open>Samples\<close> and \<open>Samples_System\<close> are concrete systems on which the hypotheses of the properties hold.
    \<open>Storage_Properties\<close>, \<open>Cfs_Properties\<close>, \<open>Bbfs_Properties\<close>, \<open>Reachable_Properties\<close>, \<open>File_System_Properties\<close>
    and this theory hold the properties.

  \<^bold>\<open>Conventions.\<close> A state is passed and returned. \<open>None\<close> is undefined behaviour (a null or wild pointer, a
  buffer overrun, a mutex used against its rules) or a loop that does not end. An output parameter is a
  component of the result. SHA-1, FUSE and the system calls that handlers only pass arguments to are
  parameters. A \<open>cfs_file_t*\<close> is an index into \<open>files\<close>. The order of system calls and every early return
  are those of the code. A call of \<open>log_msg\<close> appears where a later step reads the \<open>errno\<close> it may change.

  \<^bold>\<open>What is shown.\<close> Reading a block that exists is undefined unless \<open>refs_valid\<close>: what is said of reading below holds when
  it does, and the theorems say so; they do not depend on it where only missing blocks are read or where files are
  written in blocks they do not have. Without faults: any client that keeps to whole blocks and one handle for a file gets the replies
  that the specification promises, for any number of requests and of files, and the files survive the end of the
  process; data written at block boundaries in blocks the file does not have are read
  back, through any number of handlers, and other files are unharmed, also when several threads open,
  read, write and release different files at once, as long as the array of open files does not move; equal blocks are stored once; each handler refines its effect on the list of blocks.
  With arbitrary faults: the wrappers of \<open>io.c\<close> complete short and interrupted transfers, though \<open>s_write\<close>
  returns the length of the last chunk only; in every reachable
  state the registry and the open descriptors agree, a handle stands for a descriptor on a regular file, and
  opening, reading and releasing return; the handle \<open>-1\<close>,
  which would match a free slot, is never released there; most block operations give back their descriptor, and errors of the
  calls that handlers pass on are reported. Also what the code does not do as it means to: writing over a block,
  unaligned accesses, short reads, read errors that nobody reports, leaks, the mutex after a failed store, a
  search that never ends, pointers into the array of open files when it moves.

  \<^bold>\<open>Bounds.\<close> A CFS file is smaller than \<open>2^31\<close> bytes (\<open>23 + 28 * n\<close> for \<open>n\<close> pairs, at most \<open>MAX_PAIRS\<close>), because
  \<open>s_lseek\<close> keeps offsets in an \<open>int\<close>; offsets of data stay below \<open>2^63\<close>; the length of a transfer
  below \<open>2^31\<close>, since the handlers return it as an \<open>int\<close>. \<open>keys_ok\<close> assumes of SHA-1 that its first 19 bytes
  tell the blocks in use apart, since the names of the block files show no more. There is no fuel:
  loops that end are total functions by a measure on the bytes left and the faults to come, the others
  are partial functions, where a property says that they return. The number of steps of threads
  is at most \<open>left_over\<close>, which counts two critical sections for each byte to be written.

  \<^bold>\<open>Not modelled.\<close> The contents of the heap under pointers (\<open>Memory\<close> has the addresses only); data races within a step
  of a thread, as between the search of \<open>cfs_get_file\<close>, which holds no lock, and a registry that grows; threads with faults, or on
  the same file, where the steps are defined but nothing is shown; that \<open>bb_write\<close> returns under arbitrary faults; permissions; the contents of files outside CFS that handlers pass on; generated build files and the
  Python tests.
\<close>

section \<open>Files from their creation to their release\<close>

text \<open>C5. A file that is made, opened, written from the start and released holds exactly
  the blocks of the buffer and its length as the size. Opened again and read, it yields what was written, provided that
  the pointer that the call of \<open>load_block\<close> in \<open>cfs.c\<close> lacks happens to be valid.\<close>

theorem created_written_read:
  assumes "bb_fullpath bb path = Some p" "S_ISREG mode" "session_ok (cfs bb) s" "2 \<le> free_fds s"
    and "store_ok sha D (storage (cfs bb)) s" "names s p = None" "is_dir s (parent_of p)"
    and "p \<notin> block_of sha (storage (cfs bb)) ` D" "fresh_blocks D [] 0 bs"
    and "length buf = 4096 * m" "length bs \<le> 4096 * m" "4096 * m < 2147483648" "refs_valid s"
  shows "\<exists>s0 fd st1 s1 st2 s2 st3 s3 fd' st4 s4 data s5.
    bb_mknod mkfifo mknod bb path mode dev s = Some (0, s0) \<and>
    bb_open bb path s0 = Some ((0, fd, bb\<lparr>cfs := st1\<rparr>), s1) \<and>
    bb_write sha (bb\<lparr>cfs := st1\<rparr>) bs (int (length bs)) 0 fd s1 = Some ((int (length bs), bb\<lparr>cfs := st2\<rparr>), s2) \<and>
    bb_release (bb\<lparr>cfs := st2\<rparr>) fd s2 = Some ((0, bb\<lparr>cfs := st3\<rparr>), s3) \<and>
    closed_file sha D (storage (cfs bb)) p (of_nat (length bs)) (chunks 0 bs) s3 \<and>
    bb_open (bb\<lparr>cfs := st3\<rparr>) path s3 = Some ((0, fd', bb\<lparr>cfs := st4\<rparr>), s4) \<and>
    bb_read (bb\<lparr>cfs := st4\<rparr>) buf (int (length buf)) 0 fd' s4 = Some ((int (length buf), data, bb\<lparr>cfs := st4\<rparr>), s5) \<and>
    take (length bs) data = bs"
proof -
  let ?s = "new_node p (Reg (file_image 0 0 [])) s"
  have i: "ideal s" "first_free s \<noteq> None" using store_okD(1,2) [OF assms(5)] by (auto simp: ready_def)
  note mk = mknod_new [OF assms(1,2) i(1) assms(6,7) i(2)]
  have ok: "session_ok (cfs bb) ?s" "2 \<le> free_fds ?s" "closed_file sha D (storage (cfs bb)) p 0 [] ?s"
    using assms(3,4) session_ok_new_node closed_new_file [OF assms(5,6,8)] by simp_all
  obtain fd st1 s1 st2 s2 st3 s3 where w: "bb_open bb path ?s = Some ((0, fd, bb\<lparr>cfs := st1\<rparr>), s1)"
    "bb_write sha (bb\<lparr>cfs := st1\<rparr>) bs (int (length bs)) 0 fd s1 = Some ((int (length bs), bb\<lparr>cfs := st2\<rparr>), s2)"
    "bb_release (bb\<lparr>cfs := st2\<rparr>) fd s2 = Some ((0, bb\<lparr>cfs := st3\<rparr>), s3)"
    "closed_file sha D (storage (cfs bb)) p (of_nat (length bs)) (chunks 0 bs) s3"
    "session_ok st3 s3" "free_fds s3 = free_fds ?s" "storage st3 = storage (cfs bb)" "refs_valid s3 = refs_valid ?s"
    using write_session_closed [OF assms(1) ok assms(9)] by fastforce
  have "bb_fullpath (bb\<lparr>cfs := st3\<rparr>) path = Some p" using assms(1) by (simp add: bb_fullpath_def)
  then obtain fd' st4 s4 data s5 where "bb_open (bb\<lparr>cfs := st3\<rparr>) path s3 = Some ((0, fd', bb\<lparr>cfs := st4\<rparr>), s4)"
    "bb_read (bb\<lparr>cfs := st4\<rparr>) buf (int (length buf)) 0 fd' s4 = Some ((int (length buf), data, bb\<lparr>cfs := st4\<rparr>), s5)"
    "take (length bs) data = bs"
    using read_back [of "bb\<lparr>cfs := st3\<rparr>" path p s3 sha D "of_nat (length bs)" "[]" 0 bs buf m] w(4-8) assms(9-13) ok(2)
    by (auto simp: new_node_def)
  with mk w(1-4) show ?thesis by blast
qed

theorem created_written_read_witness:
  "\<exists>s0 fd st1 s1 st2 s2 st3 s3 fd' st4 s4 data s5.
    bb_mknod (\<lambda>p m s. (0, s)) (\<lambda>p m d s. (0, s)) sample_bb ''/h'' 0x81A4 0 sample_os = Some (0, s0) \<and>
    bb_open sample_bb ''/h'' s0 = Some ((0, fd, sample_bb\<lparr>cfs := st1\<rparr>), s1) \<and>
    bb_write sample_sha (sample_bb\<lparr>cfs := st1\<rparr>) [1, 3] (int (length [1 :: byte, 3])) 0 fd s1
      = Some ((int (length [1 :: byte, 3]), sample_bb\<lparr>cfs := st2\<rparr>), s2) \<and>
    bb_release (sample_bb\<lparr>cfs := st2\<rparr>) fd s2 = Some ((0, sample_bb\<lparr>cfs := st3\<rparr>), s3) \<and>
    closed_file sample_sha sample_D (storage (cfs sample_bb)) ''/r/h'' (of_nat (length [1 :: byte, 3])) (chunks 0 [1, 3]) s3 \<and>
    bb_open (sample_bb\<lparr>cfs := st3\<rparr>) ''/h'' s3 = Some ((0, fd', sample_bb\<lparr>cfs := st4\<rparr>), s4) \<and>
    bb_read (sample_bb\<lparr>cfs := st4\<rparr>) (replicate 4096 9) (int (length (replicate 4096 (9 :: byte)))) 0 fd' s4
      = Some ((int (length (replicate 4096 (9 :: byte))), data, sample_bb\<lparr>cfs := st4\<rparr>), s5) \<and>
    take (length [1 :: byte, 3]) data = [1, 3]"
  by (rule created_written_read [OF sample_fullpath(3), where m = 1])
    (use sample_session sample_free sample_h sample_store_ok sample_fresh0 in \<open>simp_all add: S_ISREG_def\<close>)

text \<open>C6. A closed file is opened, written at a block boundary in blocks it does not have yet,
  released, opened again and read there: every call succeeds, and the read yields what was written, provided that
  the pointer that the call of \<open>load_block\<close> in \<open>cfs.c\<close> lacks happens to be valid.\<close>

theorem written_is_read:
  assumes "bb_fullpath bb path = Some p" "session_ok (cfs bb) s" "2 \<le> free_fds s"
    and "closed_file sha D (storage (cfs bb)) p sz af s" "fresh_blocks D af a bs"
    and "length buf = 4096 * m" "length bs \<le> 4096 * m" "4096 * (a + m) < 9223372036854775808" "4096 * m < 2147483648"
    and "refs_valid s"
  shows "\<exists>fd st1 s1 st2 s2 st3 s3 fd' st4 s4 data s5.
    bb_open bb path s = Some ((0, fd, bb\<lparr>cfs := st1\<rparr>), s1) \<and>
    bb_write sha (bb\<lparr>cfs := st1\<rparr>) bs (int (length bs)) (4096 * int a) fd s1
      = Some ((int (length bs), bb\<lparr>cfs := st2\<rparr>), s2) \<and>
    bb_release (bb\<lparr>cfs := st2\<rparr>) fd s2 = Some ((0, bb\<lparr>cfs := st3\<rparr>), s3) \<and>
    bb_open (bb\<lparr>cfs := st3\<rparr>) path s3 = Some ((0, fd', bb\<lparr>cfs := st4\<rparr>), s4) \<and>
    bb_read (bb\<lparr>cfs := st4\<rparr>) buf (int (length buf)) (4096 * int a) fd' s4
      = Some ((int (length buf), data, bb\<lparr>cfs := st4\<rparr>), s5) \<and>
    take (length bs) data = bs"
proof -
  obtain fd st1 s1 st2 s2 st3 s3 where w: "bb_open bb path s = Some ((0, fd, bb\<lparr>cfs := st1\<rparr>), s1)"
    "bb_write sha (bb\<lparr>cfs := st1\<rparr>) bs (int (length bs)) (4096 * int a) fd s1
      = Some ((int (length bs), bb\<lparr>cfs := st2\<rparr>), s2)"
    "bb_release (bb\<lparr>cfs := st2\<rparr>) fd s2 = Some ((0, bb\<lparr>cfs := st3\<rparr>), s3)"
    "closed_file sha D (storage (cfs bb)) p (sz + of_nat (length bs)) (af @ chunks a bs) s3"
    "session_ok st3 s3" "free_fds s3 = free_fds s" "storage st3 = storage (cfs bb)" "refs_valid s3 = refs_valid s"
    using write_session_closed [OF assms(1-5)] by blast
  have "bb_fullpath (bb\<lparr>cfs := st3\<rparr>) path = Some p" using assms(1) by (simp add: bb_fullpath_def)
  then obtain fd' st4 s4 data s5 where "bb_open (bb\<lparr>cfs := st3\<rparr>) path s3 = Some ((0, fd', bb\<lparr>cfs := st4\<rparr>), s4)"
    "bb_read (bb\<lparr>cfs := st4\<rparr>) buf (int (length buf)) (4096 * int a) fd' s4
      = Some ((int (length buf), data, bb\<lparr>cfs := st4\<rparr>), s5)" "take (length bs) data = bs"
    using read_back [of "bb\<lparr>cfs := st3\<rparr>" path p s3 sha D "sz + of_nat (length bs)" af a bs buf m] w(4-8) assms(3,5-10) by auto
  with w(1-3) show ?thesis by blast
qed

theorem written_is_read_witness:
  "\<exists>fd st1 s1 st2 s2 st3 s3 fd' st4 s4 data s5.
    bb_open sample_bb ''/f'' sample_os = Some ((0, fd, sample_bb\<lparr>cfs := st1\<rparr>), s1) \<and>
    bb_write sample_sha (sample_bb\<lparr>cfs := st1\<rparr>) [2] (int (length [2 :: byte])) (4096 * int 1) fd s1
      = Some ((int (length [2 :: byte]), sample_bb\<lparr>cfs := st2\<rparr>), s2) \<and>
    bb_release (sample_bb\<lparr>cfs := st2\<rparr>) fd s2 = Some ((0, sample_bb\<lparr>cfs := st3\<rparr>), s3) \<and>
    bb_open (sample_bb\<lparr>cfs := st3\<rparr>) ''/f'' s3 = Some ((0, fd', sample_bb\<lparr>cfs := st4\<rparr>), s4) \<and>
    bb_read (sample_bb\<lparr>cfs := st4\<rparr>) (replicate 4096 9) (int (length (replicate 4096 (9 :: byte)))) (4096 * int 1) fd' s4
      = Some ((int (length (replicate 4096 (9 :: byte))), data, sample_bb\<lparr>cfs := st4\<rparr>), s5) \<and>
    take (length [2 :: byte]) data = [2]"
  by (rule written_is_read [OF sample_fullpath(1), where m = 1])
    (use sample_session sample_closed sample_free sample_fresh in simp_all)

text \<open>C7. Opening, writing and releasing one file leaves every other file with the size and the
  blocks it had, gives back the descriptor, and keeps the session consistent.\<close>

theorem others_unharmed:
  assumes "bb_fullpath bb path = Some p" "session_ok (cfs bb) s" "2 \<le> free_fds s"
    and "closed_file sha D (storage (cfs bb)) p sz af s" "fresh_blocks D af a bs"
    and "closed_file sha D (storage (cfs bb)) q szq aq s" "names s q \<noteq> names s p"
  shows "\<exists>fd st1 s1 st2 s2 st3 s3. bb_open bb path s = Some ((0, fd, bb\<lparr>cfs := st1\<rparr>), s1) \<and>
    bb_write sha (bb\<lparr>cfs := st1\<rparr>) bs (int (length bs)) (4096 * int a) fd s1
      = Some ((int (length bs), bb\<lparr>cfs := st2\<rparr>), s2) \<and>
    bb_release (bb\<lparr>cfs := st2\<rparr>) fd s2 = Some ((0, bb\<lparr>cfs := st3\<rparr>), s3) \<and>
    closed_file sha D (storage (cfs bb)) p (sz + of_nat (length bs)) (af @ chunks a bs) s3 \<and>
    closed_file sha D (storage (cfs bb)) q szq aq s3 \<and> session_ok st3 s3 \<and> free_fds s3 = free_fds s"
  using write_session_closed [OF assms(1-5)] assms(6,7) by blast

theorem others_unharmed_witness:
  "\<exists>fd st1 s1 st2 s2 st3 s3. bb_open sample_bb ''/f'' sample_os = Some ((0, fd, sample_bb\<lparr>cfs := st1\<rparr>), s1) \<and>
    bb_write sample_sha (sample_bb\<lparr>cfs := st1\<rparr>) [2] (int (length [2 :: byte])) (4096 * int 1) fd s1
      = Some ((int (length [2 :: byte]), sample_bb\<lparr>cfs := st2\<rparr>), s2) \<and>
    bb_release (sample_bb\<lparr>cfs := st2\<rparr>) fd s2 = Some ((0, sample_bb\<lparr>cfs := st3\<rparr>), s3) \<and>
    closed_file sample_sha sample_D (storage (cfs sample_bb)) ''/r/f'' (2 + of_nat (length [2 :: byte]))
      (sample_blocks @ chunks 1 [2]) s3 \<and>
    closed_file sample_sha sample_D (storage (cfs sample_bb)) ''/r/g'' 0 [] s3 \<and>
    session_ok st3 s3 \<and> free_fds s3 = free_fds sample_os"
  by (rule others_unharmed [OF sample_fullpath(1)])
    (use sample_session sample_closed sample_closed_g sample_free sample_fresh in simp_all)

text \<open>C17. Writing data whose blocks are all stored already, by whatever file, makes no new file:
  the blocks are shared.\<close>

theorem stored_once:
  assumes "cfs_get_file (cfs bb) (s32 fh) = Some i" "opened sha D (cfs bb) i af s" "fresh_blocks D af a bs"
    and "\<forall>d \<in> snd ` set (af @ chunks a bs). names s (block_of sha (storage (cfs bb)) d) \<noteq> None"
  shows "\<exists>st' s'. bb_write sha bb bs (int (length bs)) (4096 * int a) fh s
      = Some ((int (length bs), bb\<lparr>cfs := st'\<rparr>), s') \<and> opened sha D st' i (af @ chunks a bs) s' \<and> names s' = names s"
proof -
  let ?D = "snd ` set (af @ chunks a bs)"
  have sub: "?D \<subseteq> D" using assms(2,3) by (auto simp: fresh_blocks_def opened_def on_disk_def)
  have "opened sha ?D (cfs bb) i af s" by (rule opened_subset [OF assms(2) sub]) auto
  moreover have "fresh_blocks ?D af a bs" using assms(3) by (auto simp: fresh_blocks_def)
  ultimately obtain st1 s1 where 1: "bb_write sha bb bs (int (length bs)) (4096 * int a) fh s = Some ((int (length bs), bb\<lparr>cfs := st1\<rparr>), s1)"
    "evolves sha ?D (storage (cfs bb)) (f_path (files (cfs bb) ! i)) (f_fd (files (cfs bb) ! i)) s s1"
    using write_aligned [OF assms(1)] by blast
  obtain st' s' where 2: "bb_write sha bb bs (int (length bs)) (4096 * int a) fh s = Some ((int (length bs), bb\<lparr>cfs := st'\<rparr>), s')"
    "opened sha D st' i (af @ chunks a bs) s'"
    using write_aligned [OF assms(1-3)] by blast
  have "names s' = names s" using evolves_stored_names [OF 1(2) assms(4)] 1(1) 2(1) by simp
  with 2 show ?thesis by blast
qed

theorem stored_once_witness:
  "\<exists>st' s'. bb_write sample_sha opened_bb [1, 3] (int (length [1 :: byte, 3])) (4096 * int 1) 0 opened_os
      = Some ((int (length [1 :: byte, 3]), opened_bb\<lparr>cfs := st'\<rparr>), s') \<and>
    opened sample_sha sample_D st' 0 (sample_blocks @ chunks 1 [1, 3]) s' \<and> names s' = names opened_os"
  by (rule stored_once)
    (use sample_opened opened_get_file in \<open>simp_all add: fresh_blocks_def chunks_two sample_D_def\<close>)

end
